(* ===== verification/Prelude.thy ===== *)
theory Prelude
  imports Main "HOL-Library.Word" "HOL-Library.Char_ord" "HOL-Library.List_Lexorder"
begin

text \<open>
  Shared vocabulary of the development: the outcome of a Go call (a value, an error value, or a
  run-time panic), bytes and strings, sequencing and error wrapping, fetches and slices with the bounds
  checks of the Go run time, and the generic list lemmas and fact collections the component theories use.
\<close>

unbundle bit_operations_syntax

section \<open>Outcomes of Go calls\<close>

text \<open>
  A Go function of the repository returns a value, returns a non-nil \<open>error\<close>, or panics. Error
  values are the constructors of one datatype per component; a panic carries its run-time cause.
\<close>

datatype panic =
    IndexOutOfRange
  | SliceOutOfRange
  | NilDereference
  | DivideByZero
  | MakeSliceOutOfRange
  | TypeAssertion

datatype ('e, 'a) outcome = Ok (the_ok: 'a) | Err 'e | Panic panic

primrec bind_ok :: "('e, 'a) outcome \<Rightarrow> ('a \<Rightarrow> ('e, 'b) outcome) \<Rightarrow> ('e, 'b) outcome" where
  "bind_ok (Ok x) k = k x"
| "bind_ok (Err e) k = Err e"
| "bind_ok (Panic p) k = Panic p"

primrec map_err :: "('e \<Rightarrow> 'f) \<Rightarrow> ('e, 'a) outcome \<Rightarrow> ('f, 'a) outcome" where
  "map_err f (Ok x) = Ok x"
| "map_err f (Err e) = Err (f e)"
| "map_err f (Panic p) = Panic p"

primrec panics :: "('e, 'a) outcome \<Rightarrow> bool" where
  "panics (Ok x) = False"
| "panics (Err e) = False"
| "panics (Panic p) = True"

text \<open>An index expression \<open>xs[i]\<close>: the run time checks the bound.\<close>

definition fetch :: "'a list \<Rightarrow> nat \<Rightarrow> ('e, 'a) outcome" where
  "fetch xs i = (if i < length xs then Ok (xs ! i) else Panic IndexOutOfRange)"

text \<open>
  A slice expression \<open>xs[i:j]\<close>, and \<open>xs[i:]\<close>. The run time bounds \<open>j\<close> by the capacity of a slice, which may
  exceed its length; the model bounds it by the length. It panics wherever Go does, and a run without a
  panic in the model reads only bytes below the length.
\<close>

definition go_slice :: "'a list \<Rightarrow> nat \<Rightarrow> nat \<Rightarrow> ('e, 'a list) outcome" where
  "go_slice xs i j =
     (if i \<le> j \<and> j \<le> length xs then Ok (take (j - i) (drop i xs)) else Panic SliceOutOfRange)"

definition slice_from :: "'a list \<Rightarrow> nat \<Rightarrow> ('e, 'a list) outcome" where
  "slice_from xs i = go_slice xs i (length xs)"

text \<open>A loop that stores the result of each round and returns at the first failure.\<close>

fun collect :: "('a \<Rightarrow> ('e, 'b) outcome) \<Rightarrow> 'a list \<Rightarrow> ('e, 'b list) outcome" where
  "collect f [] = Ok []"
| "collect f (x # xs) = bind_ok (f x) (\<lambda>y. bind_ok (collect f xs) (\<lambda>ys. Ok (y # ys)))"

lemma bind_ok_Ok_iff [simp]: "bind_ok m k = Ok y \<longleftrightarrow> (\<exists>x. m = Ok x \<and> k x = Ok y)"
  by (cases m) auto

lemma bind_ok_Err_iff:
  "bind_ok m k = Err e \<longleftrightarrow> m = Err e \<or> (\<exists>x. m = Ok x \<and> k x = Err e)"
  by (cases m) auto

lemma bind_ok_Panic_iff:
  "bind_ok m k = Panic p \<longleftrightarrow> m = Panic p \<or> (\<exists>x. m = Ok x \<and> k x = Panic p)"
  by (cases m) auto

lemma bind_ok_assoc: "bind_ok (bind_ok m f) g = bind_ok m (\<lambda>x. bind_ok (f x) g)"
  by (cases m) auto

lemma map_err_Ok_iff [simp]: "map_err f m = Ok x \<longleftrightarrow> m = Ok x"
  by (cases m) auto

lemma map_err_Err_iff: "map_err f m = Err e \<longleftrightarrow> (\<exists>d. m = Err d \<and> e = f d)"
  by (cases m) auto

lemma map_err_Panic_iff [simp]: "map_err f m = Panic p \<longleftrightarrow> m = Panic p"
  by (cases m) auto

lemma panics_iff: "panics m \<longleftrightarrow> (\<exists>p. m = Panic p)"
  by (cases m) auto

lemma panics_map_err [simp]: "panics (map_err f m) = panics m"
  by (cases m) auto

lemma panics_bind_ok: "panics (bind_ok m k) \<longleftrightarrow> panics m \<or> (\<exists>x. m = Ok x \<and> panics (k x))"
  by (cases m) auto

lemma fetch_Ok [simp]: "i < length xs \<Longrightarrow> fetch xs i = Ok (xs ! i)"
  by (simp add: fetch_def)

lemma fetch_panics [simp]: "length xs \<le> i \<Longrightarrow> fetch xs i = Panic IndexOutOfRange"
  by (simp add: fetch_def)

lemma go_slice_Ok [simp]: "i \<le> j \<Longrightarrow> j \<le> length xs \<Longrightarrow> go_slice xs i j = Ok (take (j - i) (drop i xs))"
  by (simp add: go_slice_def)

lemma go_slice_Ok_iff: "go_slice xs i j = Ok ys \<longleftrightarrow> i \<le> j \<and> j \<le> length xs \<and> ys = take (j - i) (drop i xs)"
  by (auto simp: go_slice_def)

lemma go_slice_not_Err [simp]: "go_slice xs i j \<noteq> Err e"
  by (simp add: go_slice_def)

lemma slice_from_Ok [simp]: "i \<le> length xs \<Longrightarrow> slice_from xs i = Ok (drop i xs)"
  by (simp add: slice_from_def)

lemma slice_from_Ok_iff: "slice_from xs i = Ok ys \<longleftrightarrow> i \<le> length xs \<and> ys = drop i xs"
  by (auto simp: slice_from_def go_slice_Ok_iff)

lemma collect_Ok: "(\<And>x. x \<in> set xs \<Longrightarrow> f x = Ok (g x)) \<Longrightarrow> collect f xs = Ok (map g xs)"
  by (induction xs) auto

lemma collect_length: "collect f xs = Ok ys \<Longrightarrow> length ys = length xs"
  by (induction xs arbitrary: ys) auto

section \<open>Bytes and strings\<close>

text \<open>
  A Go string is an immutable byte sequence and a HOL \<open>char\<close> is a byte, so a Go string is a HOL
  \<open>string\<close>; a \<open>[]byte\<close> is a list of 8-bit words. The conversions \<open>[]byte(s)\<close> and \<open>string(b)\<close>
  copy the bytes.
\<close>

type_synonym byte = "8 word"

definition byte_of :: "char \<Rightarrow> byte" where
  "byte_of c = of_nat (of_char c)"

definition char_of_byte :: "byte \<Rightarrow> char" where
  "char_of_byte b = char_of (unat b)"

definition bytes_of :: "string \<Rightarrow> byte list" where
  "bytes_of s = map byte_of s"

definition string_of :: "byte list \<Rightarrow> string" where
  "string_of bs = map char_of_byte bs"

lemma char_of_byte_byte_of [simp]: "char_of_byte (byte_of c) = c"
  using nat_of_char_less_256 [of c]
  by (simp add: char_of_byte_def byte_of_def unat_of_nat take_bit_eq_mod)

lemma byte_of_char_of_byte [simp]: "byte_of (char_of_byte b) = b"
proof -
  have "unat b mod 256 = unat b"
    using unsigned_less [of b, where 'a = nat] by simp
  then show ?thesis
    by (simp add: char_of_byte_def byte_of_def)
qed

lemma string_of_bytes_of [simp]: "string_of (bytes_of s) = s"
  by (simp add: string_of_def bytes_of_def comp_def)

lemma bytes_of_string_of [simp]: "bytes_of (string_of bs) = bs"
  by (simp add: string_of_def bytes_of_def comp_def)

lemma bytes_of_inject [simp]: "bytes_of s = bytes_of t \<longleftrightarrow> s = t"
  by (metis string_of_bytes_of)

lemma length_bytes_of [simp]: "length (bytes_of s) = length s"
  by (simp add: bytes_of_def)

lemma length_string_of [simp]: "length (string_of bs) = length bs"
  by (simp add: string_of_def)

section \<open>Fact collections and list lemmas\<close>

named_theorems codec_simps \<open>round-trip equations of the byte-level encoders and decoders\<close>
named_theorems wf_intros \<open>the well-formedness invariants and their preservation\<close>

lemma take_length_append [simp]: "n = length xs \<Longrightarrow> take n (xs @ ys) = xs"
  by simp

lemma drop_length_append [simp]: "n = length xs \<Longrightarrow> drop n (xs @ ys) = ys"
  by simp

lemma map_nth_upt_id: "map (\<lambda>i. xs ! i) [0..<length xs] = xs"
  by (rule map_nth)

lemma upt_Suc_tail: "i < n \<Longrightarrow> [i..<n] = i # [Suc i..<n]"
  by (rule upt_conv_Cons)

end
