(* ===== verification/Wire.thy ===== *)
theory Wire
  imports Prelude
begin

text \<open>
  The parts of Go's \<open>encoding/binary\<close> and of its run time that the code calls: little-endian
  words, unsigned varints, and the bounds check of \<open>make\<close>. Each decoder is proved to invert its
  encoder in front of arbitrary further bytes, which is how the segment format chains them. An
  unsigned 64-bit quantity read from the wire is a \<open>nat\<close> below \<open>2 ^ 64\<close>; \<open>int\<close> is 64 bits wide.
\<close>

section \<open>Little-endian words\<close>

primrec le_bytes :: "nat \<Rightarrow> nat \<Rightarrow> byte list" where
  "le_bytes 0 v = []"
| "le_bytes (Suc n) v = of_nat (v mod 256) # le_bytes n (v div 256)"

primrec le_nat :: "byte list \<Rightarrow> nat" where
  "le_nat [] = 0"
| "le_nat (b # bs) = unat b + 256 * le_nat bs"

definition putUint16 :: "16 word \<Rightarrow> byte list" where
  "putUint16 v = le_bytes 2 (unat v)"

definition putUint64 :: "64 word \<Rightarrow> byte list" where
  "putUint64 v = le_bytes 8 (unat v)"

text \<open>The value of the first 2 or 8 bytes.\<close>

definition uint16_le :: "byte list \<Rightarrow> 16 word" where
  "uint16_le bs = of_nat (le_nat (take 2 bs))"

definition uint64_le :: "byte list \<Rightarrow> 64 word" where
  "uint64_le bs = of_nat (le_nat (take 8 bs))"

text \<open>\<open>Uint16\<close> and \<open>Uint64\<close>: the index expression of the last byte they read panics on shorter arguments.\<close>

definition get_uint16 :: "byte list \<Rightarrow> ('e, 16 word) outcome" where
  "get_uint16 bs = (if length bs < 2 then Panic IndexOutOfRange else Ok (uint16_le bs))"

definition get_uint64 :: "byte list \<Rightarrow> ('e, 64 word) outcome" where
  "get_uint64 bs = (if length bs < 8 then Panic IndexOutOfRange else Ok (uint64_le bs))"

lemma get_uint16_Ok [simp]: "2 \<le> length bs \<Longrightarrow> get_uint16 bs = Ok (uint16_le bs)"
  by (simp add: get_uint16_def)

lemma get_uint64_Ok [simp]: "8 \<le> length bs \<Longrightarrow> get_uint64 bs = Ok (uint64_le bs)"
  by (simp add: get_uint64_def)

lemma uint16_le_take [simp]: "uint16_le (take 2 bs) = uint16_le bs"
  by (simp add: uint16_le_def)

lemma uint64_le_take [simp]: "uint64_le (take 8 bs) = uint64_le bs"
  by (simp add: uint64_le_def)

lemma length_le_bytes [simp]: "length (le_bytes n v) = n"
  by (induction n arbitrary: v) auto

lemma unat_of_nat_byte [simp]: "n < 256 \<Longrightarrow> unat (of_nat n :: byte) = n"
  by (simp add: unat_of_nat take_bit_eq_mod)

text \<open>Evaluation on a numeral length.\<close>

lemma le_bytes_numeral:
  "le_bytes (numeral n) v = of_nat (v mod 256) # le_bytes (pred_numeral n) (v div 256)"
  unfolding numeral_eq_Suc [of n] by (rule le_bytes.simps(2))

lemma le_nat_le_bytes: "le_nat (le_bytes n v) = v mod 256 ^ n"
proof (induction n arbitrary: v)
  case 0
  show ?case by simp
next
  case (Suc n)
  then show ?case
    by (simp add: mod_mult2_eq [of v 256 "256 ^ n", simplified mult.commute] mult.commute)
qed

lemma le_nat_less: "le_nat bs < 256 ^ length bs"
proof (induction bs)
  case (Cons b bs)
  have "unat b < 256"
    using unsigned_less [of b, where 'a = nat] by simp
  with Cons show ?case by simp
qed simp

lemma le_bytes_le_nat: "le_bytes (length bs) (le_nat bs) = bs"
proof (induction bs)
  case (Cons b bs)
  have "unat b < 256"
    using unsigned_less [of b, where 'a = nat] by simp
  with Cons show ?case by simp
qed simp

lemma length_putUint16 [simp]: "length (putUint16 v) = 2"
  by (simp add: putUint16_def)

lemma length_putUint64 [simp]: "length (putUint64 v) = 8"
  by (simp add: putUint64_def)

lemma uint16_le_putUint16 [codec_simps, simp]: "uint16_le (putUint16 v @ rest) = v"
proof -
  have "unat v < 256 ^ 2"
    using unsigned_less [of v, where 'a = nat] by simp
  then show ?thesis
    by (simp add: uint16_le_def putUint16_def le_nat_le_bytes)
qed

lemma uint64_le_putUint64 [codec_simps, simp]: "uint64_le (putUint64 v @ rest) = v"
proof -
  have "unat v < 256 ^ 8"
    using unsigned_less [of v, where 'a = nat] by simp
  then show ?thesis
    by (simp add: uint64_le_def putUint64_def le_nat_le_bytes)
qed

lemma uint64_le_putUint64_self [codec_simps, simp]: "uint64_le (putUint64 v) = v"
  using uint64_le_putUint64 [of v "[]"] by simp

lemma putUint64_inject [simp]: "putUint64 v = putUint64 w \<longleftrightarrow> v = w"
  by (metis uint64_le_putUint64_self)

lemma putUint64_uint64_le: "length bs = 8 \<Longrightarrow> putUint64 (uint64_le bs) = bs"
  using le_bytes_le_nat [of bs] le_nat_less [of bs]
  by (simp add: putUint64_def uint64_le_def unat_of_nat take_bit_eq_mod)

section \<open>Unsigned varints\<close>

fun putUvarint :: "nat \<Rightarrow> byte list" where
  "putUvarint x =
     (if 128 \<le> x then of_nat (128 + x mod 128) # putUvarint (x div 128) else [of_nat x])"

declare putUvarint.simps [simp del]

fun uvarint_loop :: "nat \<Rightarrow> nat \<Rightarrow> byte list \<Rightarrow> (nat \<times> nat) option" where
  "uvarint_loop i x [] = None"
| "uvarint_loop i x (b # bs) =
     (if i = 10 then None
      else if unat b < 128 then
        (if i = 9 \<and> 1 < unat b then None else Some (x + unat b * 2 ^ (7 * i), Suc i))
      else uvarint_loop (Suc i) (x + (unat b - 128) * 2 ^ (7 * i)) bs)"

text \<open>
  \<open>binary.Uvarint\<close>: the value and the number of bytes read, or \<open>None\<close> where Go returns a count
  \<open>n <= 0\<close> (input exhausted, or a value that overflows 64 bits). \<open>binary.ReadUvarint\<close> accepts the
  same prefixes and fails on the same inputs.
\<close>

definition uvarint :: "byte list \<Rightarrow> (nat \<times> nat) option" where
  "uvarint bs = uvarint_loop 0 0 bs"

lemma putUvarint_nonempty [simp]: "putUvarint x \<noteq> []"
  by (subst putUvarint.simps) simp

lemma uvarint_loop_putUvarint:
  "i \<le> 9 \<Longrightarrow> x < 2 ^ (64 - 7 * i) \<Longrightarrow>
   uvarint_loop i a (putUvarint x @ rest) = Some (a + x * 2 ^ (7 * i), i + length (putUvarint x))"
proof (induction x arbitrary: i a rule: putUvarint.induct)
  case (1 x)
  show ?case
  proof (cases "128 \<le> x")
    case False
    with "1.prems" show ?thesis
      by (subst (1 2) putUvarint.simps) (cases "i = 9"; simp)
  next
    case True
    have i: "i \<le> 8"
    proof (rule ccontr)
      assume "\<not> i \<le> 8"
      with "1.prems"(1) have "i = 9" by simp
      with "1.prems"(2) have "x < 2" by simp
      with True show False by simp
    qed
    have "64 - 7 * i = 7 + (64 - 7 * Suc i)"
      using i by simp
    with "1.prems"(2) have "x < 2 ^ (7 + (64 - 7 * Suc i))"
      by (simp only:)
    then have "x < 128 * 2 ^ (64 - 7 * Suc i)"
      by (simp only: power_add) simp
    then have "x < 2 ^ (64 - 7 * Suc i) * 128"
      by (simp only: mult.commute)
    then have "x div 128 < 2 ^ (64 - 7 * Suc i)"
      by (rule less_mult_imp_div_less)
    then have "uvarint_loop (Suc i) b (putUvarint (x div 128) @ rest) =
        Some (b + x div 128 * 2 ^ (7 * Suc i), Suc i + length (putUvarint (x div 128)))" for b
      using "1.IH" [OF True, of "Suc i" b] i by simp
    moreover have "x mod 128 * 2 ^ (7 * i) + x div 128 * 2 ^ (7 * Suc i) = x * 2 ^ (7 * i)"
    proof -
      have "(2::nat) ^ (7 * Suc i) = 128 * 2 ^ (7 * i)"
        by (simp add: power_add)
      moreover have "x mod 128 * p + x div 128 * (128 * p) = (x mod 128 + 128 * (x div 128)) * p" for p
        by (simp only: add_mult_distrib2 ac_simps)
      ultimately show ?thesis
        by (simp only: mod_mult_div_eq)
    qed
    moreover have "unat (128 + of_nat (x mod 128) :: byte) = 128 + x mod 128"
      using unat_of_nat_byte [of "128 + x mod 128"] by simp
    ultimately show ?thesis
      using True i by (subst (1 2) putUvarint.simps) (simp add: add.assoc)
  qed
qed

lemma uvarint_putUvarint [codec_simps, simp]:
  "x < 2 ^ 64 \<Longrightarrow> uvarint (putUvarint x @ rest) = Some (x, length (putUvarint x))"
  using uvarint_loop_putUvarint [of 0 x 0 rest] by (simp add: uvarint_def)

lemma uvarint_loop_Some:
  "uvarint_loop i x bs = Some (v, n) \<Longrightarrow> i \<le> 10 \<Longrightarrow> x < 2 ^ (7 * i) \<Longrightarrow>
   i < n \<and> n \<le> i + length bs \<and> n \<le> 10 \<and> v < 2 ^ 64"
proof (induction i x bs rule: uvarint_loop.induct)
  case (2 i x b bs)
  have b: "unat b < 256"
    using unsigned_less [of b, where 'a = nat] by simp
  show ?case
  proof (cases "unat b < 128")
    case True
    with "2.prems" have i: "i \<le> 9" and v: "v = x + unat b * 2 ^ (7 * i)" and n: "n = Suc i"
      and le: "i = 9 \<longrightarrow> unat b \<le> 1"
      by (auto split: if_splits)
    have "v < 2 ^ 64"
    proof (cases "i = 9")
      case True
      with le v "2.prems"(3) show ?thesis by (cases "unat b") auto
    next
      case False
      have "Suc (unat b) * 2 ^ (7 * i) \<le> 128 * (2::nat) ^ (7 * i)"
        using True by (intro mult_le_mono1) simp
      also have "\<dots> = 2 ^ (7 + 7 * i)"
        by (simp add: power_add)
      also have "\<dots> \<le> 2 ^ 63"
        using False i by (intro power_increasing) auto
      finally show ?thesis
        using v "2.prems"(3) by simp
    qed
    with i n show ?thesis by simp
  next
    case False
    with "2.prems" have ne: "i \<noteq> 10"
      and rec: "uvarint_loop (Suc i) (x + (unat b - 128) * 2 ^ (7 * i)) bs = Some (v, n)"
      by (auto split: if_splits)
    have "Suc (unat b - 128) * 2 ^ (7 * i) \<le> 128 * 2 ^ (7 * i)"
      using b by (intro mult_le_mono1) simp
    moreover have "Suc (unat b - 128) * 2 ^ (7 * i) = 2 ^ (7 * i) + (unat b - 128) * 2 ^ (7 * i)"
      by simp
    moreover have "(2::nat) ^ (7 * Suc i) = 128 * 2 ^ (7 * i)"
      by (simp add: power_add)
    ultimately have "x + (unat b - 128) * 2 ^ (7 * i) < 2 ^ (7 * Suc i)"
      using "2.prems"(3) by linarith
    then show ?thesis
      using "2.IH" [OF ne False rec] ne "2.prems"(2) by auto
  qed
qed simp

lemma uvarint_bounds:
  assumes "uvarint bs = Some (v, n)"
  shows "0 < n" "n \<le> length bs" "n \<le> 10" "v < 2 ^ 64"
  using uvarint_loop_Some [of 0 0 bs v n] assms by (simp_all add: uvarint_def)

text \<open>What a length that was read at an offset, and checked against the rest, says about the range it covers.\<close>

lemma uvarint_fits:
  assumes "uvarint (drop offset data) = Some (len, n)"
  shows "offset + n \<le> length data" "\<not> length data - (offset + n) < len \<Longrightarrow> offset + n + len \<le> length data"
  using uvarint_bounds(1,2) [OF assms] by auto

lemma uvarint_Nil [simp]: "uvarint [] = None"
  by (simp add: uvarint_def)

lemma length_putUvarint_le: "x < 2 ^ 64 \<Longrightarrow> length (putUvarint x) \<le> 10"
  using uvarint_bounds(3) [OF uvarint_putUvarint [of x "[]"]] by simp

section \<open>Slices\<close>

text \<open>
  \<open>make([]T, n)\<close> panics when \<open>n\<close> is negative or the slice would exceed the address space
  (48 bits of it on the 64-bit targets). A machine that runs out of memory below that bound is
  not modelled.
\<close>

definition max_alloc :: int where
  "max_alloc = 2 ^ 48"

definition make_slice :: "int \<Rightarrow> int \<Rightarrow> ('e, unit) outcome" where
  "make_slice elem_size n =
     (if n < 0 \<or> max_alloc < elem_size * n then Panic MakeSliceOutOfRange else Ok ())"

lemma make_slice_Ok [simp]:
  "0 \<le> n \<Longrightarrow> elem_size * n \<le> max_alloc \<Longrightarrow> make_slice elem_size n = Ok ()"
  by (simp add: make_slice_def)

text \<open>\<open>int(x)\<close> of an unsigned 64-bit value, and the wrap-around of \<open>int\<close> arithmetic.\<close>

definition int_of_uint64 :: "64 word \<Rightarrow> int" where
  "int_of_uint64 w = sint w"

definition wrap_int :: "int \<Rightarrow> int" where
  "wrap_int n = signed_take_bit 63 n"

lemma int_of_uint64_of_nat: "n < 2 ^ 63 \<Longrightarrow> int_of_uint64 (of_nat n) = int n"
  by (simp add: int_of_uint64_def signed_of_nat signed_take_bit_int_eq_self)

lemma wrap_int_id: "- (2 ^ 63) \<le> n \<Longrightarrow> n < 2 ^ 63 \<Longrightarrow> wrap_int n = n"
  by (simp add: wrap_int_def signed_take_bit_int_eq_self)

end
