(* ===== verification/Float64.thy ===== *)
theory Float64
  imports Wire
begin

text \<open>
  Go's \<open>float64\<close>: an IEEE-754 binary64 value is its 64 bits (\<open>math.Float64bits\<close> and
  \<open>math.Float64frombits\<close> are the selector and the constructor). Every finite double is an integer
  multiple of \<open>2 ^ -1074\<close>, so values, comparisons and correctly rounded arithmetic are exact
  integer computations in that unit. The payload of a NaN that an operation produces is fixed to
  the one of \<open>math.NaN\<close>; the code never looks at it.
\<close>

section \<open>Fields and values\<close>

datatype float64 = F64 (float64bits: "64 word")

definition f_negative :: "float64 \<Rightarrow> bool" where
  "f_negative x \<longleftrightarrow> 2 ^ 63 \<le> unat (float64bits x)"

definition f_exponent :: "float64 \<Rightarrow> nat" where
  "f_exponent x = unat (float64bits x) div 2 ^ 52 mod 2048"

definition f_fraction :: "float64 \<Rightarrow> nat" where
  "f_fraction x = unat (float64bits x) mod 2 ^ 52"

definition f_is_nan :: "float64 \<Rightarrow> bool" where
  "f_is_nan x \<longleftrightarrow> f_exponent x = 2047 \<and> f_fraction x \<noteq> 0"

definition f_is_inf :: "float64 \<Rightarrow> bool" where
  "f_is_inf x \<longleftrightarrow> f_exponent x = 2047 \<and> f_fraction x = 0"

definition f_finite :: "float64 \<Rightarrow> bool" where
  "f_finite x \<longleftrightarrow> f_exponent x \<noteq> 2047"

text \<open>
  Magnitude and value in units of \<open>2 ^ -1074\<close>: the significand times a power of two. An infinity
  sits above every finite double.
\<close>

definition f_mant :: "float64 \<Rightarrow> nat" where
  "f_mant x = (if f_exponent x = 0 then f_fraction x else 2 ^ 52 + f_fraction x)"

definition f_shift :: "float64 \<Rightarrow> nat" where
  "f_shift x = f_exponent x - 1"

definition f_mag :: "float64 \<Rightarrow> nat" where
  "f_mag x = f_mant x * 2 ^ f_shift x"

definition f_val :: "float64 \<Rightarrow> int" where
  "f_val x = (if f_negative x then - int (f_mag x) else int (f_mag x))"

section \<open>Comparison operators\<close>

text \<open>Every ordered comparison with a NaN is false; the two zeros are equal.\<close>

definition f_eq :: "float64 \<Rightarrow> float64 \<Rightarrow> bool" where
  "f_eq x y \<longleftrightarrow> \<not> f_is_nan x \<and> \<not> f_is_nan y \<and> f_val x = f_val y"

definition f_less :: "float64 \<Rightarrow> float64 \<Rightarrow> bool" where
  "f_less x y \<longleftrightarrow> \<not> f_is_nan x \<and> \<not> f_is_nan y \<and> f_val x < f_val y"

definition f_le :: "float64 \<Rightarrow> float64 \<Rightarrow> bool" where
  "f_le x y \<longleftrightarrow> \<not> f_is_nan x \<and> \<not> f_is_nan y \<and> f_val x \<le> f_val y"

lemmas f_cmp_defs = f_eq_def f_less_def f_le_def

lemma f_eq_refl [simp]: "f_eq x x \<longleftrightarrow> \<not> f_is_nan x"
  by (simp add: f_eq_def)

lemma f_eq_sym: "f_eq x y \<Longrightarrow> f_eq y x"
  by (simp add: f_eq_def)

lemma f_eq_trans: "f_eq x y \<Longrightarrow> f_eq y z \<Longrightarrow> f_eq x z"
  by (simp add: f_eq_def)

lemma f_le_less_or_eq: "f_le x y \<longleftrightarrow> f_less x y \<or> f_eq x y"
  by (auto simp: f_cmp_defs)

section \<open>Rounding to nearest, ties to even\<close>

fun bit_length :: "nat \<Rightarrow> nat" where
  "bit_length n = (if n = 0 then 0 else Suc (bit_length (n div 2)))"

declare bit_length.simps [simp del]

text \<open>The integer nearest to \<open>num / den\<close>.\<close>

definition round_even :: "nat \<Rightarrow> nat \<Rightarrow> nat" where
  "round_even num den =
     (let q = num div den; r = num mod den
      in if den < 2 * r \<or> (2 * r = den \<and> odd q) then Suc q else q)"

definition inf_bits :: nat where
  "inf_bits = 2047 * 2 ^ 52"

text \<open>
  The low 63 bits of the double nearest to \<open>num / den * 2 ^ e\<close> units, for \<open>den \<le> num\<close>, or
  \<open>num = 0\<close>, or \<open>e \<le> 0\<close>. The significand keeps 53 bits above the unit; a carry out of it bumps the exponent
  by itself.
\<close>

definition round_scaled :: "nat \<Rightarrow> nat \<Rightarrow> int \<Rightarrow> nat" where
  "round_scaled num den e =
     (if num = 0 then 0 else
      let s = max 0 (int (bit_length (num div den)) + e - 53)
      in min (nat s * 2 ^ 52 +
                (if s \<le> e then round_even (num * 2 ^ nat (e - s)) den
                 else round_even num (den * 2 ^ nat (s - e)))) inf_bits)"

definition f_pack :: "bool \<Rightarrow> nat \<Rightarrow> float64" where
  "f_pack neg b = F64 (of_nat (if neg then 2 ^ 63 + b else b))"

definition f_nan :: float64 where
  "f_nan = F64 0x7FF8000000000001"

definition f_zero :: float64 where
  "f_zero = F64 0"

definition f_unit :: nat where
  "f_unit = 2 ^ 1074"

section \<open>Arithmetic\<close>

definition f_signed_mant :: "float64 \<Rightarrow> int" where
  "f_signed_mant x = (if f_negative x then - int (f_mant x) else int (f_mant x))"

text \<open>Addition aligns the two significands at the smaller exponent and rounds the exact sum.\<close>

definition f_add :: "float64 \<Rightarrow> float64 \<Rightarrow> float64" where
  "f_add x y =
     (if f_is_nan x \<or> f_is_nan y \<or> (f_is_inf x \<and> f_is_inf y \<and> f_negative x \<noteq> f_negative y) then f_nan
      else if f_is_inf x then x
      else if f_is_inf y then y
      else
        let e = min (f_shift x) (f_shift y);
            v = f_signed_mant x * 2 ^ (f_shift x - e) + f_signed_mant y * 2 ^ (f_shift y - e)
        in if v = 0 then f_pack (f_negative x \<and> f_negative y) 0
           else f_pack (v < 0) (round_scaled (nat \<bar>v\<bar>) 1 (int e)))"

definition f_mul :: "float64 \<Rightarrow> float64 \<Rightarrow> float64" where
  "f_mul x y =
     (let neg = (f_negative x \<noteq> f_negative y)
      in if f_is_nan x \<or> f_is_nan y \<or> (f_is_inf x \<and> f_mant y = 0) \<or> (f_mant x = 0 \<and> f_is_inf y) then f_nan
         else if f_is_inf x \<or> f_is_inf y then f_pack neg inf_bits
         else f_pack neg (round_scaled (f_mant x * f_mant y) 1 (int (f_shift x + f_shift y) - 1074)))"

definition f_div :: "float64 \<Rightarrow> float64 \<Rightarrow> float64" where
  "f_div x y =
     (let neg = (f_negative x \<noteq> f_negative y)
      in if f_is_nan x \<or> f_is_nan y \<or> (f_is_inf x \<and> f_is_inf y) \<or> (f_mant x = 0 \<and> f_mant y = 0) then f_nan
         else if f_is_inf x \<or> f_mant y = 0 then f_pack neg inf_bits
         else if f_is_inf y then f_pack neg 0
         else f_pack neg (round_scaled (f_mant x * 2 ^ 53) (f_mant y)
                (int (f_shift x) - int (f_shift y) + 1074 - 53)))"

definition f_neg :: "float64 \<Rightarrow> float64" where
  "f_neg x = F64 (float64bits x XOR 0x8000000000000000)"

definition f_of_nat :: "nat \<Rightarrow> float64" where
  "f_of_nat n = f_pack False (round_scaled n 1 1074)"

text \<open>The integer part of the magnitude, and whether a fraction is cut off.\<close>

definition f_trunc :: "float64 \<Rightarrow> nat" where
  "f_trunc x =
     (if 1074 \<le> f_shift x then f_mant x * 2 ^ (f_shift x - 1074)
      else f_mant x div 2 ^ (1074 - f_shift x))"

definition f_frac_part :: "float64 \<Rightarrow> nat" where
  "f_frac_part x = (if 1074 \<le> f_shift x then 0 else f_mant x mod 2 ^ (1074 - f_shift x))"

text \<open>\<open>math.Ceil\<close> and \<open>math.Round\<close> (half away from zero); NaN and infinities are returned as is.\<close>

definition f_ceil :: "float64 \<Rightarrow> float64" where
  "f_ceil x =
     (if \<not> f_finite x then x
      else if f_negative x then f_pack True (round_scaled (f_trunc x) 1 1074)
      else f_of_nat (if f_frac_part x = 0 then f_trunc x else Suc (f_trunc x)))"

definition f_round :: "float64 \<Rightarrow> float64" where
  "f_round x =
     (if \<not> f_finite x then x
      else
        let t = f_trunc x;
            up = (f_shift x < 1074 \<and> 2 ^ (1074 - f_shift x) \<le> 2 * f_frac_part x)
        in f_pack (f_negative x) (round_scaled (if up then Suc t else t) 1 1074))"

text \<open>
  The conversion \<open>uint64(x)\<close> truncates; the Go specification leaves its result to the
  implementation when the truncated value is not representable, hence \<open>None\<close>.
\<close>

definition uint64_of_float :: "float64 \<Rightarrow> 64 word option" where
  "uint64_of_float x =
     (if f_is_nan x \<or> f_is_inf x \<or> (f_negative x \<and> 0 < f_trunc x) \<or> 2 ^ 64 \<le> f_trunc x then None
      else Some (of_nat (f_trunc x)))"

section \<open>Facts about the encoding\<close>

lemma round_even_exact: "0 < b \<Longrightarrow> round_even (a * b) b = a"
  by (simp add: round_even_def)

lemma round_even_le: "round_even num den \<le> Suc (num div den)"
  by (simp add: round_even_def Let_def)

lemma f_fraction_less: "f_fraction x < 2 ^ 52"
  by (simp add: f_fraction_def)

lemma f_exponent_less: "f_exponent x < 2048"
  by (simp add: f_exponent_def)

lemma float64_eq_iff: "x = y \<longleftrightarrow> float64bits x = float64bits y"
  by (cases x; cases y) simp

lemma f_nan_is_nan [simp]: "f_is_nan f_nan"
  by (simp add: f_nan_def f_is_nan_def f_exponent_def f_fraction_def)

lemma bit_length_bounds: "0 < n \<Longrightarrow> 2 ^ (bit_length n - 1) \<le> n \<and> n < 2 ^ bit_length n"
proof (induction n rule: bit_length.induct)
  case (1 n)
  show ?case
  proof (cases "n div 2 = 0")
    case True
    with "1.prems" have "n = 1" by simp
    then show ?thesis by (simp add: bit_length.simps)
  next
    case False
    with "1" have ih: "2 ^ (bit_length (n div 2) - 1) \<le> n div 2" "n div 2 < 2 ^ bit_length (n div 2)"
      by auto
    from False have pos: "0 < bit_length (n div 2)"
      by (subst bit_length.simps) simp
    have l: "bit_length n = Suc (bit_length (n div 2))"
      using "1.prems" by (subst bit_length.simps) simp
    have "(2::nat) ^ bit_length (n div 2) = 2 * 2 ^ (bit_length (n div 2) - 1)"
      using pos by (cases "bit_length (n div 2)") simp_all
    with ih l show ?thesis by simp linarith
  qed
qed

lemma bit_length_le: "n < 2 ^ k \<Longrightarrow> bit_length n \<le> k"
proof (rule ccontr)
  assume n: "n < 2 ^ k" and "\<not> bit_length n \<le> k"
  then have k: "k \<le> bit_length n - 1" by simp
  show False
  proof (cases "n = 0")
    case True
    with \<open>\<not> bit_length n \<le> k\<close> show False by (simp add: bit_length.simps)
  next
    case False
    then have "2 ^ (bit_length n - 1) \<le> n"
      using bit_length_bounds [of n] by simp
    moreover have "(2::nat) ^ k \<le> 2 ^ (bit_length n - 1)"
      using k by (rule power_increasing) simp
    ultimately show False using n by linarith
  qed
qed

lemma bit_length_eqI: "2 ^ k \<le> n \<Longrightarrow> n < 2 ^ Suc k \<Longrightarrow> bit_length n = Suc k"
proof -
  assume n: "2 ^ k \<le> n" "n < 2 ^ Suc k"
  then have "bit_length n \<le> Suc k" by (intro bit_length_le)
  moreover have "\<not> bit_length n \<le> k"
  proof
    assume "bit_length n \<le> k"
    then have "(2::nat) ^ bit_length n \<le> 2 ^ k" by (rule power_increasing) simp
    moreover have "0 < n" using n(1) by (rule less_le_trans [rotated]) simp
    then have "n < 2 ^ bit_length n"
      using bit_length_bounds [of n] by blast
    ultimately show False using n(1) by linarith
  qed
  ultimately show ?thesis by simp
qed

lemma bit_length_chunk: "2 ^ k \<le> n \<Longrightarrow> bit_length n = k + bit_length (n div 2 ^ k)"
proof (induction k arbitrary: n)
  case (Suc k)
  then have "2 ^ k \<le> n div 2" by simp
  with Suc.IH [of "n div 2"] have "bit_length (n div 2) = k + bit_length (n div 2 div 2 ^ k)" by simp
  moreover have "n div 2 div 2 ^ k = n div 2 ^ Suc k" by (simp add: div_mult2_eq)
  moreover have "n \<noteq> 0" using Suc.prems by (intro notI) simp
  ultimately show ?case by (subst bit_length.simps) simp
qed simp

text \<open>An equation that evaluates \<open>bit_length\<close> on large numerals in few steps.\<close>

lemma bit_length_eval:
  "bit_length n =
    (if 4294967296 \<le> n then 32 + bit_length (n div 4294967296)
     else if n = 0 then 0 else Suc (bit_length (n div 2)))"
  using bit_length_chunk [of 32 n] bit_length.simps [of n] by simp

lemmas float_eval =
  f_mant_def f_shift_def f_exponent_def f_fraction_def f_negative_def f_is_nan_def f_is_inf_def
  f_finite_def round_scaled_def round_even_def bit_length_eval f_pack_def inf_bits_def Let_def
  f_trunc_def f_frac_part_def

text \<open>A double is its own rounding: arithmetic whose exact result is representable is exact.\<close>

lemma f_mant_less: "f_mant x < 2 ^ 53"
  using f_fraction_less [of x] by (simp add: f_mant_def)

lemma round_scaled_self:
  assumes "f_finite x"
  shows "round_scaled (f_mant x) 1 (int (f_shift x)) = unat (float64bits x) mod 2 ^ 63"
proof -
  let ?e = "f_exponent x" and ?f = "f_fraction x"
  have n: "unat (float64bits x) mod 2 ^ 63 = ?e * 2 ^ 52 + ?f"
    using mod_mult2_eq [of "unat (float64bits x)" "2 ^ 52" 2048]
    by (simp add: f_exponent_def f_fraction_def)
  have f: "?f < 2 ^ 52" by (rule f_fraction_less)
  have e: "?e \<le> 2046"
    using assms f_exponent_less [of x] by (simp add: f_finite_def)
  have "?e * 2 ^ 52 \<le> 2046 * 2 ^ 52"
    using e by (rule mult_le_mono1)
  then have max: "?e * 2 ^ 52 + ?f \<le> inf_bits"
    using f by (simp add: inf_bits_def)
  show ?thesis
  proof (cases "?e = 0")
    case True
    have "bit_length ?f \<le> 53"
      using f by (intro bit_length_le) simp
    with True f n show ?thesis
      by (simp add: round_scaled_def round_even_def inf_bits_def f_mant_def f_shift_def)
  next
    case False
    have "bit_length (2 ^ 52 + ?f) = Suc 52"
      using f by (intro bit_length_eqI) simp_all
    then have "round_scaled (f_mant x) 1 (int (f_shift x)) = min ((?e - 1) * 2 ^ 52 + (2 ^ 52 + ?f)) inf_bits"
      using False by (simp add: round_scaled_def round_even_def f_mant_def f_shift_def Let_def)
    moreover have "(?e - 1) * 2 ^ 52 + (2 ^ 52 + ?f) = ?e * 2 ^ 52 + ?f"
      using False by (cases ?e) simp_all
    ultimately show ?thesis
      unfolding n using max by simp
  qed
qed

lemma f_pack_self:
  "F64 (of_nat (if f_negative x then 2 ^ 63 + unat (float64bits x) mod 2 ^ 63
                else unat (float64bits x) mod 2 ^ 63)) = x"
proof -
  let ?n = "unat (float64bits x)"
  have lt: "?n < 2 ^ 64"
    using unsigned_less [of "float64bits x", where 'a = nat] by simp
  have "(if f_negative x then 2 ^ 63 + ?n mod 2 ^ 63 else ?n mod 2 ^ 63) = ?n"
  proof (cases "f_negative x")
    case True
    then have ge: "2 ^ 63 \<le> ?n" by (simp add: f_negative_def)
    then have "?n mod 2 ^ 63 = (?n - 2 ^ 63) mod 2 ^ 63" by (rule le_mod_geq)
    also have "\<dots> = ?n - 2 ^ 63" using lt ge by simp
    finally show ?thesis using True ge by simp
  next
    case False
    then show ?thesis by (simp add: f_negative_def)
  qed
  then show ?thesis by (cases x) simp
qed

lemma f_zero_props [simp]:
  "f_val f_zero = 0" "f_mant f_zero = 0" "\<not> f_is_nan f_zero" "\<not> f_is_inf f_zero" "\<not> f_negative f_zero"
  "f_shift f_zero = 0"
  by (simp_all add: f_zero_def f_val_def f_mag_def float_eval)

lemma bit_length_shift: "0 < m \<Longrightarrow> bit_length (m * 2 ^ k) = bit_length m + k"
proof (induction k)
  case (Suc k)
  then have "0 < m * 2 ^ Suc k" by simp
  then have "bit_length (m * 2 ^ Suc k) = Suc (bit_length (m * 2 ^ Suc k div 2))"
    by (subst bit_length.simps) simp
  with Suc show ?case by simp
qed simp

text \<open>Rounding depends on the value only, not on how it is split into significand and exponent.\<close>

lemma round_scaled_shift:
  assumes "0 < m"
  shows "round_scaled (m * 2 ^ k) 1 e = round_scaled m 1 (e + int k)"
proof -
  define s where "s = max 0 (int (bit_length m) + (e + int k) - 53)"
  have q: "(if s \<le> e then round_even (m * 2 ^ k * 2 ^ nat (e - s)) 1
         else round_even (m * 2 ^ k) (1 * 2 ^ nat (s - e))) =
        (if s \<le> e + int k then round_even (m * 2 ^ nat (e + int k - s)) 1
         else round_even m (1 * 2 ^ nat (s - (e + int k))))"
  proof (cases "s \<le> e")
    case True
    then have "nat (e + int k - s) = k + nat (e - s)" by arith
    with True show ?thesis by (simp add: power_add mult.assoc)
  next
    case False
    show ?thesis
    proof (cases "s \<le> e + int k")
      case True
      define d where "d = nat (e + int k - s)"
      have k: "k = d + nat (s - e)" using True False unfolding d_def by arith
      have "m * 2 ^ k = (m * 2 ^ d) * 2 ^ nat (s - e)"
        by (simp only: k power_add mult.assoc)
      then have "round_even (m * 2 ^ k) (1 * 2 ^ nat (s - e)) = m * 2 ^ d"
        by (simp only: mult_1) (rule round_even_exact, simp)
      with True False show ?thesis by (simp add: round_even_def d_def)
    next
      case big: False
      define d where "d = nat (s - (e + int k))"
      have d: "nat (s - e) = k + d" using big unfolding d_def by arith
      have "(m * 2 ^ k) div (2 ^ k * 2 ^ d) = m div 2 ^ d"
        by (simp add: div_mult2_eq)
      moreover have "(m * 2 ^ k) mod (2 ^ k * 2 ^ d) = 2 ^ k * (m mod 2 ^ d)"
        by (metis mult.commute mult_mod_right)
      ultimately have "round_even (m * 2 ^ k) (2 ^ k * 2 ^ d) = round_even m (2 ^ d)"
        by (simp add: round_even_def Let_def ac_simps)
      with False big show ?thesis by (simp add: d power_add flip: d_def)
    qed
  qed
  have "max 0 (int (bit_length (m * 2 ^ k)) + e - 53) = s"
    using bit_length_shift [OF assms, of k] by (simp add: s_def)
  moreover have "m * 2 ^ k \<noteq> 0" "m \<noteq> 0" using assms by simp_all
  ultimately show ?thesis
    unfolding round_scaled_def Let_def div_by_1 s_def [symmetric] by (simp only: q if_False)
qed

lemma f_add_zero_left: "f_finite x \<Longrightarrow> f_mant x \<noteq> 0 \<Longrightarrow> f_add f_zero x = x"
proof -
  assume fin: "f_finite x" and nz: "f_mant x \<noteq> 0"
  have "round_scaled (f_mant x * 2 ^ f_shift x) 1 0 = unat (float64bits x) mod 2 ^ 63"
    using round_scaled_shift [of "f_mant x" "f_shift x" 0] nz round_scaled_self [OF fin] by simp
  moreover have "nat \<bar>f_signed_mant x * 2 ^ f_shift x\<bar> = f_mant x * 2 ^ f_shift x"
    by (simp add: f_signed_mant_def abs_mult nat_mult_distrib nat_power_eq)
  moreover have "f_signed_mant x * 2 ^ f_shift x < 0 \<longleftrightarrow> f_negative x"
    using nz by (auto simp: f_signed_mant_def mult_less_0_iff)
  ultimately have "f_add f_zero x = f_pack (f_negative x) (unat (float64bits x) mod 2 ^ 63)"
    using fin nz by (simp add: f_add_def f_is_nan_def [of x] f_is_inf_def [of x] f_finite_def
        f_signed_mant_def [of f_zero] Let_def) (simp add: f_signed_mant_def)
  then show ?thesis
    using f_pack_self [of x] by (simp only: f_pack_def)
qed

section \<open>Ranges of rounded results\<close>

lemma f_pack_fields:
  assumes "b < 2 ^ 63"
  shows "f_negative (f_pack s b) \<longleftrightarrow> s" "f_exponent (f_pack s b) = b div 2 ^ 52"
    "f_fraction (f_pack s b) = b mod 2 ^ 52"
proof -
  have u: "unat (float64bits (f_pack s b)) = (if s then 2 ^ 63 + b else b)"
    using assms by (simp add: f_pack_def unat_of_nat take_bit_eq_mod)
  show "f_negative (f_pack s b) \<longleftrightarrow> s"
    using assms by (simp add: f_negative_def u)
  have e: "b div 2 ^ 52 < 2048"
    using assms by (simp add: less_mult_imp_div_less)
  have h: "(2 ^ 63 + b) div 2 ^ 52 = 2048 + b div 2 ^ 52"
    using div_mult_self4 [of "2 ^ 52" 2048 b] by simp
  show "f_exponent (f_pack s b) = b div 2 ^ 52"
    using e h by (simp add: f_exponent_def u)
  have "(2 ^ 63 + b) mod 2 ^ 52 = b mod 2 ^ 52"
    using mod_mult_self4 [of "2 ^ 52" 2048 b] by simp
  then show "f_fraction (f_pack s b) = b mod 2 ^ 52"
    by (simp add: f_fraction_def u)
qed

lemma inf_bits_less: "b \<le> inf_bits \<Longrightarrow> b < 2 ^ 63"
  by (simp add: inf_bits_def)

lemma round_scaled_le: "round_scaled num den e \<le> inf_bits"
  by (simp add: round_scaled_def Let_def)

lemma f_pack_not_nan: "b \<le> inf_bits \<Longrightarrow> \<not> f_is_nan (f_pack s b)"
proof
  assume b: "b \<le> inf_bits" and nan: "f_is_nan (f_pack s b)"
  have "b div 2 ^ 52 = 2047 \<and> b mod 2 ^ 52 \<noteq> 0"
    using nan unfolding f_is_nan_def f_pack_fields [OF inf_bits_less [OF b]] .
  then have "inf_bits < b"
    using div_mult_mod_eq [of b "2 ^ 52"] by (simp add: inf_bits_def)
  with b show False by simp
qed

lemma f_pack_finite: "b < inf_bits \<Longrightarrow> f_finite (f_pack s b)"
proof -
  assume b: "b < inf_bits"
  then have "b div 2 ^ 52 < 2047"
    by (simp add: inf_bits_def less_mult_imp_div_less)
  then show ?thesis
    using b by (simp add: f_finite_def f_pack_fields inf_bits_less)
qed

lemma f_pack_mant_zero: "b < 2 ^ 63 \<Longrightarrow> f_mant (f_pack s b) = 0 \<longleftrightarrow> b = 0"
  using div_mult_mod_eq [of b "2 ^ 52"] by (auto simp: f_mant_def f_pack_fields)

lemma f_mul_not_nan: "f_finite x \<Longrightarrow> f_mant x \<noteq> 0 \<Longrightarrow> \<not> f_is_nan y \<Longrightarrow> \<not> f_is_nan (f_mul x y)"
  by (auto simp: f_mul_def Let_def f_finite_def f_is_nan_def [of x] f_is_inf_def [of x]
      intro!: f_pack_not_nan round_scaled_le)

lemma f_mul_comm: "f_mul x y = f_mul y x"
  by (cases "f_negative x"; cases "f_negative y") (auto simp: f_mul_def Let_def mult.commute add.commute)

lemma f_div_not_nan: "\<not> f_is_nan x \<Longrightarrow> f_finite y \<Longrightarrow> f_mant y \<noteq> 0 \<Longrightarrow> \<not> f_is_nan (f_div x y)"
  by (auto simp: f_div_def Let_def f_finite_def f_is_nan_def [of y] f_is_inf_def [of y]
      intro!: f_pack_not_nan round_scaled_le)

lemma f_neg_fields [simp]:
  "f_exponent (f_neg x) = f_exponent x" "f_fraction (f_neg x) = f_fraction x"
proof -
  let ?w = "float64bits x"
  have "take_bit 63 (?w XOR 0x8000000000000000) = take_bit 63 ?w"
    by (simp add: take_bit_xor)
  moreover have "unat (take_bit 63 w) = unat w mod 2 ^ 63" for w :: "64 word"
    by (subst unsigned_take_bit_eq) (rule take_bit_eq_mod)
  ultimately have m: "unat (?w XOR 0x8000000000000000) mod 2 ^ 63 = unat ?w mod 2 ^ 63"
    by metis
  have e: "n div 2 ^ 52 mod 2048 = n mod 2 ^ 63 div 2 ^ 52" for n :: nat
    using div_exp_mod_exp_eq [of n 52 11] by simp
  have f: "n mod 2 ^ 52 = n mod 2 ^ 63 mod 2 ^ 52" for n :: nat
    by (simp add: mod_mod_cancel)
  show "f_exponent (f_neg x) = f_exponent x"
    unfolding f_exponent_def f_neg_def float64.sel e m by (rule refl)
  show "f_fraction (f_neg x) = f_fraction x"
    unfolding f_fraction_def f_neg_def float64.sel f [of "unat _"] m by (rule refl)
qed

lemma f_neg_simps [simp]:
  "f_mant (f_neg x) = f_mant x" "f_finite (f_neg x) = f_finite x" "f_is_nan (f_neg x) = f_is_nan x"
  by (simp_all add: f_mant_def f_finite_def f_is_nan_def)

text \<open>A value below \<open>2 ^ (s + 53)\<close> units is encoded below exponent \<open>s + 2\<close>.\<close>

lemma round_scaled_upper:
  assumes "int (bit_length num) + e \<le> int k + 53"
  shows "round_scaled num 1 e \<le> (k + 2) * 2 ^ 52"
proof -
  define s where "s = max 0 (int (bit_length num) + e - 53)"
  have s: "0 \<le> s" "s \<le> int k" "int (bit_length num) + e \<le> s + 53"
    using assms by (auto simp: s_def)
  have num: "num < 2 ^ bit_length num"
    using bit_length_bounds [of num] by (cases "num = 0") (simp_all add: bit_length.simps)
  have q: "(if s \<le> e then round_even (num * 2 ^ nat (e - s)) 1
            else round_even num (1 * 2 ^ nat (s - e))) \<le> 2 ^ 53"
  proof (cases "s \<le> e")
    case True
    have "num * 2 ^ nat (e - s) \<le> 2 ^ bit_length num * 2 ^ nat (e - s)"
      using num by (intro mult_le_mono1) simp
    also have "\<dots> = 2 ^ (bit_length num + nat (e - s))" by (simp only: power_add)
    also have "\<dots> \<le> 2 ^ 53" using True s by (intro power_increasing) auto
    finally show ?thesis using True by (simp add: round_even_def)
  next
    case False
    define d where "d = nat (s - e)"
    have "num < 2 ^ (53 + d)"
      by (rule less_le_trans [OF num], rule power_increasing) (use False s d_def in auto)
    then have "num < 2 ^ 53 * 2 ^ d" by (simp only: power_add)
    then have "num div 2 ^ d < 2 ^ 53" by (rule less_mult_imp_div_less)
    with round_even_le [of num "2 ^ d"] False show ?thesis by (simp add: d_def)
  qed
  have "nat s * 2 ^ 52 \<le> k * 2 ^ 52"
    using s by (intro mult_le_mono1) simp
  with q have "nat s * 2 ^ 52 + (if s \<le> e then round_even (num * 2 ^ nat (e - s)) 1
      else round_even num (1 * 2 ^ nat (s - e))) \<le> (k + 2) * 2 ^ 52"
    by simp
  then show ?thesis
    unfolding round_scaled_def Let_def div_by_1 s_def [symmetric] by (auto intro: min.coboundedI1)
qed

lemma round_scaled_pos:
  assumes "0 < num" "53 \<le> e"
  shows "0 < round_scaled num 1 e"
proof -
  have pos: "1 \<le> s \<Longrightarrow> 0 < min (nat s * 2 ^ 52 + q) inf_bits" for s q
    by (simp add: inf_bits_def)
  have "0 < bit_length num"
    using assms(1) by (subst bit_length.simps) simp
  with assms(2) have "1 \<le> max 0 (int (bit_length num) + e - 53)" by arith
  then show ?thesis
    unfolding round_scaled_def Let_def div_by_1 if_not_P [OF assms(1) [THEN less_imp_neq, symmetric]]
    by (rule pos)
qed

lemma f_of_nat_finite:
  assumes "n \<le> 2 ^ 64"
  shows "f_finite (f_of_nat n)"
proof -
  have "bit_length n \<le> 65" using assms by (intro bit_length_le) simp
  then have "round_scaled n 1 1074 \<le> (1086 + 2) * 2 ^ 52"
    by (intro round_scaled_upper) simp
  then show ?thesis
    unfolding f_of_nat_def by (intro f_pack_finite) (simp add: inf_bits_def)
qed

lemma f_of_nat_nonzero: "0 < n \<Longrightarrow> f_mant (f_of_nat n) \<noteq> 0"
  using round_scaled_pos [of n 1074] f_pack_mant_zero [OF inf_bits_less [OF round_scaled_le]]
  by (simp add: f_of_nat_def)

lemma f_mag_pack_upper:
  assumes "b \<le> (e + 1) * 2 ^ 52" "(e + 1) * 2 ^ 52 \<le> inf_bits"
  shows "f_mag (f_pack s b) \<le> 2 ^ (52 + e)"
proof -
  have b: "b < 2 ^ 63"
    using assms by (intro inf_bits_less) simp
  let ?q = "b div 2 ^ 52" and ?r = "b mod 2 ^ 52"
  have r: "?r < 2 ^ 52" by simp
  have q: "?q \<le> e + 1"
    using div_le_mono [OF assms(1), of "2 ^ 52"] by simp
  have split: "b = ?q * 2 ^ 52 + ?r" by (simp only: div_mult_mod_eq)
  have mag: "f_mag (f_pack s b) = (if ?q = 0 then ?r else 2 ^ 52 + ?r) * 2 ^ (?q - 1)"
    by (simp only: f_mag_def f_mant_def f_shift_def f_pack_fields [OF b])
  consider (zero) "?q = 0" | (top) "?q = e + 1" | (mid) "0 < ?q" "?q \<le> e"
    using q by linarith
  then show ?thesis
  proof cases
    case zero
    have "(2::nat) ^ 52 \<le> 2 ^ (52 + e)" by (rule power_increasing) simp_all
    with zero r show ?thesis by (simp only: mag) simp
  next
    case top
    have "b = (e + 1) * 2 ^ 52 + ?r" using split unfolding top .
    with assms(1) have "?r = 0" by linarith
    with top show ?thesis by (simp only: mag) (simp add: power_add)
  next
    case mid
    have "(2 ^ 52 + ?r) * 2 ^ (?q - 1) \<le> 2 ^ 53 * 2 ^ (?q - 1)"
      using r by (intro mult_le_mono1) simp
    also have "\<dots> = 2 ^ (53 + (?q - 1))" by (simp only: power_add)
    also have "\<dots> \<le> 2 ^ (52 + e)"
      using mid by (intro power_increasing) simp_all
    finally show ?thesis using mid by (simp only: mag) simp
  qed
qed

text \<open>Rounding an integer up to \<open>2 ^ 63\<close> does not go beyond \<open>2 ^ 63\<close>.\<close>

lemma f_of_nat_mag_upper:
  assumes "k \<le> 2 ^ 63"
  shows "f_mag (f_of_nat k) \<le> 2 ^ 63 * f_unit"
proof -
  have "round_scaled k 1 1074 \<le> (1085 + 1) * 2 ^ 52"
  proof (cases "k = 2 ^ 63")
    case True
    then show ?thesis by (simp add: round_scaled_def round_even_def bit_length_eval Let_def)
  next
    case False
    with assms have "bit_length k \<le> 63" by (intro bit_length_le) simp
    then have "round_scaled k 1 1074 \<le> (1084 + 2) * 2 ^ 52"
      by (intro round_scaled_upper) simp
    then show ?thesis by simp
  qed
  then have "f_mag (f_of_nat k) \<le> 2 ^ (52 + 1085)"
    unfolding f_of_nat_def by (rule f_mag_pack_upper) (simp add: inf_bits_def)
  moreover have "(2::nat) ^ 63 * f_unit = 2 ^ (63 + 1074)"
    by (simp only: f_unit_def power_add)
  ultimately show ?thesis by simp
qed

lemma f_trunc_mag: "f_trunc x = f_mag x div f_unit"
proof (cases "1074 \<le> f_shift x")
  case True
  then have "(2::nat) ^ f_shift x = 2 ^ (f_shift x - 1074) * 2 ^ 1074"
    by (simp only: le_add_diff_inverse2 flip: power_add)
  then have "f_mag x = f_mant x * 2 ^ (f_shift x - 1074) * f_unit"
    by (simp only: f_mag_def f_unit_def mult.assoc)
  moreover have "0 < f_unit" by (simp add: f_unit_def)
  ultimately show ?thesis using True by (simp only: f_trunc_def) simp
next
  case False
  then have "f_shift x + (1074 - f_shift x) = 1074" by simp
  then have "(2::nat) ^ 1074 = 2 ^ f_shift x * 2 ^ (1074 - f_shift x)"
    by (simp only: flip: power_add)
  then have u: "f_unit = 2 ^ f_shift x * 2 ^ (1074 - f_shift x)"
    by (simp only: f_unit_def)
  have "m * p div (p * q) = m div q" if "0 < p" for m p q :: nat
    using that by (simp add: mult.commute)
  then have "f_mag x div f_unit = f_mant x div 2 ^ (1074 - f_shift x)"
    by (simp only: f_mag_def u) simp
  with False show ?thesis by (simp add: f_trunc_def)
qed

lemma f_round_not_nan: "\<not> f_is_nan x \<Longrightarrow> \<not> f_is_nan (f_round x)"
  by (auto simp: f_round_def Let_def intro!: f_pack_not_nan round_scaled_le)

lemma f_finite_not_nan: "f_finite x \<Longrightarrow> \<not> f_is_nan x"
  by (simp add: f_finite_def f_is_nan_def)

end
