(* ===== verification/Decimal.thy ===== *)
theory Decimal
  imports Wire
begin

text \<open>
  Decimal integers as \<open>strconv\<close> reads and prints them: \<open>FormatUint\<close> and \<open>FormatInt\<close> in base 10,
  \<open>ParseInt(s, 10, 64)\<close> with its two error causes in the order the digit loop meets them.
\<close>

definition digit_char :: "nat \<Rightarrow> char" where
  "digit_char d = char_of (48 + d)"

definition is_digit_char :: "char \<Rightarrow> bool" where
  "is_digit_char c \<longleftrightarrow> 48 \<le> (of_char c :: nat) \<and> (of_char c :: nat) \<le> 57"

definition digit_val :: "char \<Rightarrow> nat" where
  "digit_val c = of_char c - 48"

fun format_nat :: "nat \<Rightarrow> string" where
  "format_nat n = (if n < 10 then [digit_char n] else format_nat (n div 10) @ [digit_char (n mod 10)])"

declare format_nat.simps [simp del]

definition format_int :: "int \<Rightarrow> string" where
  "format_int i = (if i < 0 then CHR ''-'' # format_nat (nat (- i)) else format_nat (nat i))"

datatype num_error = ErrSyntax | ErrRange

fun parse_uint_loop :: "nat \<Rightarrow> string \<Rightarrow> (num_error, nat) outcome" where
  "parse_uint_loop n [] = Ok n"
| "parse_uint_loop n (c # cs) =
     (if \<not> is_digit_char c then Err ErrSyntax
      else if 2 ^ 64 \<le> n * 10 + digit_val c then Err ErrRange
      else parse_uint_loop (n * 10 + digit_val c) cs)"

definition parse_uint :: "string \<Rightarrow> (num_error, nat) outcome" where
  "parse_uint s = (if s = [] then Err ErrSyntax else parse_uint_loop 0 s)"

definition parse_int :: "string \<Rightarrow> (num_error, 64 word) outcome" where
  "parse_int s =
     (case s of
        [] \<Rightarrow> Err ErrSyntax
      | c # cs \<Rightarrow>
          (let neg = (c = CHR ''-'');
               u = (if c = CHR ''+'' \<or> c = CHR ''-'' then cs else s)
           in bind_ok (parse_uint u) (\<lambda>un.
                if \<not> neg \<and> 2 ^ 63 \<le> un then Err ErrRange
                else if neg \<and> 2 ^ 63 < un then Err ErrRange
                else Ok (if neg then - of_nat un else of_nat un))))"

definition digits_val :: "string \<Rightarrow> nat" where
  "digits_val s = foldl (\<lambda>n c. n * 10 + digit_val c) 0 s"

lemma digit_char_props [simp]:
  "d < 10 \<Longrightarrow> is_digit_char (digit_char d)"
  "d < 10 \<Longrightarrow> digit_val (digit_char d) = d"
  by (simp_all add: is_digit_char_def digit_char_def digit_val_def)

lemma digit_val_less: "is_digit_char c \<Longrightarrow> digit_val c < 10"
  unfolding is_digit_char_def digit_val_def by arith

lemma format_nat_nonempty [simp]: "format_nat n \<noteq> []"
  by (subst format_nat.simps) simp

lemma format_nat_digits: "list_all is_digit_char (format_nat n)"
  by (induction n rule: format_nat.induct) (subst format_nat.simps, simp)

lemma digits_val_snoc [simp]: "digits_val (s @ [c]) = digits_val s * 10 + digit_val c"
  by (simp add: digits_val_def)

lemma digits_val_format_nat [simp]: "digits_val (format_nat n) = n"
proof (induction n rule: format_nat.induct)
  case (1 n)
  show ?case
  proof (cases "n < 10")
    case True
    then show ?thesis by (subst format_nat.simps) (simp add: digits_val_def)
  next
    case False
    with 1 have "digits_val (format_nat (n div 10)) = n div 10" by simp
    with False show ?thesis by (subst format_nat.simps) simp
  qed
qed

lemma parse_uint_loop_snoc:
  "parse_uint_loop n (s @ [c]) = bind_ok (parse_uint_loop n s) (\<lambda>m. parse_uint_loop m [c])"
  by (induction s arbitrary: n) auto

lemma parse_uint_loop_digits:
  "list_all is_digit_char s \<Longrightarrow> digits_val s < 2 ^ 64 \<Longrightarrow> parse_uint_loop 0 s = Ok (digits_val s)"
proof (induction s rule: rev_induct)
  case Nil
  show ?case by (simp add: digits_val_def)
next
  case (snoc c s)
  then have "digits_val s < 2 ^ 64" by simp
  with snoc show ?case by (simp add: parse_uint_loop_snoc)
qed

lemma parse_uint_loop_mono: "parse_uint_loop n s = Ok m \<Longrightarrow> n \<le> m"
  by (induction s arbitrary: n) (fastforce split: if_splits)+

lemma parse_uint_loop_Ok:
  "parse_uint_loop 0 s = Ok m \<Longrightarrow> list_all is_digit_char s \<and> m = digits_val s"
proof (induction s arbitrary: m rule: rev_induct)
  case Nil
  then show ?case by (simp add: digits_val_def)
next
  case (snoc c s)
  then obtain k where k: "parse_uint_loop 0 s = Ok k" "parse_uint_loop k [c] = Ok m"
    by (auto simp: parse_uint_loop_snoc)
  with snoc.IH [of k] show ?case by (auto split: if_splits)
qed

text \<open>Printing an \<open>int64\<close> and parsing it back is the identity on all 64-bit values.\<close>

lemma parse_int_format_int: "parse_int (format_int (sint (w :: 64 word))) = Ok w"
proof -
  have lo: "- (2 ^ 63) \<le> sint w" and hi: "sint w < 2 ^ 63"
    using sint_ge [of w] sint_lt [of w] by simp_all
  have head: "hd (format_nat n) \<noteq> CHR ''-'' \<and> hd (format_nat n) \<noteq> CHR ''+''" for n
  proof -
    have "is_digit_char (hd (format_nat n))"
      using format_nat_digits [of n] by (cases "format_nat n") simp_all
    then show ?thesis by (auto simp: is_digit_char_def)
  qed
  have uint: "parse_uint (format_nat n) = Ok n" if "n < 2 ^ 64" for n
    using that parse_uint_loop_digits [OF format_nat_digits, of n]
    by (simp add: parse_uint_def)
  show ?thesis
  proof (cases "sint w < 0")
    case True
    let ?n = "nat (- sint w)"
    have n: "?n \<le> 2 ^ 63" using lo by simp
    then have "?n < 2 ^ 64" by simp
    moreover have "- (of_nat ?n :: 64 word) = w"
      using True by (simp add: of_nat_nat)
    ultimately show ?thesis
      using True n uint [of ?n] by (simp add: parse_int_def format_int_def)
  next
    case False
    let ?n = "nat (sint w)"
    have n: "?n < 2 ^ 63" using hi False by simp
    then have lt: "?n < 2 ^ 64" by simp
    have w: "(of_nat ?n :: 64 word) = w"
      using False by (simp add: of_nat_nat)
    obtain c cs where f: "format_nat ?n = c # cs"
      by (cases "format_nat ?n") simp_all
    then have "c \<noteq> CHR ''-''" "c \<noteq> CHR ''+''"
      using head [of ?n] by simp_all
    then show ?thesis
      using False n w uint [OF lt] f by (simp add: parse_int_def format_int_def)
  qed
qed

end
