(* ===== verification/Types.thy ===== *)
theory Types
  imports Float64 Decimal
begin

text \<open>
  \<open>storage/types.go\<close>: column types, columns, schemas, rows, and \<open>Schema.Validate\<close>. A row is a
  list of interface values; the values of the three supported dynamic types, of \<open>uint64\<close> (a
  COUNT result) and nil have constructors of their own, any other dynamic type is \<open>VOther\<close> with
  its name.
\<close>

section \<open>Column types\<close>

text \<open>A \<open>ColumnType\<close> is a \<open>uint8\<close>: the values without a name are \<open>OtherType\<close>.\<close>

datatype column_type = Int64 | Float64 | String | OtherType byte

fun column_type_string :: "column_type \<Rightarrow> string" where
  "column_type_string Int64 = ''int64''"
| "column_type_string Float64 = ''float64''"
| "column_type_string String = ''string''"
| "column_type_string (OtherType b) = ''ColumnType('' @ format_nat (unat b) @ '')''"

record column =
  col_name :: string
  col_type :: column_type

record schema =
  schema_pk :: string
  schema_columns :: "column list"

section \<open>Interface values and rows\<close>

type_synonym int64 = "64 word"
type_synonym uint64 = "64 word"

datatype go_value =
    VInt64 int64
  | VFloat64 float64
  | VString string
  | VUint64 uint64
  | VNil
  | VOther string

type_synonym row = "go_value list"

fun go_type_name :: "go_value \<Rightarrow> string" where
  "go_type_name (VInt64 _) = ''int64''"
| "go_type_name (VFloat64 _) = ''float64''"
| "go_type_name (VString _) = ''string''"
| "go_type_name (VUint64 _) = ''uint64''"
| "go_type_name VNil = ''<nil>''"
| "go_type_name (VOther t) = t"

text \<open>The type assertion \<open>v.(T)\<close> for the Go type of a column.\<close>

fun has_type :: "go_value \<Rightarrow> column_type \<Rightarrow> bool" where
  "has_type (VInt64 _) Int64 = True"
| "has_type (VFloat64 _) Float64 = True"
| "has_type (VString _) String = True"
| "has_type _ _ = False"

section \<open>Schema operations\<close>

datatype schema_error = ErrNoColumns | ErrDuplicateColumn string | ErrPKNotFound string

fun validate_columns :: "string set \<Rightarrow> column list \<Rightarrow> (schema_error, string set) outcome" where
  "validate_columns seen [] = Ok seen"
| "validate_columns seen (c # cs) =
     (if col_name c \<in> seen then Err (ErrDuplicateColumn (col_name c))
      else validate_columns (insert (col_name c) seen) cs)"

definition Validate :: "schema \<Rightarrow> (schema_error, unit) outcome" where
  "Validate s =
     (if length (schema_columns s) = 0 then Err ErrNoColumns
      else bind_ok (validate_columns {} (schema_columns s)) (\<lambda>seen.
        if schema_pk s \<notin> seen then Err (ErrPKNotFound (schema_pk s)) else Ok ()))"

text \<open>\<open>ColumnIndex\<close> returns \<open>(-1, false)\<close> for an unknown name, here \<open>None\<close>.\<close>

fun column_index_from :: "nat \<Rightarrow> column list \<Rightarrow> string \<Rightarrow> nat option" where
  "column_index_from i [] n = None"
| "column_index_from i (c # cs) n =
     (if col_name c = n then Some i else column_index_from (Suc i) cs n)"

definition ColumnIndex :: "schema \<Rightarrow> string \<Rightarrow> nat option" where
  "ColumnIndex s n = column_index_from 0 (schema_columns s) n"

definition PKIndex :: "schema \<Rightarrow> int" where
  "PKIndex s = (case ColumnIndex s (schema_pk s) of None \<Rightarrow> - 1 | Some i \<Rightarrow> int i)"

definition column_names :: "schema \<Rightarrow> string list" where
  "column_names s = map col_name (schema_columns s)"

section \<open>Correctness\<close>

lemma has_type_iff [simp]:
  "has_type v Int64 \<longleftrightarrow> (\<exists>x. v = VInt64 x)"
  "has_type v Float64 \<longleftrightarrow> (\<exists>x. v = VFloat64 x)"
  "has_type v String \<longleftrightarrow> (\<exists>x. v = VString x)"
  "\<not> has_type v (OtherType b)"
  by (cases v; simp)+

lemma validate_columns_Ok_iff:
  "validate_columns seen cs = Ok t \<longleftrightarrow>
   distinct (map col_name cs) \<and> set (map col_name cs) \<inter> seen = {} \<and>
   t = seen \<union> set (map col_name cs)"
  by (induction cs arbitrary: seen) auto

lemma validate_columns_Err_iff:
  "validate_columns seen cs = Err e \<longleftrightarrow>
   (\<exists>pre c post. cs = pre @ c # post \<and> distinct (map col_name pre) \<and>
      set (map col_name pre) \<inter> seen = {} \<and>
      col_name c \<in> seen \<union> set (map col_name pre) \<and> e = ErrDuplicateColumn (col_name c))"
    (is "_ \<longleftrightarrow> ?R seen cs")
proof (induction cs arbitrary: seen)
  case Nil
  show ?case by simp
next
  case (Cons d cs)
  show ?case
  proof (cases "col_name d \<in> seen")
    case True
    have "?R seen (d # cs) \<longleftrightarrow> e = ErrDuplicateColumn (col_name d)"
    proof
      assume "?R seen (d # cs)"
      then obtain pre c post where *: "d # cs = pre @ c # post" "set (map col_name pre) \<inter> seen = {}"
          "e = ErrDuplicateColumn (col_name c)"
        by auto
      with True have "pre = []" by (cases pre) auto
      with * show "e = ErrDuplicateColumn (col_name d)" by simp
    next
      assume "e = ErrDuplicateColumn (col_name d)"
      with True show "?R seen (d # cs)"
        by (intro exI [of _ "[]"] exI [of _ d] exI [of _ cs]) simp
    qed
    with True show ?thesis by auto
  next
    case False
    have "?R (insert (col_name d) seen) cs \<longleftrightarrow> ?R seen (d # cs)"
    proof
      assume "?R (insert (col_name d) seen) cs"
      then obtain pre c post where "cs = pre @ c # post" "distinct (map col_name pre)"
          "set (map col_name pre) \<inter> insert (col_name d) seen = {}"
          "col_name c \<in> insert (col_name d) seen \<union> set (map col_name pre)"
          "e = ErrDuplicateColumn (col_name c)"
        by blast
      with False show "?R seen (d # cs)"
        by (intro exI [of _ "d # pre"] exI [of _ c] exI [of _ post]) auto
    next
      assume "?R seen (d # cs)"
      then obtain pre c post where *: "d # cs = pre @ c # post" "distinct (map col_name pre)"
          "set (map col_name pre) \<inter> seen = {}"
          "col_name c \<in> seen \<union> set (map col_name pre)" "e = ErrDuplicateColumn (col_name c)"
        by blast
      with False obtain pre' where "pre = d # pre'" by (cases pre) auto
      with * show "?R (insert (col_name d) seen) cs"
        by (intro exI [of _ pre'] exI [of _ c] exI [of _ post]) auto
    qed
    with False Cons.IH show ?thesis by simp
  qed
qed

lemma validate_columns_no_panic [simp]: "validate_columns seen cs \<noteq> Panic p"
  by (induction cs arbitrary: seen) auto

lemma Validate_Ok_iff:
  "Validate s = Ok () \<longleftrightarrow>
   schema_columns s \<noteq> [] \<and> distinct (column_names s) \<and> schema_pk s \<in> set (column_names s)"
  by (auto simp: Validate_def column_names_def validate_columns_Ok_iff)

lemma column_index_from_Some_iff:
  "column_index_from k cs n = Some i \<longleftrightarrow>
   k \<le> i \<and> i - k < length cs \<and> col_name (cs ! (i - k)) = n \<and>
   (\<forall>j < i - k. col_name (cs ! j) \<noteq> n)"
proof (induction cs arbitrary: k)
  case Nil
  show ?case by simp
next
  case (Cons c cs)
  show ?case
  proof (cases "col_name c = n")
    case True
    then show ?thesis by (cases "i - k") auto
  next
    case False
    have "Suc k \<le> i \<and> i - Suc k < length cs \<and> col_name (cs ! (i - Suc k)) = n \<and>
          (\<forall>j < i - Suc k. col_name (cs ! j) \<noteq> n) \<longleftrightarrow>
          k \<le> i \<and> i - k < length (c # cs) \<and> col_name ((c # cs) ! (i - k)) = n \<and>
          (\<forall>j < i - k. col_name ((c # cs) ! j) \<noteq> n)"
    proof (cases "k < i")
      case True
      then obtain d where "i = Suc k + d" using less_imp_Suc_add [of k i] by auto
      then show ?thesis using False by (auto simp: All_less_Suc2)
    next
      case nlt: False
      then show ?thesis using False by (cases "i = k") auto
    qed
    with False Cons.IH [of "Suc k"] show ?thesis by simp
  qed
qed

lemma column_index_from_None_iff:
  "column_index_from k cs n = None \<longleftrightarrow> n \<notin> set (map col_name cs)"
  by (induction cs arbitrary: k) auto

lemma ColumnIndex_Some_iff:
  "ColumnIndex s n = Some i \<longleftrightarrow>
   i < length (schema_columns s) \<and> col_name (schema_columns s ! i) = n \<and>
   (\<forall>j<i. col_name (schema_columns s ! j) \<noteq> n)"
  by (simp add: ColumnIndex_def column_index_from_Some_iff)

lemma ColumnIndex_None_iff: "ColumnIndex s n = None \<longleftrightarrow> n \<notin> set (column_names s)"
  by (simp add: ColumnIndex_def column_index_from_None_iff column_names_def)

lemma ColumnIndex_nth:
  "distinct (column_names s) \<Longrightarrow> i < length (schema_columns s) \<Longrightarrow>
   ColumnIndex s (col_name (schema_columns s ! i)) = Some i"
  by (auto simp: ColumnIndex_Some_iff column_names_def distinct_conv_nth)

lemma PKIndex_valid:
  assumes "Validate s = Ok ()"
  obtains i where "PKIndex s = int i" "ColumnIndex s (schema_pk s) = Some i"
    "i < length (schema_columns s)" "col_name (schema_columns s ! i) = schema_pk s"
proof -
  from assms have "schema_pk s \<in> set (column_names s)" by (simp add: Validate_Ok_iff)
  then obtain i where i: "ColumnIndex s (schema_pk s) = Some i"
    using ColumnIndex_None_iff [of s "schema_pk s"] by auto
  then show ?thesis
    using that [of i] by (simp add: PKIndex_def ColumnIndex_Some_iff)
qed

section \<open>Properties\<close>

lemma Validate_no_panic: "Validate s \<noteq> Panic p"
  by (simp add: Validate_def bind_ok_Panic_iff)

text \<open>
  \<open>Schema.Validate\<close>, on every branch. It accepts exactly the schemas with a column, distinct
  names and the primary key among them; it reports the empty schema, the first column whose name
  occurred before, or a primary key that no column has, in this order; it never panics.
\<close>

theorem Validate_spec:
  "(Validate s = Ok () \<longleftrightarrow>
      schema_columns s \<noteq> [] \<and> distinct (column_names s) \<and> schema_pk s \<in> set (column_names s)) \<and>
   (Validate s = Err ErrNoColumns \<longleftrightarrow> schema_columns s = []) \<and>
   (Validate s = Err (ErrDuplicateColumn n) \<longleftrightarrow>
      (\<exists>i < length (column_names s). column_names s ! i = n \<and> distinct (take i (column_names s)) \<and>
         n \<in> set (take i (column_names s)))) \<and>
   (Validate s = Err (ErrPKNotFound n) \<longleftrightarrow>
      schema_columns s \<noteq> [] \<and> distinct (column_names s) \<and> n = schema_pk s \<and>
      n \<notin> set (column_names s)) \<and>
   \<not> panics (Validate s)"
proof (intro conjI)
  let ?ns = "column_names s"
  show "Validate s = Err (ErrDuplicateColumn n) \<longleftrightarrow>
      (\<exists>i < length ?ns. ?ns ! i = n \<and> distinct (take i ?ns) \<and> n \<in> set (take i ?ns))"
      (is "_ \<longleftrightarrow> ?R")
  proof
    assume "Validate s = Err (ErrDuplicateColumn n)"
    then have "validate_columns {} (schema_columns s) = Err (ErrDuplicateColumn n)"
      by (auto simp: Validate_def bind_ok_Err_iff split: if_splits)
    then obtain pre c post where "schema_columns s = pre @ c # post" "distinct (map col_name pre)"
        "col_name c \<in> set (map col_name pre)" "n = col_name c"
      by (auto simp: validate_columns_Err_iff)
    then show ?R
      by (intro exI [of _ "length pre"]) (simp add: column_names_def nth_append)
  next
    assume ?R
    then obtain i where i: "i < length ?ns" "?ns ! i = n" "distinct (take i ?ns)" "n \<in> set (take i ?ns)"
      by blast
    let ?cs = "schema_columns s"
    from i(1) have split: "?cs = take i ?cs @ ?cs ! i # drop (Suc i) ?cs"
      by (simp add: column_names_def id_take_nth_drop)
    have "validate_columns {} ?cs = Err (ErrDuplicateColumn n)"
      unfolding validate_columns_Err_iff using i split
      by (intro exI [of _ "take i ?cs"] exI [of _ "?cs ! i"] exI [of _ "drop (Suc i) ?cs"])
        (simp add: column_names_def take_map)
    moreover have "?cs \<noteq> []" using i(1) by (auto simp: column_names_def)
    ultimately show "Validate s = Err (ErrDuplicateColumn n)" by (simp add: Validate_def)
  qed
  show "Validate s = Err (ErrPKNotFound n) \<longleftrightarrow>
      schema_columns s \<noteq> [] \<and> distinct ?ns \<and> n = schema_pk s \<and> n \<notin> set ?ns"
    by (auto simp: Validate_def bind_ok_Err_iff validate_columns_Ok_iff validate_columns_Err_iff
        column_names_def split: if_splits)
  show "Validate s = Err ErrNoColumns \<longleftrightarrow> schema_columns s = []"
    by (auto simp: Validate_def bind_ok_Err_iff validate_columns_Err_iff split: if_splits)
qed (use Validate_Ok_iff Validate_no_panic in \<open>auto simp: panics_iff\<close>)

text \<open>
  After \<open>Validate\<close>, \<open>ColumnIndex\<close> finds every column at its own position, so \<open>PKIndex\<close> is a
  valid index of a column with the primary key's name.
\<close>

theorem ColumnIndex_of_valid_schema:
  assumes "Validate s = Ok ()"
  shows "(\<forall>i < length (schema_columns s). ColumnIndex s (col_name (schema_columns s ! i)) = Some i) \<and>
    0 \<le> PKIndex s \<and> nat (PKIndex s) < length (schema_columns s) \<and>
    col_name (schema_columns s ! nat (PKIndex s)) = schema_pk s"
proof -
  have "distinct (column_names s)" using assms by (simp add: Validate_Ok_iff)
  then show ?thesis
    using ColumnIndex_nth [of s] PKIndex_valid [OF assms] by (metis nat_int of_nat_0_le_iff)
qed

theorem ColumnIndex_of_valid_schema_witness:
  "PKIndex \<lparr>schema_pk = ''b'', schema_columns =
      [\<lparr>col_name = ''a'', col_type = Int64\<rparr>, \<lparr>col_name = ''b'', col_type = String\<rparr>]\<rparr> \<ge> 0"
  by (rule ColumnIndex_of_valid_schema [THEN conjunct2, THEN conjunct1])
    (simp add: Validate_Ok_iff column_names_def)

end
