(* ===== verification/FloatText.thy ===== *)
theory FloatText
  imports Decimal Float64
begin

text \<open>
  \<open>strconv.ParseFloat(s, 64)\<close>: the special names, decimal and hexadecimal mantissas, underscores,
  exponents, and the correctly rounded result. A value that rounds to an infinity is a range error.
\<close>

definition to_lower :: "char \<Rightarrow> char" where
  "to_lower c = (let n = of_char c :: nat in if 65 \<le> n \<and> n \<le> 90 then char_of (n + 32) else c)"

definition to_upper :: "char \<Rightarrow> char" where
  "to_upper c = (let n = of_char c :: nat in if 97 \<le> n \<and> n \<le> 122 then char_of (n - 32) else c)"

section \<open>Special names\<close>

text \<open>\<open>inf\<close> and \<open>infinity\<close> with an optional sign, \<open>nan\<close> without, all case-insensitive.\<close>

definition parse_special :: "string \<Rightarrow> float64 option" where
  "parse_special s =
     (let neg = (s \<noteq> [] \<and> hd s = CHR ''-'');
          body = map to_lower (if s \<noteq> [] \<and> (hd s = CHR ''+'' \<or> hd s = CHR ''-'') then tl s else s)
      in if body = ''inf'' \<or> body = ''infinity'' then Some (f_pack neg inf_bits)
         else if map to_lower s = ''nan'' then Some f_nan
         else None)"

section \<open>The mantissa\<close>

record float_scan =
  fs_mantissa :: nat
  fs_digits :: nat
  fs_point :: int
  fs_sawdot :: bool
  fs_sawdigits :: bool
  fs_underscores :: bool

definition base_digit :: "nat \<Rightarrow> char \<Rightarrow> nat option" where
  "base_digit base c =
     (if is_digit_char c then Some (digit_val c)
      else
        let n = of_char (to_lower c) :: nat
        in if base = 16 \<and> 97 \<le> n \<and> n \<le> 102 then Some (n - 87) else None)"

fun scan_mantissa :: "nat \<Rightarrow> string \<Rightarrow> float_scan \<Rightarrow> float_scan \<times> string" where
  "scan_mantissa base [] st = (st, [])"
| "scan_mantissa base (c # cs) st =
     (if c = CHR ''_'' then scan_mantissa base cs (st\<lparr>fs_underscores := True\<rparr>)
      else if c = CHR ''.'' then
        (if fs_sawdot st then (st, c # cs)
         else scan_mantissa base cs (st\<lparr>fs_sawdot := True, fs_point := int (fs_digits st)\<rparr>))
      else
        (case base_digit base c of
           None \<Rightarrow> (st, c # cs)
         | Some d \<Rightarrow>
             if d = 0 \<and> fs_digits st = 0
             then scan_mantissa base cs (st\<lparr>fs_sawdigits := True, fs_point := fs_point st - 1\<rparr>)
             else scan_mantissa base cs (st\<lparr>fs_sawdigits := True, fs_digits := fs_digits st + 1,
                    fs_mantissa := fs_mantissa st * base + d\<rparr>)))"

text \<open>The exponent digits; a value of 10000 or more stops growing.\<close>

fun scan_exponent :: "string \<Rightarrow> nat \<Rightarrow> bool \<Rightarrow> nat \<times> bool \<times> string" where
  "scan_exponent [] e us = (e, us, [])"
| "scan_exponent (c # cs) e us =
     (if c = CHR ''_'' then scan_exponent cs e True
      else if is_digit_char c then
        scan_exponent cs (if e < 10000 then e * 10 + digit_val c else e) us
      else (e, us, c # cs))"

text \<open>\<open>underscoreOK\<close>: an underscore separates digits, or follows the base prefix.\<close>

fun underscores_ok :: "bool \<Rightarrow> char \<Rightarrow> string \<Rightarrow> bool" where
  "underscores_ok hex prev [] = (prev \<noteq> CHR ''_'')"
| "underscores_ok hex prev (c # cs) =
     (if base_digit (if hex then 16 else 10) c \<noteq> None then underscores_ok hex (CHR ''0'') cs
      else if c = CHR ''_'' then prev = CHR ''0'' \<and> underscores_ok hex (CHR ''_'') cs
      else prev \<noteq> CHR ''_'' \<and> underscores_ok hex (CHR ''!'') cs)"

section \<open>ParseFloat\<close>

text \<open>The bits of \<open>mantissa * base ^ e\<close>, rounded to nearest.\<close>

definition scaled_bits :: "nat \<Rightarrow> nat \<Rightarrow> int \<Rightarrow> nat" where
  "scaled_bits base mantissa e =
     (if 0 \<le> e then round_scaled (mantissa * base ^ nat e) 1 1074
      else round_scaled (mantissa * f_unit) (base ^ nat (- e)) 0)"

definition finish_float :: "bool \<Rightarrow> nat \<Rightarrow> (num_error, float64) outcome" where
  "finish_float neg b = (if inf_bits \<le> b then Err ErrRange else Ok (f_pack neg b))"

definition parse_float :: "string \<Rightarrow> (num_error, float64) outcome" where
  "parse_float s =
     (case parse_special s of
        Some x \<Rightarrow> Ok x
      | None \<Rightarrow>
          (let neg = (s \<noteq> [] \<and> hd s = CHR ''-'');
               body = (if s \<noteq> [] \<and> (hd s = CHR ''+'' \<or> hd s = CHR ''-'') then tl s else s);
               hex = (2 < length body \<and> hd body = CHR ''0'' \<and> to_lower (body ! 1) = CHR ''x'');
               base = (if hex then 16 else 10);
               digits = (if hex then drop 2 body else body);
               (st, rest) = scan_mantissa base digits
                  \<lparr>fs_mantissa = 0, fs_digits = 0, fs_point = 0, fs_sawdot = False,
                   fs_sawdigits = False, fs_underscores = False\<rparr>;
               point = (if fs_sawdot st then fs_point st else int (fs_digits st));
               scale = point - int (fs_digits st)
           in if \<not> fs_sawdigits st then Err ErrSyntax
              else
                let has_exp = (rest \<noteq> [] \<and> to_lower (hd rest) = (if hex then CHR ''p'' else CHR ''e''));
                    exp_text = (if has_exp then tl rest else []);
                    exp_neg = (exp_text \<noteq> [] \<and> hd exp_text = CHR ''-'');
                    exp_body = (if exp_text \<noteq> [] \<and> (hd exp_text = CHR ''+'' \<or> hd exp_text = CHR ''-'')
                                then tl exp_text else exp_text);
                    (e, us, tail) = (if has_exp then scan_exponent exp_body 0 (fs_underscores st)
                                        else (0, fs_underscores st, rest));
                    ex = (if exp_neg then - int e else int e)
                in if has_exp \<and> (exp_body = [] \<or> \<not> is_digit_char (hd exp_body)) then Err ErrSyntax
                   else if hex \<and> \<not> has_exp then Err ErrSyntax
                   else if us \<and> \<not> underscores_ok hex (if hex then CHR ''0'' else CHR ''^'') digits
                     then Err ErrSyntax
                   else if tail \<noteq> [] then Err ErrSyntax
                   else finish_float neg
                     (if hex then scaled_bits 2 (fs_mantissa st) (4 * scale + ex)
                      else scaled_bits 10 (fs_mantissa st) (scale + ex))))"

lemma finish_float_not_nan: "finish_float neg b = Ok x \<Longrightarrow> \<not> f_is_nan x"
  by (auto simp: finish_float_def intro!: f_pack_not_nan split: if_splits)

lemma parse_special_cases:
  "parse_special s = Some x \<Longrightarrow> f_is_nan x \<Longrightarrow> map to_lower s = ''nan''"
proof -
  assume s: "parse_special s = Some x" "f_is_nan x"
  have "\<not> f_is_nan (f_pack neg inf_bits)" for neg
    by (rule f_pack_not_nan) simp
  with s show ?thesis
    by (auto simp: parse_special_def Let_def split: if_splits)
qed

end
