(* ===== verification/Lexer.thy ===== *)
theory Lexer
  imports Types FloatText
begin

text \<open>
  The data types of \<open>query/parser.go\<close> and its tokenizer. \<open>lex\<close> works on the rest of the input and
  its byte offset; the scanning loops over digits, identifier characters and the body of a string
  literal are prefix searches.
\<close>

section \<open>Queries\<close>

text \<open>Go's enumerations are integers: the values without a name have a constructor of their own.\<close>

datatype projection_kind =
    ProjColumns | ProjStar | ProjCountStar | ProjSumColumn | ProjGrouped | OtherProjection int

datatype aggregate_kind = AggCountStar | AggSumColumn | OtherAggregate int

datatype filter_op = OpEq | OpNeq | OpLt | OpGt | OpLte | OpGte | OtherOp int

fun filter_op_string :: "filter_op \<Rightarrow> string" where
  "filter_op_string OpEq = ''=''"
| "filter_op_string OpNeq = ''!=''"
| "filter_op_string OpLt = ''<''"
| "filter_op_string OpGt = ''>''"
| "filter_op_string OpLte = ''<=''"
| "filter_op_string OpGte = ''>=''"
| "filter_op_string (OtherOp i) = ''FilterOp('' @ format_int i @ '')''"

record comparison =
  cmp_Column :: string
  cmp_Op :: filter_op
  cmp_Value :: go_value
  cmp_Pos :: nat

text \<open>The three fields of a \<open>FilterExpr\<close> node; \<open>None\<close> is nil.\<close>

datatype filter_expr =
  FilterExpr (fe_Comparison: "comparison option") (fe_And: "filter_expr list option")
    (fe_Or: "filter_expr list option")

record query =
  q_Projection :: projection_kind
  q_Columns :: "string list"
  q_SumColumn :: string
  q_GroupBy :: string
  q_GroupAgg :: aggregate_kind
  q_Where :: "filter_expr option"

section \<open>Tokens\<close>

datatype tok_kind =
    TkEOF | TkIdent | TkKeyword | TkInt | TkFloat | TkString | TkOp | TkComma
  | TkLParen | TkRParen | TkStar

record token =
  tok_kind :: tok_kind
  tok_text :: string
  tok_pos :: nat

abbreviation tok :: "tok_kind \<Rightarrow> string \<Rightarrow> nat \<Rightarrow> token" where
  "tok k t p \<equiv> \<lparr>tok_kind = k, tok_text = t, tok_pos = p\<rparr>"

datatype parse_error =
    StrayBang nat
  | UnterminatedString nat
  | UnexpectedCharacter nat char
  | TrailingToken nat string
  | ExpectedSelect nat string
  | UnexpectedFrom nat
  | HavingUnsupported nat
  | ExpectedStarInCount nat string
  | ExpectedColumnInSum nat string
  | ExpectedBy nat string
  | ExpectedGroupColumn nat string
  | MultiColumnGroupBy nat
  | GroupByRequired
  | GroupByMismatch string string
  | GroupByWithoutAggregate
  | GroupByNotProjected
  | ParenthesesUnsupported nat
  | ExpectedWhereColumn nat string
  | MissingOperatorBefore nat string
  | ExpectedOperator nat string
  | UnknownOperator nat string
  | BadInteger nat string num_error
  | BadFloat nat string num_error
  | ExpectedLiteral nat string
  | ExpectedToken nat string string
  | BadGroupProjection nat
  | MixedStar nat
  | ExpectedColumn nat string
  | ExpectedProjection nat string

definition keyword_set :: "string set" where
  "keyword_set = {''SELECT'', ''WHERE'', ''COUNT'', ''SUM'', ''AND'', ''OR'', ''GROUP'', ''BY'', ''HAVING'', ''FROM''}"

text \<open>\<open>unicode.IsSpace\<close> of one byte read as a rune: the Latin-1 spaces.\<close>

definition isSpace :: "char \<Rightarrow> bool" where
  "isSpace c \<longleftrightarrow> (of_char c :: nat) \<in> {9, 10, 11, 12, 13, 32, 0x85, 0xA0}"

definition isDigit :: "char \<Rightarrow> bool" where
  "isDigit c \<longleftrightarrow> is_digit_char c"

definition isIdentStart :: "char \<Rightarrow> bool" where
  "isIdentStart c \<longleftrightarrow>
     c = CHR ''_'' \<or> (65 \<le> (of_char c :: nat) \<and> (of_char c :: nat) \<le> 90) \<or>
     (97 \<le> (of_char c :: nat) \<and> (of_char c :: nat) \<le> 122)"

definition isIdentPart :: "char \<Rightarrow> bool" where
  "isIdentPart c \<longleftrightarrow> isIdentStart c \<or> isDigit c"

section \<open>The tokenizer\<close>

text \<open>A numeric literal: the text, whether it has a point, and the rest of the input.\<close>

definition lex_number :: "string \<Rightarrow> string \<times> bool \<times> string" where
  "lex_number s =
     (let sign = (if s \<noteq> [] \<and> hd s = CHR ''-'' then ''-'' else []);
          body = drop (length sign) s;
          whole = takeWhile isDigit body;
          rest = dropWhile isDigit body
      in if rest \<noteq> [] \<and> hd rest = CHR ''.''
         then let frac = takeWhile isDigit (tl rest)
              in (sign @ whole @ ''.'' @ frac, True, dropWhile isDigit (tl rest))
         else (sign @ whole, False, rest))"

lemma lex_number_shorter:
  assumes "lex_number s = (t, fl, rest)" "s \<noteq> []"
    and "isDigit (hd s) \<or> (hd s = CHR ''-'' \<and> tl s \<noteq> [] \<and> isDigit (hd (tl s)))"
  shows "length rest < length s"
proof -
  have d: "length (dropWhile isDigit xs) \<le> length xs" for xs
    by (rule length_dropWhile_le)
  obtain c cs where s: "s = c # cs" using assms(2) by (cases s) auto
  have "length (dropWhile isDigit (tl (dropWhile isDigit cs))) \<le> length cs"
    using d [of "tl (dropWhile isDigit cs)"] d [of cs] by simp
  with d [of cs] show ?thesis
    using assms by (auto simp: lex_number_def s Let_def split: if_splits)
qed

lemma ident_shorter:
  "s \<noteq> [] \<Longrightarrow> isIdentStart (hd s) \<Longrightarrow> length (dropWhile isIdentPart s) < length s"
  by (cases s) (auto simp: isIdentPart_def intro: le_less_trans [OF length_dropWhile_le])

definition prepend :: "token \<Rightarrow> (parse_error, token list) outcome \<Rightarrow> (parse_error, token list) outcome" where
  "prepend t r = bind_ok r (\<lambda>ts. Ok (t # ts))"

lemma prepend_cong [fundef_cong]: "t = u \<Longrightarrow> r = r' \<Longrightarrow> prepend t r = prepend u r'"
  by simp

text \<open>\<open>lex_at i s\<close> tokenizes \<open>s\<close>, the input from byte \<open>i\<close> on.\<close>

function lex_at :: "nat \<Rightarrow> string \<Rightarrow> (parse_error, token list) outcome" where
  "lex_at i s =
     (if s = [] then Ok [tok TkEOF [] i]
      else
        let c = hd s; rest = tl s
        in if isSpace c then lex_at (i + 1) rest
           else if c = CHR '','' then prepend (tok TkComma '','' i) (lex_at (i + 1) rest)
           else if c = CHR ''('' then prepend (tok TkLParen ''('' i) (lex_at (i + 1) rest)
           else if c = CHR '')'' then prepend (tok TkRParen '')'' i) (lex_at (i + 1) rest)
           else if c = CHR ''*'' then prepend (tok TkStar ''*'' i) (lex_at (i + 1) rest)
           else if c = CHR ''='' then prepend (tok TkOp ''='' i) (lex_at (i + 1) rest)
           else if c = CHR ''!'' then
             (if rest \<noteq> [] \<and> hd rest = CHR ''=''
              then prepend (tok TkOp ''!='' i) (lex_at (i + 2) (tl rest))
              else Err (StrayBang i))
           else if c = CHR ''<'' \<or> c = CHR ''>'' then
             (if rest \<noteq> [] \<and> hd rest = CHR ''=''
              then prepend (tok TkOp [c, CHR ''=''] i) (lex_at (i + 2) (tl rest))
              else prepend (tok TkOp [c] i) (lex_at (i + 1) rest))
           else if c = CHR 0x27 then
             (let text = takeWhile (\<lambda>d. d \<noteq> CHR 0x27) rest; after = drop (length text) rest
              in if after = [] then Err (UnterminatedString i)
                 else prepend (tok TkString text i) (lex_at (i + 1 + length text + 1) (tl after)))
           else if isDigit c \<or> (c = CHR ''-'' \<and> rest \<noteq> [] \<and> isDigit (hd rest)) then
             (case lex_number s of (text, isFloat, after) \<Rightarrow>
                prepend (tok (if isFloat then TkFloat else TkInt) text i)
                  (lex_at (i + (length s - length after)) after))
           else if isIdentStart c then
             (let text = takeWhile isIdentPart s; upper = map to_upper text
              in prepend (if upper \<in> keyword_set then tok TkKeyword upper i else tok TkIdent text i)
                   (lex_at (i + length text) (dropWhile isIdentPart s)))
           else Err (UnexpectedCharacter i c))"
  by pat_completeness auto
termination
  by (relation "measure (\<lambda>(i, s). length s)")
    (auto intro: lex_number_shorter [OF sym] ident_shorter)

declare lex_at.simps [simp del]

definition lex :: "string \<Rightarrow> (parse_error, token list) outcome" where
  "lex input = lex_at 0 input"

end
