(* ===== verification/Parser.thy ===== *)
theory Parser
  imports Lexer
begin

text \<open>
  The recursive-descent parser of \<open>query/parser.go\<close>. The parser's state, the token slice and its
  index, is the list of tokens from the index on: \<open>peek\<close> reads the first one, \<open>advance\<close> returns it
  and drops it unless it is the last, as the code never moves past the final token. The query under
  construction is passed along and returned.
\<close>

section \<open>Token access\<close>

type_synonym 'a parse = "(parse_error, 'a \<times> token list) outcome"

definition peek :: "token list \<Rightarrow> (parse_error, token) outcome" where
  "peek ts = (case ts of [] \<Rightarrow> Panic IndexOutOfRange | t # _ \<Rightarrow> Ok t)"

definition advance :: "token list \<Rightarrow> token parse" where
  "advance ts = (case ts of [] \<Rightarrow> Panic IndexOutOfRange | [t] \<Rightarrow> Ok (t, [t]) | t # u # us \<Rightarrow> Ok (t, u # us))"

definition displayToken :: "token \<Rightarrow> string" where
  "displayToken t = (if tok_kind t = TkEOF then ''<end of input>'' else tok_text t)"

definition expectKind :: "tok_kind \<Rightarrow> string \<Rightarrow> token list \<Rightarrow> unit parse" where
  "expectKind k descr ts =
     bind_ok (advance ts) (\<lambda>(t, ts).
       if tok_kind t \<noteq> k then Err (ExpectedToken (tok_pos t) descr (displayToken t)) else Ok ((), ts))"

definition is_keyword :: "token \<Rightarrow> string \<Rightarrow> bool" where
  "is_keyword t kw \<longleftrightarrow> tok_kind t = TkKeyword \<and> tok_text t = kw"

section \<open>Leaves\<close>

definition parseOp :: "string \<Rightarrow> filter_op option" where
  "parseOp text =
     (if text = ''='' then Some OpEq
      else if text = ''!='' then Some OpNeq
      else if text = ''<'' then Some OpLt
      else if text = ''>'' then Some OpGt
      else if text = ''<='' then Some OpLte
      else if text = ''>='' then Some OpGte
      else None)"

definition literalValue :: "token \<Rightarrow> (parse_error, go_value) outcome" where
  "literalValue t =
     (case tok_kind t of
        TkInt \<Rightarrow> bind_ok (map_err (BadInteger (tok_pos t) (tok_text t)) (parse_int (tok_text t)))
                  (\<lambda>v. Ok (VInt64 v))
      | TkFloat \<Rightarrow> bind_ok (map_err (BadFloat (tok_pos t) (tok_text t)) (parse_float (tok_text t)))
                  (\<lambda>v. Ok (VFloat64 v))
      | TkString \<Rightarrow> Ok (VString (tok_text t))
      | _ \<Rightarrow> Err (ExpectedLiteral (tok_pos t) (displayToken t)))"

definition parseComparison :: "token list \<Rightarrow> comparison parse" where
  "parseComparison ts =
     bind_ok (advance ts) (\<lambda>(col, ts).
       if tok_kind col = TkLParen then Err (ParenthesesUnsupported (tok_pos col))
       else if tok_kind col \<noteq> TkIdent then Err (ExpectedWhereColumn (tok_pos col) (displayToken col))
       else
         bind_ok (advance ts) (\<lambda>(opTok, ts).
           if tok_kind opTok \<noteq> TkOp then
             (if tok_kind opTok = TkIdent then Err (MissingOperatorBefore (tok_pos opTok) (tok_text opTok))
              else Err (ExpectedOperator (tok_pos opTok) (displayToken opTok)))
           else
             (case parseOp (tok_text opTok) of
                None \<Rightarrow> Err (UnknownOperator (tok_pos opTok) (tok_text opTok))
              | Some op \<Rightarrow>
                  bind_ok (advance ts) (\<lambda>(lit, ts).
                  bind_ok (literalValue lit) (\<lambda>val.
                    Ok (\<lparr>cmp_Column = tok_text col, cmp_Op = op, cmp_Value = val,
                         cmp_Pos = tok_pos col\<rparr>, ts))))))"

text \<open>A parsed comparison consumed at least one token.\<close>

lemma advance_length: "advance ts = Ok (t, ts') \<Longrightarrow> length ts' \<le> length ts"
  by (auto simp: advance_def split: list.splits)

lemma advance_stuck: "advance ts = Ok (t, ts') \<Longrightarrow> length ts \<le> length ts' \<Longrightarrow> ts = [t] \<and> ts' = [t]"
  by (auto simp: advance_def split: list.splits)

lemma parseComparison_shorter:
  assumes "parseComparison ts = Ok (c, ts')"
  shows "length ts' < length ts"
proof -
  from assms obtain col ts1 opTok ts2 lit where
    a: "advance ts = Ok (col, ts1)" "tok_kind col = TkIdent" "advance ts1 = Ok (opTok, ts2)"
      "tok_kind opTok = TkOp" "advance ts2 = Ok (lit, ts')"
    by (auto simp: parseComparison_def split: if_splits option.splits)
  show ?thesis
  proof (rule ccontr)
    assume "\<not> ?thesis"
    then have "length ts \<le> length ts1"
      using advance_length [OF a(3)] advance_length [OF a(5)] by linarith
    with a(1) have "ts1 = [col]" using advance_stuck by blast
    with a(3) have "opTok = col" by (simp add: advance_def)
    with a show False by simp
  qed
qed

section \<open>WHERE\<close>

text \<open>Pass 1: the comparisons and the operators between them.\<close>

function parse_conditions ::
  "comparison list \<Rightarrow> string list \<Rightarrow> token list \<Rightarrow> (comparison list \<times> string list) parse" where
  "parse_conditions comps ops ts =
     (case peek ts of
        Err e \<Rightarrow> Err e
      | Panic p \<Rightarrow> Panic p
      | Ok t \<Rightarrow>
          if tok_kind t = TkEOF then Ok ((comps, ops), ts)
          else if tok_kind t = TkKeyword \<and> (tok_text t = ''AND'' \<or> tok_text t = ''OR'') then
            (case advance ts of
               Err e \<Rightarrow> Err e
             | Panic p \<Rightarrow> Panic p
             | Ok (_, ts1) \<Rightarrow>
                 (case parseComparison ts1 of
                    Err e \<Rightarrow> Err e
                  | Panic p \<Rightarrow> Panic p
                  | Ok (next, ts2) \<Rightarrow>
                      parse_conditions (comps @ [next]) (ops @ [tok_text t]) ts2))
          else if tok_kind t = TkIdent then Err (MissingOperatorBefore (tok_pos t) (tok_text t))
          else Ok ((comps, ops), ts))"
  by pat_completeness auto
termination
proof (relation "measure (\<lambda>(comps, ops, ts). length ts)", goal_cases)
  case (2 comps ops ts t r u ts1 r' c ts2)
  then show ?case
    using advance_length [of ts u ts1] parseComparison_shorter [of ts1 c ts2] by auto
qed auto

declare parse_conditions.simps [simp del]

text \<open>Pass 2: consecutive comparisons joined by AND form a group.\<close>

fun group_conditions ::
  "comparison list list \<Rightarrow> comparison list \<Rightarrow> (string \<times> comparison) list \<Rightarrow> comparison list list" where
  "group_conditions groups cur [] = groups @ [cur]"
| "group_conditions groups cur ((op, c) # rest) =
     (if op = ''AND'' then group_conditions groups (cur @ [c]) rest
      else group_conditions (groups @ [cur]) [c] rest)"

definition leaf :: "comparison \<Rightarrow> filter_expr" where
  "leaf c = FilterExpr (Some c) None None"

text \<open>Pass 3: a group of one is a leaf, a longer one an And node; several groups are an Or node.\<close>

definition lower_group :: "comparison list \<Rightarrow> filter_expr" where
  "lower_group g = (if length g = 1 then leaf (hd g) else FilterExpr None (Some (map leaf g)) None)"

definition lower_groups :: "comparison list list \<Rightarrow> filter_expr" where
  "lower_groups gs =
     (let nodes = map lower_group gs
      in if length nodes = 1 then hd nodes else FilterExpr None None (Some nodes))"

definition parseWhere :: "token list \<Rightarrow> filter_expr parse" where
  "parseWhere ts =
     bind_ok (parseComparison ts) (\<lambda>(first, ts).
     bind_ok (parse_conditions [first] [] ts) (\<lambda>((comps, ops), ts).
       Ok (lower_groups (group_conditions [] [hd comps] (zip ops (tl comps))), ts)))"

section \<open>The projection\<close>

text \<open>The aggregate after the group column; on entry the next token is COUNT or SUM.\<close>

definition parseGroupedAggregate :: "query \<Rightarrow> token list \<Rightarrow> query parse" where
  "parseGroupedAggregate q ts =
     bind_ok (advance ts) (\<lambda>(agg, ts).
     bind_ok (expectKind TkLParen [CHR 0x27, CHR ''('', CHR 0x27] ts) (\<lambda>(_, ts).
     bind_ok
       (if tok_text agg = ''COUNT'' then
          bind_ok (advance ts) (\<lambda>(next, ts).
            if tok_kind next \<noteq> TkStar then Err (ExpectedStarInCount (tok_pos next) (displayToken next))
            else Ok (q\<lparr>q_GroupAgg := AggCountStar\<rparr>, ts))
        else if tok_text agg = ''SUM'' then
          bind_ok (advance ts) (\<lambda>(next, ts).
            if tok_kind next \<noteq> TkIdent then Err (ExpectedColumnInSum (tok_pos next) (displayToken next))
            else Ok (q\<lparr>q_GroupAgg := AggSumColumn, q_SumColumn := tok_text next\<rparr>, ts))
        else Ok (q, ts)) (\<lambda>(q, ts).
     bind_ok (expectKind TkRParen [CHR 0x27, CHR '')'', CHR 0x27] ts) (\<lambda>(_, ts).
       Ok (q\<lparr>q_Projection := ProjGrouped\<rparr>, ts)))))"

text \<open>The loop over \<open>, <item>\<close> after the first column.\<close>

function parse_columns_loop :: "query \<Rightarrow> token list \<Rightarrow> query parse" where
  "parse_columns_loop q ts =
     (case peek ts of
        Err e \<Rightarrow> Err e
      | Panic p \<Rightarrow> Panic p
      | Ok t \<Rightarrow>
          if tok_kind t \<noteq> TkComma then Ok (q, ts)
          else
            (case advance ts of
               Err e \<Rightarrow> Err e
             | Panic p \<Rightarrow> Panic p
             | Ok (_, ts1) \<Rightarrow>
                 (case advance ts1 of
                    Err e \<Rightarrow> Err e
                  | Panic p \<Rightarrow> Panic p
                  | Ok (n, ts2) \<Rightarrow>
                      if tok_kind n = TkKeyword \<and> (tok_text n = ''COUNT'' \<or> tok_text n = ''SUM'') then
                        (if length (q_Columns q) \<noteq> 1 then Err (BadGroupProjection (tok_pos n))
                         else
                           bind_ok (parseGroupedAggregate q ts1) (\<lambda>(q, ts).
                           bind_ok (peek ts) (\<lambda>nxt.
                             if tok_kind nxt = TkComma then Err (BadGroupProjection (tok_pos nxt))
                             else Ok (q, ts))))
                      else if tok_kind n \<noteq> TkIdent then
                        (if tok_kind n = TkStar then Err (MixedStar (tok_pos n))
                         else Err (ExpectedColumn (tok_pos n) (displayToken n)))
                      else parse_columns_loop (q\<lparr>q_Columns := q_Columns q @ [tok_text n]\<rparr>) ts2)))"
  by pat_completeness auto
termination
proof (relation "measure (\<lambda>(q, ts). length ts)", goal_cases)
  case (2 q ts t r u ts1 r' n ts2)
  from 2 have a: "peek ts = Ok t" "tok_kind t = TkComma" "advance ts = Ok (u, ts1)"
    "advance ts1 = Ok (n, ts2)" "tok_kind n = TkIdent"
    by auto
  have "length ts2 < length ts"
  proof (rule ccontr)
    assume "\<not> ?thesis"
    then have "length ts \<le> length ts1"
      using advance_length [OF a(4)] by linarith
    with a(3) have "ts = [u]" "ts1 = [u]" using advance_stuck by blast+
    with a show False by (auto simp: advance_def peek_def)
  qed
  then show ?case by simp
qed auto

declare parse_columns_loop.simps [simp del]

definition parseProjection :: "query \<Rightarrow> token list \<Rightarrow> query parse" where
  "parseProjection q ts =
     bind_ok (peek ts) (\<lambda>t.
       if tok_kind t = TkStar then
         bind_ok (advance ts) (\<lambda>(_, ts). Ok (q\<lparr>q_Projection := ProjStar\<rparr>, ts))
       else if is_keyword t ''COUNT'' then
         bind_ok (advance ts) (\<lambda>(_, ts).
         bind_ok (expectKind TkLParen [CHR 0x27, CHR ''('', CHR 0x27] ts) (\<lambda>(_, ts).
         bind_ok (advance ts) (\<lambda>(next, ts).
           if tok_kind next \<noteq> TkStar then Err (ExpectedStarInCount (tok_pos next) (displayToken next))
           else
             bind_ok (expectKind TkRParen [CHR 0x27, CHR '')'', CHR 0x27] ts) (\<lambda>(_, ts).
               Ok (q\<lparr>q_Projection := ProjCountStar\<rparr>, ts)))))
       else if is_keyword t ''SUM'' then
         bind_ok (advance ts) (\<lambda>(_, ts).
         bind_ok (expectKind TkLParen [CHR 0x27, CHR ''('', CHR 0x27] ts) (\<lambda>(_, ts).
         bind_ok (advance ts) (\<lambda>(next, ts).
           if tok_kind next \<noteq> TkIdent then Err (ExpectedColumnInSum (tok_pos next) (displayToken next))
           else
             bind_ok (expectKind TkRParen [CHR 0x27, CHR '')'', CHR 0x27] ts) (\<lambda>(_, ts).
               Ok (q\<lparr>q_Projection := ProjSumColumn, q_SumColumn := tok_text next\<rparr>, ts)))))
       else if tok_kind t = TkIdent then
         bind_ok (advance ts) (\<lambda>(first, ts).
           parse_columns_loop (q\<lparr>q_Projection := ProjColumns, q_Columns := [tok_text first]\<rparr>) ts)
       else Err (ExpectedProjection (tok_pos t) (displayToken t)))"

section \<open>GROUP BY and the query\<close>

definition parseGroupBy :: "query \<Rightarrow> token list \<Rightarrow> query parse" where
  "parseGroupBy q ts =
     bind_ok (advance ts) (\<lambda>(_, ts).
     bind_ok (advance ts) (\<lambda>(by, ts).
       if \<not> is_keyword by ''BY'' then Err (ExpectedBy (tok_pos by) (displayToken by))
       else
         bind_ok (advance ts) (\<lambda>(col, ts).
           if tok_kind col \<noteq> TkIdent then Err (ExpectedGroupColumn (tok_pos col) (displayToken col))
           else
             bind_ok (peek ts) (\<lambda>next.
               if tok_kind next = TkComma then Err (MultiColumnGroupBy (tok_pos next))
               else Ok (q\<lparr>q_GroupBy := tok_text col\<rparr>, ts)))))"

definition validateGrouped :: "query \<Rightarrow> (parse_error, unit) outcome" where
  "validateGrouped q =
     (if q_Projection q = ProjGrouped \<and> q_GroupBy q = [] then Err GroupByRequired
      else
        bind_ok (if q_Projection q = ProjGrouped then
                   bind_ok (fetch (q_Columns q) 0) (\<lambda>c.
                     if q_GroupBy q \<noteq> c then Err (GroupByMismatch (q_GroupBy q) c) else Ok ())
                 else Ok ()) (\<lambda>_.
        if q_GroupBy q \<noteq> [] \<and> q_Projection q = ProjColumns then Err GroupByWithoutAggregate
        else if q_GroupBy q \<noteq> [] \<and>
             (q_Projection q = ProjCountStar \<or> q_Projection q = ProjSumColumn \<or> q_Projection q = ProjStar)
          then Err GroupByNotProjected
        else Ok ()))"

definition empty_query :: query where
  "empty_query =
     \<lparr>q_Projection = ProjColumns, q_Columns = [], q_SumColumn = [], q_GroupBy = [],
      q_GroupAgg = AggCountStar, q_Where = None\<rparr>"

definition parseQuery :: "token list \<Rightarrow> query parse" where
  "parseQuery ts =
     bind_ok (advance ts) (\<lambda>(t, ts).
       if \<not> is_keyword t ''SELECT'' then Err (ExpectedSelect (tok_pos t) (displayToken t))
       else
         bind_ok (parseProjection empty_query ts) (\<lambda>(q, ts).
         bind_ok (peek ts) (\<lambda>t.
           if is_keyword t ''FROM'' then Err (UnexpectedFrom (tok_pos t))
           else
             bind_ok
               (if is_keyword t ''WHERE'' then
                  bind_ok (advance ts) (\<lambda>(_, ts).
                  bind_ok (parseWhere ts) (\<lambda>(e, ts). Ok (q\<lparr>q_Where := Some e\<rparr>, ts)))
                else Ok (q, ts)) (\<lambda>(q, ts).
             bind_ok (peek ts) (\<lambda>t.
             bind_ok (if is_keyword t ''GROUP'' then parseGroupBy q ts else Ok (q, ts)) (\<lambda>(q, ts).
             bind_ok (peek ts) (\<lambda>hav.
               if is_keyword hav ''HAVING'' then Err (HavingUnsupported (tok_pos hav))
               else bind_ok (validateGrouped q) (\<lambda>_. Ok (q, ts)))))))))"

definition Parse :: "string \<Rightarrow> (parse_error, query) outcome" where
  "Parse input =
     bind_ok (lex input) (\<lambda>toks.
     bind_ok (parseQuery toks) (\<lambda>(q, ts).
     bind_ok (peek ts) (\<lambda>t.
       if tok_kind t \<noteq> TkEOF then Err (TrailingToken (tok_pos t) (tok_text t)) else Ok q)))"

end
