(* ===== verification/Bloom.thy ===== *)
theory Bloom
  imports Types
begin

text \<open>
  \<open>bloom/bloom.go\<close>: the Bloom filter of the write path. FNV-1a 128 (\<open>hash/fnv\<close>) and the double
  hashing are computed on machine words, the bit array is a list of bytes, and every index and
  division carries the run-time check that can panic. The results Go leaves to the platform are
  the fields of a parameter: the elementary functions of \<open>math\<close>, whose last bits differ between
  architectures, and the conversion of an unrepresentable value to \<open>uint64\<close>.
\<close>

record platform =
  math_log :: "float64 \<Rightarrow> float64"
  math_exp :: "float64 \<Rightarrow> float64"
  math_pow :: "float64 \<Rightarrow> float64 \<Rightarrow> float64"
  uint64_unrepresentable :: "float64 \<Rightarrow> uint64"

section \<open>State and errors\<close>

record bloom_filter =
  bf_m :: uint64
  bf_k :: byte
  bf_bits :: "byte list"
  bf_nAdded :: uint64

datatype bloom_error =
    InvalidExpectedItems
  | InvalidTargetFPR float64
  | DerivedSizeOutOfRange float64
  | HeaderTooShort nat
  | BadBitsLength
  | BitsPayloadMismatch nat nat
  | ZeroM
  | BitsLengthMismatch nat uint64
  | KOutOfRange byte

definition minK :: byte where "minK = 1"
definition maxK :: byte where "maxK = 30"

section \<open>Hashing\<close>

definition fnv128_offset :: "128 word" where
  "fnv128_offset = 0x6c62272e07bb014262b821756295c58d"

definition fnv128_prime :: "128 word" where
  "fnv128_prime = 0x0000000001000000000000000000013b"

definition fnv128a :: "byte list \<Rightarrow> 128 word" where
  "fnv128a key = foldl (\<lambda>h b. (h XOR ucast b) * fnv128_prime) fnv128_offset key"

definition hash128 :: "byte list \<Rightarrow> uint64 \<times> uint64" where
  "hash128 key = (let sum = fnv128a key in (ucast (drop_bit 64 sum), ucast sum))"

section \<open>Construction\<close>

definition float_ln2 :: float64 where "float_ln2 = F64 0x3FE62E42FEFA39EF"
definition float_one :: float64 where "float_one = F64 0x3FF0000000000000"
definition float_max_int64 :: float64 where "float_max_int64 = F64 0x43E0000000000000"

definition to_uint64 :: "platform \<Rightarrow> float64 \<Rightarrow> uint64" where
  "to_uint64 p x = (case uint64_of_float x of Some w \<Rightarrow> w | None \<Rightarrow> uint64_unrepresentable p x)"

definition derived_m :: "platform \<Rightarrow> uint64 \<Rightarrow> float64 \<Rightarrow> float64" where
  "derived_m p expectedItems targetFPR =
     f_div (f_mul (f_neg (f_of_nat (unat expectedItems))) (math_log p targetFPR))
       (f_mul float_ln2 float_ln2)"

definition derived_k :: "platform \<Rightarrow> uint64 \<Rightarrow> uint64 \<Rightarrow> byte" where
  "derived_k p m expectedItems =
     (let kFloat = f_round (f_mul (f_div (f_of_nat (unat m)) (f_of_nat (unat expectedItems))) float_ln2)
      in if f_less kFloat (f_of_nat (unat minK)) then minK
         else if f_less (f_of_nat (unat maxK)) kFloat then maxK
         else ucast (to_uint64 p kFloat))"

definition New :: "platform \<Rightarrow> uint64 \<Rightarrow> float64 \<Rightarrow> (bloom_error, bloom_filter) outcome" where
  "New p expectedItems targetFPR =
     (if expectedItems = 0 then Err InvalidExpectedItems
      else if \<not> f_less f_zero targetFPR \<or> \<not> f_less targetFPR float_one
        then Err (InvalidTargetFPR targetFPR)
      else
        let mFloat = derived_m p expectedItems targetFPR
        in if f_le mFloat f_zero \<or> f_less float_max_int64 mFloat
             then Err (DerivedSizeOutOfRange mFloat)
           else
             let m0 = to_uint64 p (f_ceil mFloat);
                 m = (if m0 = 0 then 1 else m0);
                 k = derived_k p m expectedItems;
                 size = (m + 7) div 8
             in bind_ok (make_slice 1 (int (unat size))) (\<lambda>_.
                  Ok \<lparr>bf_m = m, bf_k = k, bf_bits = replicate (unat size) 0, bf_nAdded = 0\<rparr>))"

section \<open>Add and Contains\<close>

text \<open>The i-th probe position \<open>(h1 + uint64(i)*h2) % f.m\<close>.\<close>

definition probe :: "uint64 \<Rightarrow> uint64 \<Rightarrow> uint64 \<Rightarrow> nat \<Rightarrow> (unit, nat) outcome" where
  "probe m h1 h2 i =
     (if m = 0 then Panic DivideByZero else Ok (unat ((h1 + of_nat i * h2) mod m)))"

fun add_bits ::
  "uint64 \<Rightarrow> uint64 \<Rightarrow> uint64 \<Rightarrow> nat list \<Rightarrow> byte list \<Rightarrow> (unit, byte list) outcome" where
  "add_bits m h1 h2 [] bits = Ok bits"
| "add_bits m h1 h2 (i # is) bits =
     bind_ok (probe m h1 h2 i) (\<lambda>idx.
     bind_ok (fetch bits (idx div 8)) (\<lambda>b.
       add_bits m h1 h2 is (bits[idx div 8 := b OR push_bit (idx mod 8) 1])))"

definition Add :: "bloom_filter \<Rightarrow> byte list \<Rightarrow> (unit, bloom_filter) outcome" where
  "Add f key =
     (let (h1, h2) = hash128 key
      in bind_ok (add_bits (bf_m f) h1 h2 [0..<unat (bf_k f)] (bf_bits f)) (\<lambda>bits.
           Ok (f\<lparr>bf_bits := bits, bf_nAdded := bf_nAdded f + 1\<rparr>)))"

fun contains_bits ::
  "uint64 \<Rightarrow> uint64 \<Rightarrow> uint64 \<Rightarrow> nat list \<Rightarrow> byte list \<Rightarrow> (unit, bool) outcome" where
  "contains_bits m h1 h2 [] bits = Ok True"
| "contains_bits m h1 h2 (i # is) bits =
     bind_ok (probe m h1 h2 i) (\<lambda>idx.
     bind_ok (fetch bits (idx div 8)) (\<lambda>b.
       if b AND push_bit (idx mod 8) 1 = 0 then Ok False
       else contains_bits m h1 h2 is bits))"

definition Contains :: "bloom_filter \<Rightarrow> byte list \<Rightarrow> (unit, bool) outcome" where
  "Contains f key =
     (let (h1, h2) = hash128 key
      in contains_bits (bf_m f) h1 h2 [0..<unat (bf_k f)] (bf_bits f))"

definition EstimatedFPR :: "platform \<Rightarrow> bloom_filter \<Rightarrow> float64" where
  "EstimatedFPR p f =
     (if bf_nAdded f = 0 then f_zero
      else
        let k = f_of_nat (unat (bf_k f));
            inner = f_add float_one (f_neg (math_exp p
              (f_div (f_mul (f_neg k) (f_of_nat (unat (bf_nAdded f)))) (f_of_nat (unat (bf_m f))))))
        in math_pow p inner k)"

section \<open>Serialisation\<close>

definition MarshalBinary :: "bloom_filter \<Rightarrow> byte list" where
  "MarshalBinary f =
     putUint64 (bf_m f) @ [bf_k f] @ putUint64 (bf_nAdded f) @
     putUvarint (length (bf_bits f)) @ bf_bits f"

text \<open>The receiver is overwritten only when every check has passed.\<close>

definition UnmarshalBinary :: "byte list \<Rightarrow> (bloom_error, bloom_filter) outcome" where
  "UnmarshalBinary data =
     (if length data < 17 then Err (HeaderTooShort (length data))
      else
        bind_ok (bind_ok (go_slice data 0 8) get_uint64) (\<lambda>m.
        bind_ok (fetch data 8) (\<lambda>k.
        bind_ok (bind_ok (go_slice data 9 17) get_uint64) (\<lambda>nAdded.
        bind_ok (slice_from data 17) (\<lambda>rest.
          (case uvarint rest of
             None \<Rightarrow> Err BadBitsLength
           | Some (bitsLen, n) \<Rightarrow>
               bind_ok (slice_from rest n) (\<lambda>rest.
                 if length rest \<noteq> bitsLen then Err (BitsPayloadMismatch (length rest) bitsLen)
                 else if m = 0 then Err ZeroM
                 else if bitsLen \<noteq> unat ((m + 7) div 8)
                   then Err (BitsLengthMismatch bitsLen m)
                 else if k < minK \<or> maxK < k then Err (KOutOfRange k)
                 else Ok \<lparr>bf_m = m, bf_k = k, bf_bits = rest, bf_nAdded = nAdded\<rparr>)))))))"

section \<open>Well-formed filters\<close>

definition wf_filter :: "bloom_filter \<Rightarrow> bool" where
  "wf_filter f \<longleftrightarrow>
     0 < unat (bf_m f) \<and> length (bf_bits f) = (unat (bf_m f) + 7) div 8 \<and>
     unat (bf_m f) + 7 < 2 ^ 64 \<and> 1 \<le> unat (bf_k f) \<and> unat (bf_k f) \<le> 30"

definition bit_set :: "byte list \<Rightarrow> nat \<Rightarrow> bool" where
  "bit_set bits idx = bit (bits ! (idx div 8)) (idx mod 8)"

definition position :: "uint64 \<Rightarrow> uint64 \<times> uint64 \<Rightarrow> nat \<Rightarrow> nat" where
  "position m h i = unat ((fst h + of_nat i * snd h) mod m)"

lemma probe_Ok: "0 < unat m \<Longrightarrow> probe m h1 h2 i = Ok (position m (h1, h2) i)"
  by (auto simp: probe_def position_def)

lemma position_in_range:
  "0 < unat m \<Longrightarrow> length bits = (unat m + 7) div 8 \<Longrightarrow> position m h i div 8 < length bits"
proof -
  assume m: "0 < unat m" and len: "length bits = (unat m + 7) div 8"
  have "position m h i < unat m"
    unfolding position_def unat_mod using m by (rule mod_less_divisor)
  then have "(position m h i + 8) div 8 \<le> (unat m + 7) div 8"
    by (intro div_le_mono) simp
  then show ?thesis by (simp add: len)
qed

lemma test_bit_iff: "(b :: byte) AND 2 ^ n = 0 \<longleftrightarrow> \<not> bit b n"
  by (rule and_exp_eq_0_iff_not_bit)

lemma bit_set_update:
  assumes "idx div 8 < length bits" "j div 8 < length bits"
  shows "bit_set (bits[idx div 8 := (bits ! (idx div 8)) OR 2 ^ (idx mod 8)]) j \<longleftrightarrow>
    bit_set bits j \<or> j = idx"
proof (cases "j div 8 = idx div 8")
  case True
  have "bit (2 ^ (idx mod 8) :: byte) (j mod 8) \<longleftrightarrow> j mod 8 = idx mod 8"
    by (auto simp: bit_exp_iff possible_bit_word)
  moreover have "j mod 8 = idx mod 8 \<longleftrightarrow> j = idx"
    using True by (metis div_mult_mod_eq)
  ultimately show ?thesis
    using assms True by (simp add: bit_set_def bit_or_iff)
next
  case False
  then show ?thesis using assms by (auto simp: bit_set_def)
qed

lemma add_bits_spec:
  assumes "0 < unat m" "length bits = (unat m + 7) div 8"
  shows "\<exists>bits'. add_bits m h1 h2 is bits = Ok bits' \<and> length bits' = length bits \<and>
    (\<forall>j. j div 8 < length bits \<longrightarrow>
      (bit_set bits' j \<longleftrightarrow> bit_set bits j \<or> j \<in> position m (h1, h2) ` set is))"
  using assms(2)
proof (induction "is" arbitrary: bits)
  case Nil
  show ?case by simp
next
  case (Cons i "is")
  let ?idx = "position m (h1, h2) i"
  let ?bits = "bits[?idx div 8 := (bits ! (?idx div 8)) OR 2 ^ (?idx mod 8)]"
  have r: "?idx div 8 < length bits"
    using assms(1) Cons.prems by (rule position_in_range)
  from Cons.prems have "length ?bits = (unat m + 7) div 8" by simp
  from Cons.IH [OF this] obtain bits' where "add_bits m h1 h2 is ?bits = Ok bits'"
      "length bits' = length bits"
      "\<forall>j. j div 8 < length bits \<longrightarrow>
        (bit_set bits' j \<longleftrightarrow> bit_set ?bits j \<or> j \<in> position m (h1, h2) ` set is)"
    by auto
  with r show ?case
    by (auto simp: probe_Ok [OF assms(1)] bit_set_update)
qed

lemma contains_bits_spec:
  assumes "0 < unat m" "length bits = (unat m + 7) div 8"
  shows "contains_bits m h1 h2 is bits = Ok (\<forall>i \<in> set is. bit_set bits (position m (h1, h2) i))"
proof (induction "is")
  case (Cons i "is")
  have "position m (h1, h2) i div 8 < length bits"
    using assms by (rule position_in_range)
  with Cons show ?case
    by (simp add: probe_Ok [OF assms(1)] test_bit_iff bit_set_def)
qed simp

text \<open>The bits a key owns in a filter of its size.\<close>

definition key_positions :: "bloom_filter \<Rightarrow> byte list \<Rightarrow> nat set" where
  "key_positions f key = position (bf_m f) (hash128 key) ` {0..<unat (bf_k f)}"

definition set_bits_of :: "bloom_filter \<Rightarrow> nat set" where
  "set_bits_of f = {j. j div 8 < length (bf_bits f) \<and> bit_set (bf_bits f) j}"

lemma key_positions_in_range:
  assumes "wf_filter f" "j \<in> key_positions f key"
  shows "j div 8 < length (bf_bits f)"
proof -
  from assms(2) obtain i where "j = position (bf_m f) (hash128 key) i"
    by (auto simp: key_positions_def)
  moreover have "0 < unat (bf_m f)" "length (bf_bits f) = (unat (bf_m f) + 7) div 8"
    using assms(1) by (simp_all add: wf_filter_def)
  ultimately show ?thesis using position_in_range by blast
qed

lemma Contains_spec:
  assumes "wf_filter f"
  shows "Contains f key = Ok (key_positions f key \<subseteq> set_bits_of f)"
proof -
  obtain h1 h2 where h: "hash128 key = (h1, h2)" by (cases "hash128 key")
  have "key_positions f key \<subseteq> set_bits_of f \<longleftrightarrow>
      (\<forall>i < unat (bf_k f). bit_set (bf_bits f) (position (bf_m f) (h1, h2) i))"
    using key_positions_in_range [OF assms, of _ key]
    by (auto simp: key_positions_def set_bits_of_def h image_subset_iff)
  then show ?thesis
    using assms by (simp add: Contains_def h wf_filter_def contains_bits_spec Ball_def)
qed

lemma Add_spec:
  assumes "wf_filter f"
  obtains g where "Add f key = Ok g" "wf_filter g" "bf_m g = bf_m f" "bf_k g = bf_k f"
    "bf_nAdded g = bf_nAdded f + 1" "set_bits_of g = set_bits_of f \<union> key_positions f key"
proof -
  obtain h1 h2 where h: "hash128 key = (h1, h2)" by (cases "hash128 key")
  obtain bits' where b: "add_bits (bf_m f) h1 h2 [0..<unat (bf_k f)] (bf_bits f) = Ok bits'"
      "length bits' = length (bf_bits f)"
      "\<forall>j. j div 8 < length (bf_bits f) \<longrightarrow>
        (bit_set bits' j \<longleftrightarrow> bit_set (bf_bits f) j \<or>
           j \<in> position (bf_m f) (h1, h2) ` set [0..<unat (bf_k f)])"
    using add_bits_spec [of "bf_m f" "bf_bits f" h1 h2 "[0..<unat (bf_k f)]"] assms
    by (auto simp: wf_filter_def)
  let ?g = "f\<lparr>bf_bits := bits', bf_nAdded := bf_nAdded f + 1\<rparr>"
  have "set_bits_of ?g = set_bits_of f \<union> key_positions f key"
    using b(2,3) key_positions_in_range [OF assms, of _ key]
    by (auto simp: set_bits_of_def key_positions_def h)
  then show ?thesis
    using that [of ?g] assms b(1,2) by (simp add: Add_def h wf_filter_def)
qed

section \<open>The contract the write path relies on\<close>

text \<open>
  A membership filter answers every query and accepts every key without panicking, finds a key
  right after adding it, and never forgets one: no false negatives. The filter may answer yes for
  a key that was never added.
\<close>

locale membership_filter =
  fixes contains :: "'f \<Rightarrow> 'k \<Rightarrow> (unit, bool) outcome"
    and add :: "'f \<Rightarrow> 'k \<Rightarrow> (unit, 'f) outcome"
    and inv :: "'f \<Rightarrow> bool"
  assumes contains_total: "inv f \<Longrightarrow> \<exists>b. contains f k = Ok b"
    and add_total: "inv f \<Longrightarrow> \<exists>g. add f k = Ok g \<and> inv g"
    and add_self: "inv f \<Longrightarrow> add f k = Ok g \<Longrightarrow> contains g k = Ok True"
    and add_keeps: "inv f \<Longrightarrow> add f k = Ok g \<Longrightarrow> contains f j = Ok True \<Longrightarrow> contains g j = Ok True"
begin

primrec add_all :: "'f \<Rightarrow> 'k list \<Rightarrow> (unit, 'f) outcome" where
  "add_all f [] = Ok f"
| "add_all f (k # ks) = bind_ok (add f k) (\<lambda>g. add_all g ks)"

lemma add_inv: "inv f \<Longrightarrow> add f k = Ok g \<Longrightarrow> inv g"
  using add_total [of f k] by auto

lemma add_all_total: "inv f \<Longrightarrow> \<exists>g. add_all f ks = Ok g \<and> inv g"
proof (induction ks arbitrary: f)
  case (Cons k ks)
  from add_total [OF Cons.prems, of k] obtain h where "add f k = Ok h" "inv h" by blast
  with Cons.IH show ?case by simp
qed simp

lemma add_all_keeps:
  "inv f \<Longrightarrow> add_all f ks = Ok g \<Longrightarrow> contains f j = Ok True \<Longrightarrow> contains g j = Ok True"
proof (induction ks arbitrary: f)
  case (Cons k ks)
  then obtain h where h: "add f k = Ok h" "add_all h ks = Ok g" by auto
  with Cons.prems have "inv h" "contains h j = Ok True"
    using add_inv add_keeps by blast+
  with Cons.IH h show ?case by blast
qed simp

lemma no_false_negative:
  "inv f \<Longrightarrow> add_all f ks = Ok g \<Longrightarrow> k \<in> set ks \<Longrightarrow> contains g k = Ok True"
proof (induction ks arbitrary: f)
  case (Cons j ks)
  then obtain h where h: "add f j = Ok h" "add_all h ks = Ok g" by auto
  with Cons.prems have inv: "inv h" using add_inv by blast
  show ?case
  proof (cases "k = j")
    case True
    with h Cons.prems have "contains h k = Ok True" using add_self by blast
    with inv h show ?thesis using add_all_keeps by blast
  next
    case False
    with Cons h inv show ?thesis by auto
  qed
qed simp

end

interpretation bloom: membership_filter Contains Add wf_filter
proof
  fix f k g j
  assume wf: "wf_filter f"
  show "\<exists>b. Contains f k = Ok b"
    using wf by (simp add: Contains_spec)
  show "\<exists>g. Add f k = Ok g \<and> wf_filter g"
    using Add_spec [OF wf] by metis
  assume add: "Add f k = Ok g"
  obtain g' where g': "Add f k = Ok g'" "wf_filter g'" "bf_m g' = bf_m f" "bf_k g' = bf_k f"
      "set_bits_of g' = set_bits_of f \<union> key_positions f k"
    using Add_spec [OF wf, of k] by metis
  with add have [simp]: "g' = g" by simp
  have pos: "key_positions g i = key_positions f i" for i
    using g'(3,4) by (simp add: key_positions_def)
  show "Contains g k = Ok True"
    using g' by (simp add: Contains_spec pos)
  assume "Contains f j = Ok True"
  then show "Contains g j = Ok True"
    using g' wf by (auto simp: Contains_spec pos)
qed

primrec Add_all :: "bloom_filter \<Rightarrow> byte list list \<Rightarrow> (unit, bloom_filter) outcome" where
  "Add_all f [] = Ok f"
| "Add_all f (k # ks) = bind_ok (Add f k) (\<lambda>g. Add_all g ks)"

lemma Add_all_eq: "Add_all f ks = bloom.add_all f ks"
  by (induction ks arbitrary: f) simp_all

section \<open>Serialisation round trip\<close>

text \<open>Behind the length check no access is out of range.\<close>

lemma UnmarshalBinary_eq:
  "UnmarshalBinary data =
     (if length data < 17 then Err (HeaderTooShort (length data))
      else case uvarint (drop 17 data) of
          None \<Rightarrow> Err BadBitsLength
        | Some (bitsLen, n) \<Rightarrow>
            let rest = drop n (drop 17 data); m = uint64_le data; k = data ! 8
            in if length rest \<noteq> bitsLen then Err (BitsPayloadMismatch (length rest) bitsLen)
               else if m = 0 then Err ZeroM
               else if bitsLen \<noteq> unat ((m + 7) div 8) then Err (BitsLengthMismatch bitsLen m)
               else if k < minK \<or> maxK < k then Err (KOutOfRange k)
               else Ok \<lparr>bf_m = m, bf_k = k, bf_bits = rest, bf_nAdded = uint64_le (drop 9 data)\<rparr>)"
proof (cases "length data < 17")
  case False
  then show ?thesis
    using uvarint_bounds(2) [of "drop 17 data"]
    by (cases "uvarint (drop 17 data)") (auto simp: UnmarshalBinary_def Let_def)
qed (simp add: UnmarshalBinary_def)

lemma MarshalBinary_parts:
  "uint64_le (MarshalBinary f) = bf_m f"
  "MarshalBinary f ! 8 = bf_k f"
  "uint64_le (drop 9 (MarshalBinary f)) = bf_nAdded f"
  "drop 17 (MarshalBinary f) = putUvarint (length (bf_bits f)) @ bf_bits f"
  "17 \<le> length (MarshalBinary f)"
  by (simp_all add: MarshalBinary_def nth_append)

lemma wf_filter_size:
  assumes "wf_filter f"
  shows "unat ((bf_m f + 7) div 8) = length (bf_bits f)" "length (bf_bits f) < 2 ^ 64" "bf_m f \<noteq> 0"
proof -
  have "unat (bf_m f + 7) = unat (bf_m f) + 7"
    using assms by (simp add: wf_filter_def unat_word_ariths)
  then show "unat ((bf_m f + 7) div 8) = length (bf_bits f)"
    using assms by (simp add: wf_filter_def unat_div)
  show "length (bf_bits f) < 2 ^ 64" "bf_m f \<noteq> 0"
    using assms by (auto simp: wf_filter_def)
qed

lemma wf_filter_k: "wf_filter f \<Longrightarrow> \<not> bf_k f < minK \<and> \<not> maxK < bf_k f"
  by (simp add: wf_filter_def minK_def maxK_def word_less_nat_alt)

lemma UnmarshalBinary_MarshalBinary:
  assumes "wf_filter f"
  shows "UnmarshalBinary (MarshalBinary f) = Ok f"
  using wf_filter_size [OF assms] wf_filter_k [OF assms] MarshalBinary_parts [of f]
  by (simp add: UnmarshalBinary_eq Let_def)

lemma UnmarshalBinary_Ok:
  assumes "UnmarshalBinary data = Ok f"
  shows "bf_m f \<noteq> 0" "length (bf_bits f) = unat ((bf_m f + 7) div 8)"
    "1 \<le> unat (bf_k f)" "unat (bf_k f) \<le> 30"
  using assms
  by (auto simp: UnmarshalBinary_eq Let_def minK_def maxK_def not_less word_le_nat_alt
      Suc_le_eq unat_gt_0 split: if_splits option.splits)

lemma UnmarshalBinary_wf:
  assumes "UnmarshalBinary data = Ok f" "unat (bf_m f) + 7 < 2 ^ 64"
  shows "wf_filter f"
proof -
  have "unat (bf_m f + 7) = unat (bf_m f) + 7"
    using assms(2) by (simp add: unat_word_ariths)
  then show ?thesis
    using UnmarshalBinary_Ok [OF assms(1)] assms(2)
    by (simp add: wf_filter_def unat_div unat_gt_0)
qed

lemma UnmarshalBinary_no_panic: "UnmarshalBinary data \<noteq> Panic p"
  by (simp add: UnmarshalBinary_eq Let_def split: option.splits)

section \<open>Construction yields a well-formed filter\<close>

lemma ln2_props: "f_finite float_ln2" "f_mant float_ln2 \<noteq> 0"
  by (simp_all add: float_ln2_def float_eval)

lemma ln2_sq_props: "f_finite (f_mul float_ln2 float_ln2)" "f_mant (f_mul float_ln2 float_ln2) \<noteq> 0"
  by (simp_all add: float_ln2_def f_mul_def float_eval)

lemma max_int64_props: "f_val float_max_int64 = 2 ^ 63 * int f_unit" "\<not> f_is_nan float_max_int64"
  by (simp_all add: float_max_int64_def f_val_def f_mag_def f_unit_def float_eval)

lemma k_limit_props:
  "f_val (f_of_nat (unat minK)) = int f_unit" "\<not> f_is_nan (f_of_nat (unat minK))"
  "f_val (f_of_nat (unat maxK)) = 30 * int f_unit" "\<not> f_is_nan (f_of_nat (unat maxK))"
  by (simp_all add: minK_def maxK_def f_of_nat_def f_val_def f_mag_def f_unit_def float_eval)

lemma f_unit_pos: "0 < f_unit"
  by (simp add: f_unit_def)

lemma infinite_mag: "\<not> f_finite x \<Longrightarrow> 2 ^ 64 * f_unit \<le> f_mag x"
proof -
  assume "\<not> f_finite x"
  then have "2 ^ 52 * 2 ^ 2046 \<le> f_mag x"
    by (simp add: f_finite_def f_mag_def f_mant_def f_shift_def)
  moreover have "(2::nat) ^ 64 * f_unit \<le> 2 ^ 52 * 2 ^ 2046"
    by (simp add: f_unit_def)
  ultimately show ?thesis by simp
qed

lemma f_val_pos: "0 < f_val x \<Longrightarrow> \<not> f_negative x \<and> f_val x = int (f_mag x)"
  by (auto simp: f_val_def split: if_splits)

lemma f_trunc_bounds:
  assumes "f_mag x \<le> n * f_unit"
  shows "f_trunc x \<le> n"
  using div_le_mono [OF assms, of f_unit] f_unit_pos by (simp add: f_trunc_mag)

text \<open>Rounding up a positive size of at most \<open>2 ^ 63\<close> and converting it stays within \<open>2 ^ 63\<close>.\<close>

lemma uint64_of_ceil:
  assumes "0 < f_val x" "f_mag x \<le> 2 ^ 63 * f_unit"
  obtains w where "uint64_of_float (f_ceil x) = Some w" "unat w \<le> 2 ^ 63"
proof -
  have "\<not> 2 ^ 64 * f_unit \<le> f_mag x"
    using assms(2) f_unit_pos by simp
  then have fin: "f_finite x" using infinite_mag by blast
  define t where "t = (if f_frac_part x = 0 then f_trunc x else Suc (f_trunc x))"
  have t: "t \<le> 2 ^ 63"
  proof (cases "f_frac_part x = 0")
    case True
    then show ?thesis using f_trunc_bounds [OF assms(2)] by (simp add: t_def)
  next
    case False
    then have "f_trunc x \<le> f_mant x"
      by (simp add: f_frac_part_def f_trunc_def split: if_splits)
    then show ?thesis using f_mant_less [of x] by (simp add: t_def)
  qed
  have c: "f_ceil x = f_of_nat t"
    using fin f_val_pos [OF assms(1)] by (simp add: f_ceil_def t_def)
  have "f_finite (f_of_nat t)" using t by (intro f_of_nat_finite) simp
  moreover have "\<not> f_negative (f_of_nat t)"
    unfolding f_of_nat_def using f_pack_fields(1) [OF inf_bits_less [OF round_scaled_le]] by simp
  moreover have u: "f_trunc (f_of_nat t) \<le> 2 ^ 63"
    by (intro f_trunc_bounds f_of_nat_mag_upper t)
  ultimately have "uint64_of_float (f_ceil x) = Some (of_nat (f_trunc (f_of_nat t)))"
    by (simp add: c uint64_of_float_def f_finite_def f_is_nan_def f_is_inf_def)
  moreover have "unat (of_nat (f_trunc (f_of_nat t)) :: 64 word) \<le> 2 ^ 63"
    using u by (simp add: unat_of_nat take_bit_eq_mod)
  ultimately show ?thesis using that by blast
qed

lemma derived_m_not_nan:
  assumes "n \<noteq> 0" "\<not> f_is_nan (math_log p fpr)"
  shows "\<not> f_is_nan (derived_m p n fpr)"
proof -
  have "0 < unat n" using assms(1) by (simp add: unat_gt_0)
  moreover have "unat n \<le> 2 ^ 64"
    using unsigned_less [of n, where 'a = nat] by simp
  ultimately show ?thesis
    unfolding derived_m_def using assms(2) ln2_sq_props
    by (intro f_div_not_nan f_mul_not_nan) (simp_all add: f_of_nat_finite f_of_nat_nonzero)
qed

lemma derived_k_range:
  assumes "n \<noteq> 0"
  shows "1 \<le> unat (derived_k p m n) \<and> unat (derived_k p m n) \<le> 30"
proof -
  have le: "unat w \<le> 2 ^ 64" for w :: uint64
    using unsigned_less [of w, where 'a = nat] by simp
  define q where "q = f_div (f_of_nat (unat m)) (f_of_nat (unat n))"
  have "\<not> f_is_nan q"
    unfolding q_def using assms le
    by (intro f_div_not_nan) (simp_all add: f_of_nat_finite f_of_nat_nonzero f_finite_not_nan unat_gt_0)
  then have "\<not> f_is_nan (f_mul float_ln2 q)"
    using ln2_props by (intro f_mul_not_nan)
  then have nan: "\<not> f_is_nan (f_round (f_mul q float_ln2))"
    by (simp add: f_mul_comm f_round_not_nan)
  define x where "x = f_round (f_mul q float_ln2)"
  have "1 \<le> unat (ucast (to_uint64 p x) :: byte) \<and> unat (ucast (to_uint64 p x) :: byte) \<le> 30"
    if "\<not> f_less x (f_of_nat (unat minK))" "\<not> f_less (f_of_nat (unat maxK)) x"
  proof -
    have v: "int f_unit \<le> f_val x" "f_val x \<le> 30 * int f_unit"
      using that nan k_limit_props by (simp_all add: f_less_def not_less flip: x_def)
    then have pos: "\<not> f_negative x" "f_val x = int (f_mag x)"
      using f_unit_pos f_val_pos [of x] by auto
    have mag: "1 * f_unit \<le> f_mag x" "f_mag x \<le> 30 * f_unit"
      using v pos by simp_all
    have "1 \<le> f_trunc x"
      using div_le_mono [OF mag(1), of f_unit] f_unit_pos by (simp add: f_trunc_mag)
    moreover have "f_trunc x \<le> 30"
      using mag(2) by (rule f_trunc_bounds)
    moreover have "\<not> 2 ^ 64 * f_unit \<le> f_mag x"
      using mag(2) f_unit_pos by simp
    then have "f_finite x" using infinite_mag by blast
    ultimately show ?thesis
      using pos by (simp add: to_uint64_def uint64_of_float_def f_finite_def f_is_nan_def f_is_inf_def
          unsigned_ucast_eq unat_of_nat take_bit_eq_mod)
  qed
  then show ?thesis
    by (simp add: derived_k_def Let_def minK_def maxK_def flip: q_def x_def)
qed

lemma New_wf:
  assumes "New p n fpr = Ok f" "\<not> f_is_nan (math_log p fpr)"
  shows "wf_filter f \<and> unat (bf_m f) \<le> 2 ^ 63 \<and> bf_nAdded f = 0 \<and> set_bits_of f = {}"
proof -
  let ?x = "derived_m p n fpr"
  define m0 where "m0 = to_uint64 p (f_ceil ?x)"
  define m where "m = (if m0 = 0 then 1 else m0)"
  have n: "n \<noteq> 0" and le: "\<not> f_le ?x f_zero" and lt: "\<not> f_less float_max_int64 ?x"
    and f: "f = \<lparr>bf_m = m, bf_k = derived_k p m n, bf_bits = replicate (unat ((m + 7) div 8)) 0, bf_nAdded = 0\<rparr>"
    using assms(1) unfolding New_def Let_def m0_def [symmetric] m_def [symmetric]
    by (simp_all split: if_splits)
  have nan: "\<not> f_is_nan ?x" using n assms(2) by (rule derived_m_not_nan)
  have pos: "0 < f_val ?x"
    using le nan by (simp add: f_le_def)
  have "f_val ?x \<le> 2 ^ 63 * int f_unit"
    using lt nan max_int64_props by (simp add: f_less_def not_less)
  with f_val_pos [OF pos] have "int (f_mag ?x) \<le> int (2 ^ 63 * f_unit)" by simp
  then have "f_mag ?x \<le> 2 ^ 63 * f_unit" by (simp only: of_nat_le_iff)
  with pos obtain w where "uint64_of_float (f_ceil ?x) = Some w" "unat w \<le> 2 ^ 63"
    by (rule uint64_of_ceil)
  then have "unat m0 \<le> 2 ^ 63"
    by (simp add: m0_def to_uint64_def)
  then have m: "0 < unat m" "unat m \<le> 2 ^ 63"
    by (auto simp: m_def unat_gt_0)
  then have "unat (m + 7) = unat m + 7"
    by (simp add: unat_word_ariths)
  then have "wf_filter f"
    using m derived_k_range [OF n, of p m] by (simp add: f wf_filter_def unat_div)
  then show ?thesis
    using m by (auto simp: f set_bits_of_def bit_set_def)
qed

section \<open>A concrete filter\<close>

text \<open>
  One expected item at a rate of one half: two bits and one hash function. The platform is one
  whose logarithm of \<open>0.5\<close> is the correctly rounded one.
\<close>

definition example_platform :: platform where
  "example_platform =
     \<lparr>math_log = (\<lambda>_. F64 0xBFE62E42FEFA39EF), math_exp = (\<lambda>x. x), math_pow = (\<lambda>x y. x),
      uint64_unrepresentable = (\<lambda>_. 0)\<rparr>"

definition float_half :: float64 where "float_half = F64 0x3FE0000000000000"

lemmas bloom_eval =
  Contains_def Add_def hash128_def fnv128a_def fnv128_offset_def fnv128_prime_def probe_def

lemma derived_m_example: "derived_m example_platform 1 float_half = F64 0x3FF71547652B82FE"
proof -
  have "f_mul (f_neg (f_of_nat 1)) (F64 0xBFE62E42FEFA39EF) = F64 0x3FE62E42FEFA39EF"
    by (simp add: f_mul_def f_neg_def f_of_nat_def float_eval cong: let_weak_cong)
  moreover have "f_mul float_ln2 float_ln2 = F64 0x3FDEBFBDFF82C58E"
    by (simp add: f_mul_def float_ln2_def float_eval cong: let_weak_cong)
  moreover have "f_div (F64 0x3FE62E42FEFA39EF) (F64 0x3FDEBFBDFF82C58E) = F64 0x3FF71547652B82FE"
    by (simp add: f_div_def float_eval cong: let_weak_cong)
  ultimately show ?thesis by (simp add: derived_m_def example_platform_def)
qed

lemma New_example:
  "New example_platform 1 float_half = Ok \<lparr>bf_m = 2, bf_k = 1, bf_bits = [0], bf_nAdded = 0\<rparr>"
proof -
  have "derived_k p 2 1 = 1" for p
    by (simp add: derived_k_def minK_def maxK_def f_less_def f_val_def f_mag_def to_uint64_def
        uint64_of_float_def f_of_nat_def f_mul_def f_div_def f_round_def float_ln2_def float_eval
        cong: let_weak_cong)
  moreover have "to_uint64 p (f_ceil (F64 0x3FF71547652B82FE)) = 2" for p
    by (simp add: to_uint64_def f_ceil_def uint64_of_float_def f_of_nat_def float_eval)
  moreover have "f_less f_zero float_half" "f_less float_half float_one"
    "\<not> f_le (F64 0x3FF71547652B82FE) f_zero" "\<not> f_less float_max_int64 (F64 0x3FF71547652B82FE)"
    by (simp_all add: float_half_def float_one_def f_le_def f_less_def f_val_def f_mag_def
        float_max_int64_def f_zero_def float_eval)
  ultimately show ?thesis
    using derived_m_example by (simp add: New_def max_alloc_def)
qed

lemma example_log_not_nan: "\<not> f_is_nan (math_log example_platform float_half)"
  by (simp add: example_platform_def float_eval)

lemma wf_example: "wf_filter \<lparr>bf_m = 2, bf_k = 1, bf_bits = [0], bf_nAdded = 0\<rparr>"
  by (simp add: wf_filter_def)

section \<open>Properties\<close>

lemma empty_filter_contains:
  assumes "wf_filter f" "set_bits_of f = {}"
  shows "Contains f key = Ok False"
proof -
  have "0 < unat (bf_k f)" using assms(1) by (simp add: wf_filter_def)
  then have "key_positions f key \<noteq> {}" by (auto simp: key_positions_def)
  with assms show ?thesis by (simp add: Contains_spec)
qed

text \<open>
  C13: a filter that \<open>New\<close> returns never gives a false negative. Adding any keys succeeds, and every
  added key is then contained. The one hypothesis beside success of \<open>New\<close> is on the platform:
  \<open>math.Log\<close> of the target rate is a number.
\<close>

theorem bloom_no_false_negatives:
  assumes "New p expectedItems targetFPR = Ok f" "\<not> f_is_nan (math_log p targetFPR)"
  shows "\<exists>g. Add_all f keys = Ok g \<and> wf_filter g \<and> (\<forall>key \<in> set keys. Contains g key = Ok True)"
proof -
  have wf: "wf_filter f" using New_wf [OF assms] by simp
  then obtain g where g: "bloom.add_all f keys = Ok g" "wf_filter g"
    using bloom.add_all_total by blast
  with wf show ?thesis
    using bloom.no_false_negative by (auto simp: Add_all_eq)
qed

theorem bloom_no_false_negatives_witness:
  "\<exists>f g. New example_platform 1 float_half = Ok f \<and> Add_all f [[7], [9]] = Ok g \<and> Contains g [9] = Ok True"
  using bloom_no_false_negatives [OF New_example example_log_not_nan, of "[[7], [9]]"] New_example by auto

text \<open>
  C33: what \<open>New\<close> builds. The filter has between 1 and \<open>2 ^ 63\<close> bits in an array of exactly
  \<open>ceil(m / 8)\<close> bytes, between 1 and 30 hash functions, no item, and contains no key.
\<close>

theorem New_builds_empty_filter:
  assumes "New p expectedItems targetFPR = Ok f" "\<not> f_is_nan (math_log p targetFPR)"
  shows "1 \<le> unat (bf_m f) \<and> unat (bf_m f) \<le> 2 ^ 63 \<and>
    length (bf_bits f) = (unat (bf_m f) + 7) div 8 \<and> 1 \<le> unat (bf_k f) \<and> unat (bf_k f) \<le> 30 \<and>
    bf_nAdded f = 0 \<and> (\<forall>key. Contains f key = Ok False)"
  using New_wf [OF assms] empty_filter_contains [of f] by (auto simp: wf_filter_def)

theorem New_builds_empty_filter_witness:
  "\<exists>f. New example_platform 1 float_half = Ok f \<and> Contains f [3] = Ok False"
  using New_builds_empty_filter [OF New_example example_log_not_nan] New_example by blast

text \<open>
  C34: \<open>Add\<close> and \<open>Contains\<close> on a well-formed filter are the operations of a set of bit positions.
  \<open>Contains\<close> asks whether all positions of the key are set; \<open>Add\<close> sets exactly these, keeps the
  shape of the filter and counts the call.
\<close>

theorem Add_Contains_bits:
  assumes "wf_filter f"
  shows "Contains f key = Ok (key_positions f key \<subseteq> set_bits_of f) \<and>
    (\<exists>g. Add f key = Ok g \<and> wf_filter g \<and> bf_m g = bf_m f \<and> bf_k g = bf_k f \<and>
       bf_nAdded g = bf_nAdded f + 1 \<and> set_bits_of g = set_bits_of f \<union> key_positions f key)"
  using Contains_spec [OF assms] Add_spec [OF assms, of key] by metis

theorem Add_Contains_bits_witness:
  "Contains \<lparr>bf_m = 2, bf_k = 1, bf_bits = [0], bf_nAdded = 0\<rparr> [7] =
    Ok (key_positions \<lparr>bf_m = 2, bf_k = 1, bf_bits = [0], bf_nAdded = 0\<rparr> [7] \<subseteq>
        set_bits_of \<lparr>bf_m = 2, bf_k = 1, bf_bits = [0], bf_nAdded = 0\<rparr>)"
  using Add_Contains_bits [OF wf_example] by blast

text \<open>C35: unmarshalling what was marshalled restores the filter, its counter included.\<close>

theorem filter_roundtrip:
  assumes "wf_filter f"
  shows "UnmarshalBinary (MarshalBinary f) = Ok f"
  using assms by (rule UnmarshalBinary_MarshalBinary)

theorem filter_roundtrip_witness:
  "UnmarshalBinary (MarshalBinary \<lparr>bf_m = 2, bf_k = 1, bf_bits = [0], bf_nAdded = 0\<rparr>) =
    Ok \<lparr>bf_m = 2, bf_k = 1, bf_bits = [0], bf_nAdded = 0\<rparr>"
  by (rule filter_roundtrip [OF wf_example])

text \<open>
  C36: \<open>UnmarshalBinary\<close> on arbitrary bytes never panics: no index or slice of its input is out of range. A filter it accepts, of fewer than
  \<open>2 ^ 64 - 7\<close> bits, is well-formed: every later \<open>Contains\<close> and \<open>Add\<close> stays inside the array.
\<close>

theorem UnmarshalBinary_sound:
  "\<not> panics (UnmarshalBinary data) \<and>
   (\<forall>f. UnmarshalBinary data = Ok f \<longrightarrow> unat (bf_m f) + 7 < 2 ^ 64 \<longrightarrow>
      wf_filter f \<and> \<not> panics (Contains f key) \<and> \<not> panics (Add f key))"
proof -
  have "wf_filter f \<and> \<not> panics (Contains f key) \<and> \<not> panics (Add f key)"
    if "UnmarshalBinary data = Ok f" "unat (bf_m f) + 7 < 2 ^ 64" for f
  proof -
    have "wf_filter f" using that by (rule UnmarshalBinary_wf)
    then show ?thesis
      using bloom.contains_total [of f key] bloom.add_total [of f key] by auto
  qed
  then show ?thesis
    using UnmarshalBinary_no_panic by (auto simp: panics_iff)
qed

theorem UnmarshalBinary_sound_witness:
  "\<exists>f. UnmarshalBinary [2, 0, 0, 0, 0, 0, 0, 0, 1, 0, 0, 0, 0, 0, 0, 0, 0, 1, 3] = Ok f \<and> wf_filter f \<and>
     \<not> panics (Contains f [5]) \<and> \<not> panics (Add f [5]) \<and> \<not> panics (UnmarshalBinary [2, 0, 0, 0])"
proof -
  have "UnmarshalBinary [2, 0, 0, 0, 0, 0, 0, 0, 1, 0, 0, 0, 0, 0, 0, 0, 0, 1, 3] =
      Ok \<lparr>bf_m = 2, bf_k = 1, bf_bits = [3], bf_nAdded = 0\<rparr>"
    by (simp add: UnmarshalBinary_eq uint64_le_def uvarint_def minK_def maxK_def)
  with UnmarshalBinary_sound [of "[2, 0, 0, 0, 0, 0, 0, 0, 1, 0, 0, 0, 0, 0, 0, 0, 0, 1, 3]" "[5]"]
    UnmarshalBinary_sound [of "[2, 0, 0, 0]"]
  show ?thesis by auto
qed

text \<open>
  The size check of \<open>UnmarshalBinary\<close> wraps around. For \<open>m = 2 ^ 64 - 1\<close> the expected length
  \<open>(m + 7) / 8\<close> is 0, so 18 bytes without any bit are accepted, and the first \<open>Contains\<close> or \<open>Add\<close>
  on the filter panics with an index out of range.
\<close>

theorem UnmarshalBinary_accepts_empty_bits:
  "\<exists>f. UnmarshalBinary [255, 255, 255, 255, 255, 255, 255, 255, 1, 0, 0, 0, 0, 0, 0, 0, 0, 0] = Ok f \<and>
     Contains f [] = Panic IndexOutOfRange \<and> Add f [] = Panic IndexOutOfRange"
proof -
  let ?f = "\<lparr>bf_m = 0xFFFFFFFFFFFFFFFF, bf_k = 1, bf_bits = [], bf_nAdded = 0\<rparr>"
  have "UnmarshalBinary [255, 255, 255, 255, 255, 255, 255, 255, 1, 0, 0, 0, 0, 0, 0, 0, 0, 0] = Ok ?f"
    by (simp add: UnmarshalBinary_eq uint64_le_def uvarint_def minK_def maxK_def)
  moreover have "Contains ?f [] = Panic IndexOutOfRange" "Add ?f [] = Panic IndexOutOfRange"
    by (simp_all add: bloom_eval)
  ultimately show ?thesis by blast
qed

text \<open>
  \<open>New\<close> does not refuse every size it cannot allocate. For \<open>2 ^ 60\<close> expected items the derived
  size passes the range check against \<open>math.MaxInt64\<close>, and \<open>make\<close> panics instead of an
  \<open>ErrInvalidParameters\<close>.
\<close>

theorem New_panics_on_huge_size:
  "New example_platform 0x1000000000000000 float_half = Panic MakeSliceOutOfRange"
proof -
  have "f_mul (f_neg (f_of_nat 0x1000000000000000)) (F64 0xBFE62E42FEFA39EF) = F64 0x43A62E42FEFA39EF"
    by (simp add: f_mul_def f_neg_def f_of_nat_def float_eval cong: let_weak_cong)
  moreover have "f_mul float_ln2 float_ln2 = F64 0x3FDEBFBDFF82C58E"
    by (simp add: f_mul_def float_ln2_def float_eval cong: let_weak_cong)
  moreover have "f_div (F64 0x43A62E42FEFA39EF) (F64 0x3FDEBFBDFF82C58E) = F64 0x43B71547652B82FE"
    by (simp add: f_div_def float_eval cong: let_weak_cong)
  ultimately have "derived_m example_platform 0x1000000000000000 float_half = F64 0x43B71547652B82FE"
    by (simp add: derived_m_def example_platform_def)
  moreover have "to_uint64 p (f_ceil (F64 0x43B71547652B82FE)) = 0x171547652B82FE00" for p
    by (simp add: to_uint64_def f_ceil_def uint64_of_float_def f_of_nat_def float_eval cong: let_weak_cong)
  moreover have "f_less f_zero float_half" "f_less float_half float_one"
    "\<not> f_le (F64 0x43B71547652B82FE) f_zero" "\<not> f_less float_max_int64 (F64 0x43B71547652B82FE)"
    by (simp_all add: float_half_def float_one_def f_le_def f_less_def f_val_def f_mag_def
        float_max_int64_def f_zero_def float_eval)
  ultimately show ?thesis
    by (simp add: New_def make_slice_def max_alloc_def)
qed

end
