(* ===== verification/Encoding.thy ===== *)
theory Encoding
  imports Types
begin

text \<open>
  \<open>storage/encoding.go\<close>: the encoding tags and the raw column encodings. The locale
  \<open>column_codec\<close> states what the segment layer needs from any column encoding; the raw and the
  run-length codecs of the three column types are its interpretations.
\<close>

section \<open>Encoding tags\<close>

text \<open>An \<open>Encoding\<close> is a \<open>uint8\<close>: values without a name are \<open>OtherEncoding\<close>.\<close>

datatype encoding = EncodingRaw | EncodingRLE | OtherEncoding byte

fun encoding_string :: "encoding \<Rightarrow> string" where
  "encoding_string EncodingRaw = ''raw''"
| "encoding_string EncodingRLE = ''rle''"
| "encoding_string (OtherEncoding b) = ''Encoding('' @ format_nat (unat b) @ '')''"

definition encoding_to_byte :: "encoding \<Rightarrow> byte" where
  "encoding_to_byte e = (case e of EncodingRaw \<Rightarrow> 0 | EncodingRLE \<Rightarrow> 1 | OtherEncoding b \<Rightarrow> b)"

definition encoding_of_byte :: "byte \<Rightarrow> encoding" where
  "encoding_of_byte b = (if b = 0 then EncodingRaw else if b = 1 then EncodingRLE else OtherEncoding b)"

definition chooseEncoding :: "'a list \<Rightarrow> encoding" where
  "chooseEncoding values = EncodingRLE"

section \<open>What the segment layer needs from a column encoding\<close>

text \<open>
  \<open>elem_size\<close> is the size of a decoded element, \<open>fits\<close> the values the encoder is given. The
  decoder gets the number of rows the segment header promises.
\<close>

locale column_codec =
  fixes enc :: "'a list \<Rightarrow> byte list"
    and dec :: "byte list \<Rightarrow> int \<Rightarrow> ('e, 'a list) outcome"
    and elem_size :: int
    and fits :: "'a list \<Rightarrow> bool"
  assumes dec_enc: "fits xs \<Longrightarrow> elem_size * int (length xs) \<le> max_alloc \<Longrightarrow>
      dec (enc xs) (int (length xs)) = Ok xs"
    and dec_rows: "dec bs n = Ok xs \<Longrightarrow> int (length xs) = n"
    and dec_total: "0 \<le> n \<Longrightarrow> elem_size * n \<le> max_alloc \<Longrightarrow> \<not> panics (dec bs n)"
begin

lemma enc_inject:
  assumes "fits xs" "fits ys" "length xs = length ys" "elem_size * int (length xs) \<le> max_alloc"
  shows "enc xs = enc ys \<longleftrightarrow> xs = ys"
  using assms by (metis dec_enc outcome.inject(1))

lemma dec_cases:
  assumes "0 \<le> n" "elem_size * n \<le> max_alloc"
  obtains (ok) xs where "dec bs n = Ok xs" "length xs = nat n" | (err) e where "dec bs n = Err e"
  using dec_total [OF assms, of bs] dec_rows [of bs n] by (cases "dec bs n") auto

end

section \<open>Raw encodings\<close>

datatype raw_error =
    RawLength nat int
  | RawTooManyElements int
  | RawBadLength nat
  | RawTruncated nat nat
  | RawRowCount nat int

definition encodeRawInt64 :: "int64 list \<Rightarrow> byte list" where
  "encodeRawInt64 values = concat (map putUint64 values)"

definition decodeRawInt64 :: "byte list \<Rightarrow> int \<Rightarrow> (raw_error, int64 list) outcome" where
  "decodeRawInt64 data expectedRows =
     (if int (length data) \<noteq> wrap_int (8 * expectedRows)
      then Err (RawLength (length data) (wrap_int (8 * expectedRows)))
      else bind_ok (make_slice 8 expectedRows) (\<lambda>_.
        collect (\<lambda>i. bind_ok (slice_from data (i * 8)) get_uint64) [0..<nat expectedRows]))"

definition encodeRawFloat64 :: "float64 list \<Rightarrow> byte list" where
  "encodeRawFloat64 values = concat (map (\<lambda>v. putUint64 (float64bits v)) values)"

definition decodeRawFloat64 :: "byte list \<Rightarrow> int \<Rightarrow> (raw_error, float64 list) outcome" where
  "decodeRawFloat64 data expectedRows =
     (if int (length data) \<noteq> wrap_int (8 * expectedRows)
      then Err (RawLength (length data) (wrap_int (8 * expectedRows)))
      else bind_ok (make_slice 8 expectedRows) (\<lambda>_.
        collect (\<lambda>i. bind_ok (bind_ok (slice_from data (i * 8)) get_uint64) (\<lambda>v. Ok (F64 v))) [0..<nat expectedRows]))"

definition encodeRawString :: "string list \<Rightarrow> byte list" where
  "encodeRawString values = concat (map (\<lambda>s. putUvarint (length s) @ bytes_of s) values)"

text \<open>The decoding loop over \<open>offset\<close>; each round consumes at least the varint.\<close>

function decode_raw_strings ::
  "byte list \<Rightarrow> int \<Rightarrow> nat \<Rightarrow> string list \<Rightarrow> (raw_error, string list) outcome" where
  "decode_raw_strings data expectedRows offset out =
     (if offset < length data then
        (if expectedRows \<le> int (length out) then Err (RawTooManyElements expectedRows)
         else
           (case slice_from data offset of
              Err e \<Rightarrow> Err e
            | Panic p \<Rightarrow> Panic p
            | Ok rest \<Rightarrow>
                (case uvarint rest of
                   None \<Rightarrow> Err (RawBadLength offset)
                 | Some (strLen, n) \<Rightarrow>
                     if length data - (offset + n) < strLen then Err (RawTruncated (offset + n) strLen)
                     else
                       (case go_slice data (offset + n) (offset + n + strLen) of
                          Err e \<Rightarrow> Err e
                        | Panic p \<Rightarrow> Panic p
                        | Ok bytes \<Rightarrow>
                            decode_raw_strings data expectedRows (offset + n + strLen) (out @ [string_of bytes])))))
      else if int (length out) \<noteq> expectedRows then Err (RawRowCount (length out) expectedRows)
      else Ok out)"
  by pat_completeness auto
termination
  by (relation "measure (\<lambda>(data, expectedRows, offset, out). length data - offset)")
    (auto simp: slice_from_Ok_iff dest: uvarint_bounds)

text \<open>With its checks, no slice of the loop is out of range.\<close>

lemma decode_raw_strings_eq:
  "decode_raw_strings data expectedRows offset out =
     (if offset < length data then
        (if expectedRows \<le> int (length out) then Err (RawTooManyElements expectedRows)
         else case uvarint (drop offset data) of
             None \<Rightarrow> Err (RawBadLength offset)
           | Some (strLen, n) \<Rightarrow>
               if length data - (offset + n) < strLen then Err (RawTruncated (offset + n) strLen)
               else decode_raw_strings data expectedRows (offset + n + strLen)
                      (out @ [string_of (take strLen (drop (offset + n) data))]))
      else if int (length out) \<noteq> expectedRows then Err (RawRowCount (length out) expectedRows)
      else Ok out)"
proof (cases "offset < length data \<and> uvarint (drop offset data) \<noteq> None")
  case True
  then obtain l n where u: "uvarint (drop offset data) = Some (l, n)" by auto
  have s: "(go_slice data (offset + n) (offset + n + l) :: (raw_error, _) outcome) = Ok (take l (drop (offset + n) data))"
    if "\<not> length data - (offset + n) < l"
    using uvarint_fits(2) [OF u that] by simp
  show ?thesis
  proof (cases "length data - (offset + n) < l")
    case False
    from s [OF this] show ?thesis using True False by (subst decode_raw_strings.simps) (simp add: u)
  qed (use True in \<open>subst decode_raw_strings.simps, simp add: u\<close>)
qed (subst decode_raw_strings.simps, auto split: option.split)

declare decode_raw_strings.simps [simp del]

definition decodeRawString :: "byte list \<Rightarrow> int \<Rightarrow> (raw_error, string list) outcome" where
  "decodeRawString data expectedRows =
     bind_ok (make_slice 16 expectedRows) (\<lambda>_. decode_raw_strings data expectedRows 0 [])"

section \<open>Round trips\<close>

lemma length_concat_fixed: "\<forall>x \<in> set xs. length (f x) = w \<Longrightarrow> length (concat (map f xs)) = w * length xs"
  by (induction xs) auto

lemma drop_concat_fixed:
  assumes "\<forall>x \<in> set xs. length (f x) = w" "i < length xs"
  shows "drop (i * w) (concat (map f xs)) = f (xs ! i) @ concat (map f (drop (Suc i) xs))"
  using assms
proof (induction xs arbitrary: i)
  case (Cons x xs)
  then show ?case by (cases i) auto
qed simp

lemma map_uint64_chunks:
  "map (\<lambda>i. uint64_le (drop (i * 8) (concat (map (\<lambda>v. putUint64 (g v)) xs)))) [0..<length xs] = map g xs"
  by (rule nth_equalityI) (simp_all add: drop_concat_fixed)

lemma collect_chunks:
  assumes "length data = 8 * n"
  shows "collect (\<lambda>i. bind_ok (slice_from data (i * 8)) get_uint64) [0..<n] =
      Ok (map (\<lambda>i. uint64_le (drop (i * 8) data)) [0..<n])"
    "collect (\<lambda>i. bind_ok (bind_ok (slice_from data (i * 8)) get_uint64) (\<lambda>v. Ok (g v))) [0..<n] =
      Ok (map (\<lambda>i. g (uint64_le (drop (i * 8) data))) [0..<n])"
  using assms by (auto intro!: collect_Ok)

lemma max_alloc_wrap: "0 \<le> n \<Longrightarrow> 8 * n \<le> max_alloc \<Longrightarrow> wrap_int (8 * n) = 8 * n"
  by (rule wrap_int_id) (simp_all add: max_alloc_def)

lemma panics_make_slice [simp]: "panics (make_slice w n) \<longleftrightarrow> n < 0 \<or> max_alloc < w * n"
  by (simp add: make_slice_def)

lemma make_slice_Ok_iff [simp]: "make_slice w n = Ok u \<longleftrightarrow> 0 \<le> n \<and> w * n \<le> max_alloc"
  by (auto simp: make_slice_def)

text \<open>Behind the length check and \<open>make\<close> the loops of the fixed-width decoders stay in the payload.\<close>

lemma decodeRawInt64_eq:
  "decodeRawInt64 data rows =
     (if int (length data) \<noteq> wrap_int (8 * rows) then Err (RawLength (length data) (wrap_int (8 * rows)))
      else bind_ok (make_slice 8 rows) (\<lambda>_. Ok (map (\<lambda>i. uint64_le (drop (i * 8) data)) [0..<nat rows])))"
proof (cases "int (length data) = wrap_int (8 * rows) \<and> 0 \<le> rows \<and> 8 * rows \<le> max_alloc")
  case True
  then have "length data = 8 * nat rows" using max_alloc_wrap [of rows] by linarith
  from collect_chunks(1) [OF this] True show ?thesis by (auto simp: decodeRawInt64_def)
qed (auto simp: decodeRawInt64_def make_slice_def)

lemma decodeRawFloat64_eq:
  "decodeRawFloat64 data rows =
     (if int (length data) \<noteq> wrap_int (8 * rows) then Err (RawLength (length data) (wrap_int (8 * rows)))
      else bind_ok (make_slice 8 rows) (\<lambda>_. Ok (map (\<lambda>i. F64 (uint64_le (drop (i * 8) data))) [0..<nat rows])))"
proof (cases "int (length data) = wrap_int (8 * rows) \<and> 0 \<le> rows \<and> 8 * rows \<le> max_alloc")
  case True
  then have "length data = 8 * nat rows" using max_alloc_wrap [of rows] by linarith
  from collect_chunks(2) [OF this] True show ?thesis by (auto simp: decodeRawFloat64_def)
qed (auto simp: decodeRawFloat64_def make_slice_def)

interpretation raw_int64: column_codec encodeRawInt64 decodeRawInt64 8 "\<lambda>_. True"
proof
  fix xs :: "int64 list"
  assume "8 * int (length xs) \<le> max_alloc"
  then show "decodeRawInt64 (encodeRawInt64 xs) (int (length xs)) = Ok xs"
    using map_uint64_chunks [of "\<lambda>x. x" xs]
    by (simp add: decodeRawInt64_eq encodeRawInt64_def max_alloc_wrap length_concat_fixed [where w = 8])
qed (auto simp: decodeRawInt64_eq panics_bind_ok split: if_splits)

interpretation raw_float64: column_codec encodeRawFloat64 decodeRawFloat64 8 "\<lambda>_. True"
proof
  fix xs :: "float64 list"
  assume "8 * int (length xs) \<le> max_alloc"
  moreover have "map (\<lambda>i. F64 (uint64_le (drop (i * 8) (encodeRawFloat64 xs)))) [0..<length xs] =
      map F64 (map float64bits xs)"
    unfolding encodeRawFloat64_def map_uint64_chunks [of float64bits xs, symmetric] by simp
  moreover have "map F64 (map float64bits xs) = xs"
    by (simp add: comp_def)
  ultimately show "decodeRawFloat64 (encodeRawFloat64 xs) (int (length xs)) = Ok xs"
    by (simp add: decodeRawFloat64_eq max_alloc_wrap)
      (simp add: encodeRawFloat64_def length_concat_fixed [where w = 8])
qed (auto simp: decodeRawFloat64_eq panics_bind_ok split: if_splits)

lemma decode_raw_strings_enc:
  assumes "\<forall>s \<in> set xs. length s < 2 ^ 64"
  shows "decode_raw_strings (pre @ encodeRawString xs) (int (length out + length xs)) (length pre) out =
    Ok (out @ xs)"
  using assms
proof (induction xs arbitrary: pre out)
  case Nil
  show ?case by (subst decode_raw_strings_eq) (simp add: encodeRawString_def)
next
  case (Cons s xs)
  let ?l = "putUvarint (length s)" and ?rest = "encodeRawString xs"
  have data: "pre @ encodeRawString (s # xs) = (pre @ ?l @ bytes_of s) @ ?rest"
    by (simp add: encodeRawString_def)
  have "decode_raw_strings ((pre @ ?l @ bytes_of s) @ ?rest) (int (length (out @ [s]) + length xs))
      (length (pre @ ?l @ bytes_of s)) (out @ [s]) = Ok ((out @ [s]) @ xs)"
    using Cons.prems by (intro Cons.IH) simp
  with Cons.prems show ?case
    unfolding data by (subst decode_raw_strings_eq) (simp add: add.assoc)
qed

lemma decode_raw_strings_rows:
  "decode_raw_strings data n offset out = Ok xs \<Longrightarrow> int (length xs) = n"
  by (induction data n offset out rule: decode_raw_strings.induct)
    (subst (asm) (2) decode_raw_strings_eq, auto simp: uvarint_fits split: if_splits option.splits)

lemma decode_raw_strings_no_panic: "\<not> panics (decode_raw_strings data n offset out)"
  by (induction data n offset out rule: decode_raw_strings.induct)
    (subst decode_raw_strings_eq, auto simp: uvarint_fits split: option.splits)

interpretation raw_string: column_codec encodeRawString decodeRawString 16
  "\<lambda>xs. \<forall>s \<in> set xs. length s < 2 ^ 64"
proof
  fix xs :: "string list"
  assume "\<forall>s \<in> set xs. length s < 2 ^ 64" "16 * int (length xs) \<le> max_alloc"
  then show "decodeRawString (encodeRawString xs) (int (length xs)) = Ok xs"
    using decode_raw_strings_enc [of xs "[]" "[]"] by (simp add: decodeRawString_def)
qed (auto simp: decodeRawString_def panics_bind_ok decode_raw_strings_no_panic
      dest: decode_raw_strings_rows)

lemma encoding_of_to_byte:
  "encoding_of_byte (encoding_to_byte e) = e \<longleftrightarrow> e \<noteq> OtherEncoding 0 \<and> e \<noteq> OtherEncoding 1"
  by (cases e) (auto simp: encoding_of_byte_def encoding_to_byte_def)

lemma encoding_to_of_byte [simp]: "encoding_to_byte (encoding_of_byte b) = b"
  by (simp add: encoding_of_byte_def encoding_to_byte_def)

end
