(* ===== verification/Rle.thy ===== *)
theory Rle
  imports Encoding
begin

text \<open>
  \<open>storage/rle.go\<close>: run-length encoding of the three column types. The three encoders are one loop
  over maximal runs and differ in the equality that delimits a run and in the bytes of a value;
  the three decoders are one loop that differs in how a value is read. The loops are
  \<open>encode_runs\<close> and \<open>decode_runs\<close>, the Go functions their instances. The locale \<open>rle_codec\<close> holds
  what a value encoding must provide, and the round trip is proved in it once.
\<close>

section \<open>The encoding loop\<close>

text \<open>\<open>run_end\<close> is the inner loop: \<open>for j < len(values) && values[j] == values[i] { j++ }\<close>.\<close>

fun run_end :: "('a \<Rightarrow> 'a \<Rightarrow> bool) \<Rightarrow> 'a list \<Rightarrow> 'a \<Rightarrow> nat" where
  "run_end same [] x = 0"
| "run_end same (y # ys) x = (if same y x then Suc (run_end same ys x) else 0)"

function encode_runs :: "('a \<Rightarrow> 'a \<Rightarrow> bool) \<Rightarrow> ('a \<Rightarrow> byte list) \<Rightarrow> 'a list \<Rightarrow> byte list" where
  "encode_runs same put [] = []"
| "encode_runs same put (x # xs) =
     (let k = run_end same xs x
      in putUvarint (Suc k) @ put x @ encode_runs same put (drop k xs))"
  by pat_completeness auto
termination
  by (relation "measure (\<lambda>(same, put, xs). length xs)") auto

definition put_int64 :: "int64 \<Rightarrow> byte list" where
  "put_int64 v = putUint64 v"

definition put_float64 :: "float64 \<Rightarrow> byte list" where
  "put_float64 v = putUint64 (float64bits v)"

definition put_string :: "string \<Rightarrow> byte list" where
  "put_string s = putUvarint (length s) @ bytes_of s"

definition encodeRLEInt64 :: "int64 list \<Rightarrow> byte list" where
  "encodeRLEInt64 values = encode_runs (\<lambda>y x. y = x) put_int64 values"

definition encodeRLEFloat64 :: "float64 list \<Rightarrow> byte list" where
  "encodeRLEFloat64 values = encode_runs (\<lambda>y x. float64bits y = float64bits x) put_float64 values"

definition encodeRLEString :: "string list \<Rightarrow> byte list" where
  "encodeRLEString values = encode_runs (\<lambda>y x. y = x) put_string values"

section \<open>The decoding loop\<close>

text \<open>The causes \<open>ErrRLECorrupt\<close> is wrapped with.\<close>

datatype rle_error =
    BadRunCount nat
  | TruncatedInt64 nat
  | TruncatedFloat64 nat
  | BadStringLength nat
  | TruncatedString nat nat
  | TooManyRows int
  | RowCount nat int

text \<open>A value reader returns the value at an offset and the number of bytes it takes.\<close>

type_synonym 'a reader = "byte list \<Rightarrow> nat \<Rightarrow> (rle_error, 'a \<times> nat) outcome"

definition read_int64 :: "int64 reader" where
  "read_int64 data offset =
     (if length data < offset + 8 then Err (TruncatedInt64 offset)
      else bind_ok (bind_ok (slice_from data offset) get_uint64) (\<lambda>v. Ok (v, 8)))"

definition read_float64 :: "float64 reader" where
  "read_float64 data offset =
     (if length data < offset + 8 then Err (TruncatedFloat64 offset)
      else bind_ok (bind_ok (slice_from data offset) get_uint64) (\<lambda>v. Ok (F64 v, 8)))"

definition read_string :: "string reader" where
  "read_string data offset =
     bind_ok (slice_from data offset) (\<lambda>rest.
       (case uvarint rest of
          None \<Rightarrow> Err (BadStringLength offset)
        | Some (strLen, n) \<Rightarrow>
            if length data - (offset + n) < strLen then Err (TruncatedString (offset + n) strLen)
            else bind_ok (go_slice data (offset + n) (offset + n + strLen)) (\<lambda>bytes.
              Ok (string_of bytes, n + strLen))))"

function decode_runs ::
  "'a reader \<Rightarrow> byte list \<Rightarrow> int \<Rightarrow> nat \<Rightarrow> 'a list \<Rightarrow> (rle_error, 'a list) outcome" where
  "decode_runs rd data expectedRows offset out =
     (if offset < length data then
        (case slice_from data offset of
           Err e \<Rightarrow> Err e
         | Panic p \<Rightarrow> Panic p
         | Ok rest \<Rightarrow>
             (case uvarint rest of
                None \<Rightarrow> Err (BadRunCount offset)
              | Some (count, n) \<Rightarrow>
                  (case rd data (offset + n) of
                     Err e \<Rightarrow> Err e
                   | Panic p \<Rightarrow> Panic p
                   | Ok (v, w) \<Rightarrow>
                       let remaining = expectedRows - int (length out)
                       in if remaining < 0 \<or> remaining < int count then Err (TooManyRows expectedRows)
                          else decode_runs rd data expectedRows (offset + n + w) (out @ replicate count v))))
      else if int (length out) \<noteq> expectedRows then Err (RowCount (length out) expectedRows)
      else Ok out)"
  by pat_completeness auto
termination
  by (relation "measure (\<lambda>(rd, data, expectedRows, offset, out). length data - offset)")
    (auto simp: slice_from_Ok_iff dest: uvarint_bounds)

text \<open>The slice of the loop is in range.\<close>

lemma decode_runs_eq:
  "decode_runs rd data expectedRows offset out =
     (if offset < length data then
        (case uvarint (drop offset data) of
           None \<Rightarrow> Err (BadRunCount offset)
         | Some (count, n) \<Rightarrow>
             (case rd data (offset + n) of
                Err e \<Rightarrow> Err e
              | Panic p \<Rightarrow> Panic p
              | Ok (v, w) \<Rightarrow>
                  let remaining = expectedRows - int (length out)
                  in if remaining < 0 \<or> remaining < int count then Err (TooManyRows expectedRows)
                     else decode_runs rd data expectedRows (offset + n + w) (out @ replicate count v)))
      else if int (length out) \<noteq> expectedRows then Err (RowCount (length out) expectedRows)
      else Ok out)"
  by (subst decode_runs.simps) simp

declare decode_runs.simps [simp del]

definition decodeRLEInt64 :: "byte list \<Rightarrow> int \<Rightarrow> (rle_error, int64 list) outcome" where
  "decodeRLEInt64 data expectedRows =
     bind_ok (make_slice 8 expectedRows) (\<lambda>_. decode_runs read_int64 data expectedRows 0 [])"

definition decodeRLEFloat64 :: "byte list \<Rightarrow> int \<Rightarrow> (rle_error, float64 list) outcome" where
  "decodeRLEFloat64 data expectedRows =
     bind_ok (make_slice 8 expectedRows) (\<lambda>_. decode_runs read_float64 data expectedRows 0 [])"

definition decodeRLEString :: "byte list \<Rightarrow> int \<Rightarrow> (rle_error, string list) outcome" where
  "decodeRLEString data expectedRows =
     bind_ok (make_slice 16 expectedRows) (\<lambda>_. decode_runs read_string data expectedRows 0 [])"

section \<open>Runs as an abstract specification\<close>

text \<open>
  The runs of a list: counts and values, expanded by \<open>expand_runs\<close>; canonical when every count is
  positive and adjacent runs hold different values.
\<close>

function runs :: "'a list \<Rightarrow> (nat \<times> 'a) list" where
  "runs [] = []"
| "runs (x # xs) = (let k = run_end (=) xs x in (Suc k, x) # runs (drop k xs))"
  by pat_completeness auto
termination
  by (relation "measure length") auto

definition expand_runs :: "(nat \<times> 'a) list \<Rightarrow> 'a list" where
  "expand_runs rs = concat (map (\<lambda>(n, x). replicate n x) rs)"

fun canonical_runs :: "(nat \<times> 'a) list \<Rightarrow> bool" where
  "canonical_runs [] = True"
| "canonical_runs [(n, x)] = (0 < n)"
| "canonical_runs ((n, x) # (m, y) # rs) = (0 < n \<and> x \<noteq> y \<and> canonical_runs ((m, y) # rs))"

lemma run_end_le: "run_end same xs x \<le> length xs"
  by (induction xs) auto

lemma take_run_end: "(\<And>y. same y x \<Longrightarrow> y = x) \<Longrightarrow>
  take (run_end same xs x) xs = replicate (run_end same xs x) x"
  by (induction xs) auto

lemma drop_run_end: "drop (run_end (=) xs x) xs = y # ys \<Longrightarrow> y \<noteq> x"
  by (induction xs) (auto split: if_splits)

lemma expand_runs_runs: "expand_runs (runs xs) = xs"
proof (induction xs rule: runs.induct)
  case (2 x xs)
  let ?k = "run_end (=) xs x"
  have "take ?k xs = replicate ?k x"
    by (rule take_run_end) simp
  then have "replicate ?k x @ drop ?k xs = xs"
    by (metis append_take_drop_id)
  with 2 show ?case by (simp add: expand_runs_def Let_def)
qed (simp add: expand_runs_def)

lemma canonical_runs_runs: "canonical_runs (runs xs)"
proof (induction xs rule: runs.induct)
  case (2 x xs)
  show ?case
  proof (cases "drop (run_end (=) xs x) xs")
    case Nil
    then show ?thesis by (simp add: Let_def)
  next
    case (Cons y ys)
    with drop_run_end [OF Cons] 2 show ?thesis by (simp add: Let_def)
  qed
qed simp

lemma encode_runs_runs:
  "encode_runs (=) put xs = concat (map (\<lambda>(n, x). putUvarint n @ put x) (runs xs))"
  by (induction xs rule: runs.induct) (simp_all add: Let_def)

lemma length_runs_le: "length (runs xs) \<le> length xs"
proof (induction xs rule: runs.induct)
  case (2 x xs)
  then show ?case
    using run_end_le [of "(=)" xs x] by (simp add: Let_def)
qed simp

section \<open>The round trip, for any value encoding\<close>

locale rle_codec =
  fixes same :: "'a \<Rightarrow> 'a \<Rightarrow> bool"
    and put :: "'a \<Rightarrow> byte list"
    and rd :: "'a reader"
    and fits :: "'a \<Rightarrow> bool"
  assumes same_iff: "same y x \<longleftrightarrow> y = x"
    and rd_put: "fits x \<Longrightarrow> rd (pre @ put x @ rest) (length pre) = Ok (x, length (put x))"
    and rd_total: "offset \<le> length data \<Longrightarrow> \<not> panics (rd data offset)"
begin

lemma same_eq: "same = (=)"
  by (intro ext) (rule same_iff)

lemma encode_is_runs: "encode_runs same put xs = concat (map (\<lambda>(n, x). putUvarint n @ put x) (runs xs))"
  by (simp add: same_eq encode_runs_runs)

lemma decode_run:
  assumes "fits x" "0 < k" "k < 2 ^ 64" "int (length out + k) \<le> n"
  shows "decode_runs rd (pre @ putUvarint k @ put x @ rest) n (length pre) out =
    decode_runs rd (pre @ putUvarint k @ put x @ rest) n
      (length pre + length (putUvarint k) + length (put x)) (out @ replicate k x)"
proof -
  have rd: "rd (pre @ putUvarint k @ put x @ rest) (length pre + length (putUvarint k)) =
      Ok (x, length (put x))"
    using rd_put [OF assms(1), of "pre @ putUvarint k" rest] by simp
  show ?thesis
    using assms by (subst decode_runs_eq) (simp add: rd Let_def)
qed

lemma decode_encoded_runs:
  assumes "\<forall>(k, x) \<in> set rs. fits x \<and> 0 < k"
    and "length out + length (expand_runs rs) < 2 ^ 64"
  shows "decode_runs rd (pre @ concat (map (\<lambda>(k, x). putUvarint k @ put x) rs))
    (int (length out + length (expand_runs rs))) (length pre) out = Ok (out @ expand_runs rs)"
  using assms
proof (induction rs arbitrary: pre out)
  case Nil
  show ?case by (subst decode_runs_eq) (simp add: expand_runs_def)
next
  case (Cons r rs)
  obtain k x where r: "r = (k, x)" by (cases r)
  let ?rest = "concat (map (\<lambda>(k, x). putUvarint k @ put x) rs)"
  let ?pre = "pre @ putUvarint k @ put x"
  have e: "expand_runs ((k, x) # rs) = replicate k x @ expand_runs rs"
    by (simp add: expand_runs_def)
  from Cons.prems(2) have "length (out @ replicate k x) + length (expand_runs rs) < 2 ^ 64"
    by (simp add: r e)
  then have "decode_runs rd (?pre @ ?rest) (int (length (out @ replicate k x) + length (expand_runs rs)))
      (length ?pre) (out @ replicate k x) = Ok ((out @ replicate k x) @ expand_runs rs)"
    using Cons.prems(1) by (intro Cons.IH) auto
  moreover have "fits x" "0 < k" "k < 2 ^ 64"
    using Cons.prems by (auto simp: r e)
  ultimately show ?case
    using decode_run [of x k out "int (length out + length (expand_runs (r # rs)))" pre ?rest]
    by (simp add: r e add.assoc)
qed

lemma runs_fits: "\<forall>x \<in> set xs. fits x \<Longrightarrow> \<forall>(k, x) \<in> set (runs xs). fits x \<and> 0 < k"
proof (induction xs rule: runs.induct)
  case (2 x xs)
  then have "\<forall>(k, x) \<in> set (runs (drop (run_end (=) xs x) xs)). fits x \<and> 0 < k"
    using in_set_dropD by fastforce
  with 2 show ?case by (auto simp: Let_def)
qed simp

lemma decode_encode:
  assumes "\<forall>x \<in> set xs. fits x" "length xs < 2 ^ 64"
  shows "decode_runs rd (encode_runs same put xs) (int (length xs)) 0 [] = Ok xs"
  using decode_encoded_runs [OF runs_fits [OF assms(1)], of "[]" "[]"] assms(2)
  by (simp add: encode_is_runs expand_runs_runs)

lemma decode_rows: "decode_runs rd data n offset out = Ok xs \<Longrightarrow> int (length xs) = n"
  by (induction rd data n offset out rule: decode_runs.induct)
    (subst (asm) (2) decode_runs_eq,
      auto simp: Let_def split: if_splits option.splits outcome.splits prod.splits)

end

lemma decode_runs_no_panic:
  "(\<And>d k. k \<le> length d \<Longrightarrow> \<not> panics (rd d k)) \<Longrightarrow> \<not> panics (decode_runs rd data n offset out)"
proof (induction rd data n offset out rule: decode_runs.induct)
  case (1 rd data n offset out)
  have ih: "\<not> panics (decode_runs rd data n (offset + m + w) (out @ replicate c v))"
    if "offset < length data" "uvarint (drop offset data) = Some (c, m)"
      "rd data (offset + m) = Ok (v, w)" "\<not> (n - int (length out) < 0 \<or> n - int (length out) < int c)"
    for c m v w
    using that "1.prems" by (intro "1.IH") auto
  show ?case
  proof (cases "offset < length data \<and> uvarint (drop offset data) \<noteq> None")
    case True
    then obtain c m where u: "uvarint (drop offset data) = Some (c, m)" by auto
    have "\<not> panics (rd data (offset + m))"
      using uvarint_fits(1) [OF u] by (rule "1.prems")
    then show ?thesis
      using True u ih [OF _ u]
      by (subst decode_runs_eq) (auto simp: Let_def split: outcome.split)
  qed (subst decode_runs_eq, auto split: option.split)
qed

section \<open>The three codecs\<close>

interpretation rle_int64: rle_codec "\<lambda>y x. y = x" put_int64 read_int64 "\<lambda>_. True"
  by unfold_locales (auto simp: put_int64_def read_int64_def)

interpretation rle_float64:
  rle_codec "\<lambda>y x. float64bits y = float64bits x" put_float64 read_float64 "\<lambda>_. True"
  by unfold_locales (auto simp: put_float64_def read_float64_def float64_eq_iff)

interpretation rle_string: rle_codec "\<lambda>y x. y = x" put_string read_string "\<lambda>s. length s < 2 ^ 64"
  by unfold_locales (auto simp: put_string_def read_string_def uvarint_fits split: option.splits)

interpretation rle_int64_column: column_codec encodeRLEInt64 decodeRLEInt64 8 "\<lambda>_. True"
  by unfold_locales
    (auto simp: encodeRLEInt64_def decodeRLEInt64_def max_alloc_def panics_bind_ok decode_runs_no_panic
      rle_int64.rd_total intro: rle_int64.decode_encode dest: rle_int64.decode_rows)

interpretation rle_float64_column: column_codec encodeRLEFloat64 decodeRLEFloat64 8 "\<lambda>_. True"
  by unfold_locales
    (auto simp: encodeRLEFloat64_def decodeRLEFloat64_def max_alloc_def panics_bind_ok
      decode_runs_no_panic rle_float64.rd_total
      intro: rle_float64.decode_encode dest: rle_float64.decode_rows)

interpretation rle_string_column: column_codec encodeRLEString decodeRLEString 16
  "\<lambda>xs. \<forall>s \<in> set xs. length s < 2 ^ 64"
  by unfold_locales
    (auto simp: encodeRLEString_def decodeRLEString_def max_alloc_def panics_bind_ok
      decode_runs_no_panic rle_string.rd_total
      intro: rle_string.decode_encode dest: rle_string.decode_rows)

section \<open>Properties\<close>

text \<open>
  C28: both encodings of each of the three column types round-trip. Decoding the encoded column with
  its own length gives the column back; NaNs keep their bits. The hypothesis bounds the column by
  what a slice can hold (and a string by what a length can count).
\<close>

theorem column_codecs_roundtrip:
  "(8 * int (length ints) \<le> max_alloc \<longrightarrow>
      decodeRLEInt64 (encodeRLEInt64 ints) (int (length ints)) = Ok ints \<and>
      decodeRawInt64 (encodeRawInt64 ints) (int (length ints)) = Ok ints) \<and>
   (8 * int (length fs) \<le> max_alloc \<longrightarrow>
      decodeRLEFloat64 (encodeRLEFloat64 fs) (int (length fs)) = Ok fs \<and>
      decodeRawFloat64 (encodeRawFloat64 fs) (int (length fs)) = Ok fs) \<and>
   (16 * int (length strs) \<le> max_alloc \<longrightarrow> (\<forall>str \<in> set strs. length str < 2 ^ 64) \<longrightarrow>
      decodeRLEString (encodeRLEString strs) (int (length strs)) = Ok strs \<and>
      decodeRawString (encodeRawString strs) (int (length strs)) = Ok strs)"
  using rle_int64_column.dec_enc [of ints] raw_int64.dec_enc [of ints]
    rle_float64_column.dec_enc [of fs] raw_float64.dec_enc [of fs]
    rle_string_column.dec_enc [of strs] raw_string.dec_enc [of strs]
  by simp

theorem column_codecs_roundtrip_witness:
  "decodeRLEInt64 (encodeRLEInt64 [5, 5, 7]) 3 = Ok [5, 5, 7] \<and>
   decodeRLEFloat64 (encodeRLEFloat64 [f_nan, f_zero]) 2 = Ok [f_nan, f_zero] \<and>
   decodeRLEString (encodeRLEString [''a'', ''a'', []]) 3 = Ok [''a'', ''a'', []]"
  using column_codecs_roundtrip [of "[5, 5, 7]" "[f_nan, f_zero]" "[''a'', ''a'', []]"]
  by (simp add: max_alloc_def)

text \<open>
  C29: the encoders write the maximal runs of the column. The bytes are those of a list of runs that
  expands to the column, whose counts are positive and whose neighbours differ; for doubles the runs
  are of equal bit patterns, so equal NaNs are grouped.
\<close>

theorem encoders_write_maximal_runs:
  "encodeRLEInt64 ints = concat (map (\<lambda>(n, x). putUvarint n @ putUint64 x) (runs ints)) \<and>
   encodeRLEFloat64 fs = concat (map (\<lambda>(n, x). putUvarint n @ putUint64 (float64bits x)) (runs fs)) \<and>
   encodeRLEString strs =
     concat (map (\<lambda>(n, x). putUvarint n @ putUvarint (length x) @ bytes_of x) (runs strs)) \<and>
   expand_runs (runs fs) = fs \<and> canonical_runs (runs fs) \<and> length (runs fs) \<le> length fs \<and>
   expand_runs (runs ints) = ints \<and> canonical_runs (runs ints) \<and> length (runs ints) \<le> length ints \<and>
   expand_runs (runs strs) = strs \<and> canonical_runs (runs strs) \<and> length (runs strs) \<le> length strs"
  by (simp add: encodeRLEInt64_def encodeRLEFloat64_def encodeRLEString_def rle_int64.encode_is_runs
      rle_float64.encode_is_runs rle_string.encode_is_runs put_int64_def put_float64_def put_string_def
      expand_runs_runs canonical_runs_runs length_runs_le)

text \<open>
  C30: the decoders on arbitrary bytes and any row count. Truncated, oversized or garbled payloads never make them
  read outside the payload: the run-length decoders panic exactly when \<open>make\<close> cannot allocate the expected rows, the
  raw decoders of fixed-width values only when in addition the payload has the length that \<open>8*rows\<close>
  wraps around to. Every column they return has exactly the expected number of rows.
\<close>

theorem column_decoders_total:
  "(panics (decodeRLEInt64 data rows) \<longleftrightarrow> rows < 0 \<or> max_alloc < 8 * rows) \<and>
   (panics (decodeRLEFloat64 data rows) \<longleftrightarrow> rows < 0 \<or> max_alloc < 8 * rows) \<and>
   (panics (decodeRLEString data rows) \<longleftrightarrow> rows < 0 \<or> max_alloc < 16 * rows) \<and>
   (panics (decodeRawInt64 data rows) \<longleftrightarrow>
      (rows < 0 \<or> max_alloc < 8 * rows) \<and> int (length data) = wrap_int (8 * rows)) \<and>
   (panics (decodeRawFloat64 data rows) \<longleftrightarrow>
      (rows < 0 \<or> max_alloc < 8 * rows) \<and> int (length data) = wrap_int (8 * rows)) \<and>
   (panics (decodeRawString data rows) \<longleftrightarrow> rows < 0 \<or> max_alloc < 16 * rows) \<and>
   (\<forall>xs. decodeRLEInt64 data rows = Ok xs \<or> decodeRawInt64 data rows = Ok xs \<longrightarrow> int (length xs) = rows) \<and>
   (\<forall>xs. decodeRLEFloat64 data rows = Ok xs \<or> decodeRawFloat64 data rows = Ok xs \<longrightarrow> int (length xs) = rows) \<and>
   (\<forall>xs. decodeRLEString data rows = Ok xs \<or> decodeRawString data rows = Ok xs \<longrightarrow> int (length xs) = rows)"
  by (auto simp: decodeRLEInt64_def decodeRLEFloat64_def decodeRLEString_def decodeRawInt64_eq decodeRawFloat64_eq
      decodeRawString_def panics_bind_ok decode_raw_strings_no_panic decode_runs_no_panic
      rle_int64.rd_total rle_float64.rd_total rle_string.rd_total
      dest: rle_int64.decode_rows rle_float64.decode_rows rle_string.decode_rows decode_raw_strings_rows)

theorem column_decoders_total_witness:
  "\<not> panics (decodeRLEInt64 [2, 255] 2) \<and> \<not> panics (decodeRLEString [1, 9, 120] 1) \<and>
   (\<exists>xs. decodeRLEInt64 [2, 5, 0, 0, 0, 0, 0, 0, 0] 2 = Ok xs \<and> int (length xs) = 2)"
proof -
  have "decode_runs read_int64 [2, 5, 0, 0, 0, 0, 0, 0, 0] 2 0 [] = Ok [5, 5]"
    by (simp add: decode_runs_eq uvarint_def read_int64_def uint64_le_def)
  then have "decodeRLEInt64 [2, 5, 0, 0, 0, 0, 0, 0, 0] 2 = Ok [5, 5]"
    by (simp add: decodeRLEInt64_def max_alloc_def)
  with column_decoders_total [of "[2, 255]" 2] column_decoders_total [of "[1, 9, 120]" 1]
    column_decoders_total [of "[2, 5, 0, 0, 0, 0, 0, 0, 0]" 2]
  show ?thesis by (simp add: max_alloc_def)
qed

text \<open>
  A run count of zero is accepted. A payload with a run that contributes no row decodes as if the
  run were not there, so the decoder is not injective: corrupt or non-canonical payloads of this
  form go unnoticed.
\<close>

theorem zero_run_is_accepted:
  "decodeRLEInt64 (putUvarint 0 @ putUint64 9 @ putUvarint 1 @ putUint64 5) 1 = Ok [5] \<and>
   decodeRLEInt64 (putUvarint 1 @ putUint64 5) 1 = Ok [5]"
proof -
  have "putUvarint 0 = [0]" "putUvarint 1 = [1]" "putUint64 5 = [5, 0, 0, 0, 0, 0, 0, 0]"
    "putUint64 9 = [9, 0, 0, 0, 0, 0, 0, 0]"
    by (simp_all add: putUvarint.simps putUint64_def le_bytes_numeral)
  moreover have "decode_runs read_int64 [0, 9, 0, 0, 0, 0, 0, 0, 0, 1, 5, 0, 0, 0, 0, 0, 0, 0] 1 0 [] = Ok [5]"
    by (simp add: decode_runs_eq uvarint_def read_int64_def uint64_le_def)
  moreover have "decode_runs read_int64 [1, 5, 0, 0, 0, 0, 0, 0, 0] 1 0 [] = Ok [5]"
    by (simp add: decode_runs_eq uvarint_def read_int64_def uint64_le_def)
  ultimately show ?thesis
    by (simp add: decodeRLEInt64_def max_alloc_def)
qed

end
