(* ===== verification/Buffer.thy ===== *)
theory Buffer
  imports Types
begin

text \<open>
  \<open>storage/buffer.go\<close>: the column-major write buffer. The three maps from column index to typed
  slice are HOL maps (a missing key reads as the nil slice, as in Go), \<open>Append\<close> checks the whole
  row before it touches a slice, and \<open>Reset\<close> truncates every registered slice. The abstract
  content of a buffer is the list of its rows.
\<close>

section \<open>State and operations\<close>

record write_buffer =
  wb_schema :: schema
  wb_int64Cols :: "nat \<rightharpoonup> int64 list"
  wb_float64Cols :: "nat \<rightharpoonup> float64 list"
  wb_stringCols :: "nat \<rightharpoonup> string list"
  wb_rows :: nat

datatype append_error =
    RowLengthMismatch nat nat
  | NilValue string string
  | TypeMismatch string string string
  | UnknownColumnType string string

definition slice_at :: "(nat \<rightharpoonup> 'a list) \<Rightarrow> nat \<Rightarrow> 'a list" where
  "slice_at m i = (case m i of None \<Rightarrow> [] | Some xs \<Rightarrow> xs)"

fun register_columns :: "nat \<Rightarrow> column list \<Rightarrow> write_buffer \<Rightarrow> write_buffer" where
  "register_columns i [] b = b"
| "register_columns i (c # cs) b =
     register_columns (Suc i) cs
       (case col_type c of
          Int64 \<Rightarrow> b\<lparr>wb_int64Cols := (wb_int64Cols b)(i \<mapsto> [])\<rparr>
        | Float64 \<Rightarrow> b\<lparr>wb_float64Cols := (wb_float64Cols b)(i \<mapsto> [])\<rparr>
        | String \<Rightarrow> b\<lparr>wb_stringCols := (wb_stringCols b)(i \<mapsto> [])\<rparr>
        | OtherType _ \<Rightarrow> b)"

definition NewWriteBuffer :: "schema \<Rightarrow> write_buffer" where
  "NewWriteBuffer s =
     register_columns 0 (schema_columns s)
       \<lparr>wb_schema = s, wb_int64Cols = Map.empty, wb_float64Cols = Map.empty,
        wb_stringCols = Map.empty, wb_rows = 0\<rparr>"

text \<open>The check of one value: the first loop of \<open>Append\<close>.\<close>

definition check_value :: "column \<Rightarrow> go_value \<Rightarrow> (append_error, unit) outcome" where
  "check_value c v =
     (if v = VNil then Err (NilValue (col_name c) (column_type_string (col_type c)))
      else case col_type c of
        OtherType _ \<Rightarrow> Err (UnknownColumnType (col_name c) (column_type_string (col_type c)))
      | _ \<Rightarrow>
          if has_type v (col_type c) then Ok ()
          else Err (TypeMismatch (col_name c) (column_type_string (col_type c)) (go_type_name v)))"

fun check_row :: "nat \<Rightarrow> column list \<Rightarrow> row \<Rightarrow> (append_error, unit) outcome" where
  "check_row i [] row = Ok ()"
| "check_row i (c # cs) row =
     bind_ok (fetch row i) (\<lambda>v. bind_ok (check_value c v) (\<lambda>_. check_row (Suc i) cs row))"

text \<open>
  The second loop. It changes the buffer column by column, so a step returns the buffer together with how it
  ended; each assertion \<open>row[i].(T)\<close> panics on another dynamic type.
\<close>

type_synonym 'e buffer_step = "write_buffer \<times> ('e, unit) outcome"

definition push_value :: "nat \<Rightarrow> column \<Rightarrow> go_value \<Rightarrow> write_buffer \<Rightarrow> append_error buffer_step" where
  "push_value i c v b =
     (case col_type c of
        Int64 \<Rightarrow> (case v of
            VInt64 x \<Rightarrow> (b\<lparr>wb_int64Cols := (wb_int64Cols b)(i \<mapsto> slice_at (wb_int64Cols b) i @ [x])\<rparr>, Ok ())
          | _ \<Rightarrow> (b, Panic TypeAssertion))
      | Float64 \<Rightarrow> (case v of
            VFloat64 x \<Rightarrow> (b\<lparr>wb_float64Cols := (wb_float64Cols b)(i \<mapsto> slice_at (wb_float64Cols b) i @ [x])\<rparr>, Ok ())
          | _ \<Rightarrow> (b, Panic TypeAssertion))
      | String \<Rightarrow> (case v of
            VString x \<Rightarrow> (b\<lparr>wb_stringCols := (wb_stringCols b)(i \<mapsto> slice_at (wb_stringCols b) i @ [x])\<rparr>, Ok ())
          | _ \<Rightarrow> (b, Panic TypeAssertion))
      | OtherType _ \<Rightarrow> (b, Ok ()))"

text \<open>Going on with the changed buffer, unless the step failed.\<close>

definition after_step :: "'e buffer_step \<Rightarrow> (write_buffer \<Rightarrow> 'e buffer_step) \<Rightarrow> 'e buffer_step" where
  "after_step m k = (case m of (b, r) \<Rightarrow> (case r of Ok _ \<Rightarrow> k b | Err e \<Rightarrow> (b, Err e) | Panic p \<Rightarrow> (b, Panic p)))"

fun push_row :: "nat \<Rightarrow> column list \<Rightarrow> row \<Rightarrow> write_buffer \<Rightarrow> append_error buffer_step" where
  "push_row i [] row b = (b, Ok ())"
| "push_row i (c # cs) row b =
     (case fetch row i of
        Ok v \<Rightarrow> after_step (push_value i c v b) (push_row (Suc i) cs row)
      | Err e \<Rightarrow> (b, Err e)
      | Panic p \<Rightarrow> (b, Panic p))"

definition Append :: "write_buffer \<Rightarrow> row \<Rightarrow> append_error buffer_step" where
  "Append b row =
     (let cols = schema_columns (wb_schema b)
      in if length row \<noteq> length cols then (b, Err (RowLengthMismatch (length row) (length cols)))
         else after_step (b, check_row 0 cols row) (\<lambda>b.
              after_step (push_row 0 cols row b) (\<lambda>b.
                (b\<lparr>wb_rows := wb_rows b + 1\<rparr>, Ok ()))))"

definition Len :: "write_buffer \<Rightarrow> nat" where
  "Len b = wb_rows b"

definition Reset :: "write_buffer \<Rightarrow> write_buffer" where
  "Reset b =
     b\<lparr>wb_int64Cols := map_option (\<lambda>_. []) \<circ> wb_int64Cols b,
       wb_float64Cols := map_option (\<lambda>_. []) \<circ> wb_float64Cols b,
       wb_stringCols := map_option (\<lambda>_. []) \<circ> wb_stringCols b,
       wb_rows := 0\<rparr>"

section \<open>Abstraction: a buffer as a list of rows\<close>

definition column_values :: "write_buffer \<Rightarrow> column_type \<Rightarrow> nat \<Rightarrow> go_value list" where
  "column_values b t i =
     (case t of
        Int64 \<Rightarrow> map VInt64 (slice_at (wb_int64Cols b) i)
      | Float64 \<Rightarrow> map VFloat64 (slice_at (wb_float64Cols b) i)
      | String \<Rightarrow> map VString (slice_at (wb_stringCols b) i)
      | OtherType _ \<Rightarrow> [])"

definition buffer_columns :: "write_buffer \<Rightarrow> go_value list list" where
  "buffer_columns b =
     map (\<lambda>i. column_values b (col_type (schema_columns (wb_schema b) ! i)) i)
       [0..<length (schema_columns (wb_schema b))]"

text \<open>Rows of a table given by its columns.\<close>

definition rows_of_columns :: "nat \<Rightarrow> 'a list list \<Rightarrow> 'a list list" where
  "rows_of_columns n cols = map (\<lambda>r. map (\<lambda>col. col ! r) cols) [0..<n]"

definition buffer_rows :: "write_buffer \<Rightarrow> row list" where
  "buffer_rows b = rows_of_columns (wb_rows b) (buffer_columns b)"

definition wf_buffer :: "write_buffer \<Rightarrow> bool" where
  "wf_buffer b \<longleftrightarrow> (\<forall>col \<in> set (buffer_columns b). length col = wb_rows b)"

text \<open>A row the schema admits: one value of the column's Go type per column.\<close>

definition row_conforms :: "schema \<Rightarrow> row \<Rightarrow> bool" where
  "row_conforms s row \<longleftrightarrow> list_all2 (\<lambda>v c. has_type v (col_type c)) row (schema_columns s)"

lemma length_rows_of_columns [simp]: "length (rows_of_columns n cols) = n"
  by (simp add: rows_of_columns_def)

lemma nth_rows_of_columns:
  "r < n \<Longrightarrow> rows_of_columns n cols ! r = map (\<lambda>col. col ! r) cols"
  by (simp add: rows_of_columns_def)

lemma length_buffer_columns [simp]:
  "length (buffer_columns b) = length (schema_columns (wb_schema b))"
  by (simp add: buffer_columns_def)

lemma length_buffer_rows [simp]: "length (buffer_rows b) = wb_rows b"
  by (simp add: buffer_rows_def)

text \<open>Extending every column by one value is extending the rows by one row.\<close>

lemma rows_of_columns_snoc:
  assumes "length row = length cols" "\<forall>col \<in> set cols. length col = n"
  shows "rows_of_columns (Suc n) (map2 (\<lambda>col v. col @ [v]) cols row) = rows_of_columns n cols @ [row]"
proof -
  have "(col @ [v]) ! r = (if r = n then v else col ! r)" if "(col, v) \<in> set (zip cols row)" "r \<le> n" for col v r
    using that assms(2) by (auto simp: nth_append dest: set_zip_leftD)
  then have row: "map (\<lambda>col. col ! r) (map2 (\<lambda>col v. col @ [v]) cols row) =
      (if r = n then row else map (\<lambda>col. col ! r) cols)" if "r \<le> n" for r
    using that assms by (intro nth_equalityI) (auto simp: nth_append)
  show ?thesis
    using row by (simp add: rows_of_columns_def)
qed

section \<open>Correctness of the two loops\<close>

lemma check_value_Ok_iff: "check_value c v = Ok () \<longleftrightarrow> has_type v (col_type c)"
  by (cases v; cases "col_type c") (auto simp: check_value_def)

lemma check_value_no_panic [simp]: "check_value c v \<noteq> Panic p"
  by (simp add: check_value_def split: column_type.splits)

lemma check_row_Ok_iff:
  "length row = i + length cs \<Longrightarrow>
   check_row i cs row = Ok () \<longleftrightarrow> list_all2 (\<lambda>v c. has_type v (col_type c)) (drop i row) cs"
proof (induction cs arbitrary: i)
  case (Cons c cs)
  then have i: "i < length row" by simp
  then have "drop i row = row ! i # drop (Suc i) row" by (simp add: Cons_nth_drop_Suc)
  with Cons i show ?case by (auto simp: check_value_Ok_iff)
qed simp

lemma check_row_no_panic: "length row = i + length cs \<Longrightarrow> check_row i cs row \<noteq> Panic p"
  by (induction cs arbitrary: i) (auto simp: bind_ok_Panic_iff)

lemma after_step_simps [simp]:
  "after_step (b, Ok u) k = k b" "after_step (b, Err e) k = (b, Err e)" "after_step (b, Panic p) k = (b, Panic p)"
  by (simp_all add: after_step_def)

lemma after_step_Ok_iff:
  "after_step m k = (b', Ok u) \<longleftrightarrow> (\<exists>b v. m = (b, Ok v) \<and> k b = (b', Ok u))"
  by (cases m; cases "snd m") auto

lemma column_values_push:
  assumes "has_type v (col_type c)"
  obtains b' where "push_value i c v b = (b', Ok ())"
    "wb_schema b' = wb_schema b" "wb_rows b' = wb_rows b"
    "\<And>t j. column_values b' t j =
       (if t = col_type c \<and> j = i then column_values b t j @ [v] else column_values b t j)"
proof (cases "col_type c")
  case Int64
  with assms obtain x where v: "v = VInt64 x" by auto
  let ?b' = "b\<lparr>wb_int64Cols := (wb_int64Cols b)(i \<mapsto> slice_at (wb_int64Cols b) i @ [x])\<rparr>"
  show ?thesis
    by (rule that [of ?b'])
      (auto simp: Int64 v push_value_def column_values_def slice_at_def split: column_type.split)
next
  case Float64
  with assms obtain x where v: "v = VFloat64 x" by auto
  let ?b' = "b\<lparr>wb_float64Cols := (wb_float64Cols b)(i \<mapsto> slice_at (wb_float64Cols b) i @ [x])\<rparr>"
  show ?thesis
    by (rule that [of ?b'])
      (auto simp: Float64 v push_value_def column_values_def slice_at_def split: column_type.split)
next
  case String
  with assms obtain x where v: "v = VString x" by auto
  let ?b' = "b\<lparr>wb_stringCols := (wb_stringCols b)(i \<mapsto> slice_at (wb_stringCols b) i @ [x])\<rparr>"
  show ?thesis
    by (rule that [of ?b'])
      (auto simp: String v push_value_def column_values_def slice_at_def split: column_type.split)
next
  case (OtherType x)
  with assms show ?thesis by simp
qed

lemma push_row_spec:
  assumes "length row = i + length cs"
    and "list_all2 (\<lambda>v c. has_type v (col_type c)) (drop i row) cs"
  shows "\<exists>b'. push_row i cs row b = (b', Ok ()) \<and>
    wb_schema b' = wb_schema b \<and> wb_rows b' = wb_rows b \<and>
    (\<forall>t j. column_values b' t j =
       (if i \<le> j \<and> j < length row \<and> t = col_type (cs ! (j - i))
        then column_values b t j @ [row ! j] else column_values b t j))"
  using assms
proof (induction cs arbitrary: i b)
  case Nil
  then show ?case by auto
next
  case (Cons c cs)
  from Cons.prems have i: "i < length row" by simp
  then have "drop i row = row ! i # drop (Suc i) row" by (simp add: Cons_nth_drop_Suc)
  with Cons.prems have ht: "has_type (row ! i) (col_type c)"
    and rest: "list_all2 (\<lambda>v c. has_type v (col_type c)) (drop (Suc i) row) cs" by simp_all
  obtain b1 where b1: "push_value i c (row ! i) b = (b1, Ok ())"
      "wb_schema b1 = wb_schema b" "wb_rows b1 = wb_rows b"
      "\<And>t j. column_values b1 t j =
         (if t = col_type c \<and> j = i then column_values b t j @ [row ! i] else column_values b t j)"
    using ht by (rule column_values_push [where i = i and b = b]) blast
  from Cons.prems have "length row = Suc i + length cs" by simp
  from Cons.IH [OF this rest, of b1] obtain b' where
      b': "push_row (Suc i) cs row b1 = (b', Ok ())"
        "wb_schema b' = wb_schema b1" "wb_rows b' = wb_rows b1"
      "\<And>t j. column_values b' t j =
         (if Suc i \<le> j \<and> j < length row \<and> t = col_type (cs ! (j - Suc i))
          then column_values b1 t j @ [row ! j] else column_values b1 t j)"
    by blast
  have "column_values b' t j =
      (if i \<le> j \<and> j < length row \<and> t = col_type ((c # cs) ! (j - i))
       then column_values b t j @ [row ! j] else column_values b t j)" for t j
  proof (cases "j = i")
    case True
    then show ?thesis using i by (simp add: b1(4) b'(4))
  next
    case False
    then have "i \<le> j \<Longrightarrow> (c # cs) ! (j - i) = cs ! (j - Suc i)"
      by (simp add: nth_Cons')
    with False show ?thesis by (auto simp: b1(4) b'(4))
  qed
  with b1 b' i show ?case by simp
qed

section \<open>Append refines appending a row to a list\<close>

lemma Append_conforming:
  assumes wf: "wf_buffer b" and row: "row_conforms (wb_schema b) row"
  obtains b' where "Append b row = (b', Ok ())" "wf_buffer b'" "wb_schema b' = wb_schema b"
    "wb_rows b' = Suc (wb_rows b)" "buffer_rows b' = buffer_rows b @ [row]"
proof -
  let ?cols = "schema_columns (wb_schema b)"
  have len: "length row = length ?cols"
    and ht: "list_all2 (\<lambda>v c. has_type v (col_type c)) row ?cols"
    using row by (auto simp: row_conforms_def dest: list_all2_lengthD)
  obtain b1 where b1: "push_row 0 ?cols row b = (b1, Ok ())"
      "wb_schema b1 = wb_schema b" "wb_rows b1 = wb_rows b"
      "\<And>t j. column_values b1 t j =
         (if j < length row \<and> t = col_type (?cols ! j)
          then column_values b t j @ [row ! j] else column_values b t j)"
    using push_row_spec [where i = 0 and cs = ?cols and b = b and row = row] len ht
    by (auto simp: if_distrib)
  let ?b' = "b1\<lparr>wb_rows := Suc (wb_rows b)\<rparr>"
  have cv: "column_values ?b' t j = column_values b1 t j" for t j
    by (simp add: column_values_def split: column_type.split)
  have cols: "buffer_columns ?b' = map2 (\<lambda>col v. col @ [v]) (buffer_columns b) row"
    using len by (intro nth_equalityI) (auto simp: buffer_columns_def cv b1)
  have wf_cols: "\<forall>col \<in> set (buffer_columns b). length col = wb_rows b"
    using wf by (simp add: wf_buffer_def)
  have rows: "buffer_rows ?b' = buffer_rows b @ [row]"
    unfolding buffer_rows_def cols using rows_of_columns_snoc [OF _ wf_cols, of row] len by simp
  have "wf_buffer ?b'"
    using wf_cols by (auto simp: wf_buffer_def cols dest!: set_zip_leftD)
  moreover have "Append b row = (?b', Ok ())"
    using check_row_Ok_iff [of row 0 ?cols] len ht b1 by (simp add: Append_def)
  ultimately show ?thesis
    using that [of ?b'] rows b1 by simp
qed

lemma Append_rejects:
  assumes "\<not> row_conforms (wb_schema b) row"
  shows "\<exists>e. Append b row = (b, Err e)"
proof (cases "length row = length (schema_columns (wb_schema b))")
  case True
  with assms check_row_Ok_iff [of row 0] check_row_no_panic [of row 0]
  have "\<exists>e. check_row 0 (schema_columns (wb_schema b)) row = Err e"
    by (cases "check_row 0 (schema_columns (wb_schema b)) row") (auto simp: row_conforms_def)
  with True show ?thesis by (auto simp: Append_def)
qed (simp add: Append_def)

text \<open>Whatever the buffer, an error leaves it as it was: the second loop has no error return.\<close>

lemma push_row_not_Err: "push_row i cs row b \<noteq> (b', Err e)"
proof (induction cs arbitrary: i b)
  case (Cons c cs)
  have "push_value i c v b \<noteq> (b1, Err e)" for v b1
    by (simp add: push_value_def split: column_type.split go_value.split)
  with Cons show ?case
    by (auto simp: fetch_def after_step_def split: outcome.splits prod.splits)
qed simp

lemma Append_refused: "Append b row = (b', Err e) \<Longrightarrow> b' = b"
  using push_row_not_Err
  by (auto simp: Append_def Let_def after_step_def split: if_splits outcome.splits prod.splits)

text \<open>The strings of a buffer come from the appended rows.\<close>

lemma push_row_strings:
  "push_row i cs row b = (b', Ok ()) \<Longrightarrow> str \<in> set (slice_at (wb_stringCols b') j) \<Longrightarrow>
   str \<in> set (slice_at (wb_stringCols b) j) \<or> VString str \<in> set row"
proof (induction cs arbitrary: i b)
  case (Cons c cs)
  from Cons.prems(1) obtain v b1 where v: "fetch row i = (Ok v :: (append_error, go_value) outcome)"
    "push_value i c v b = (b1, Ok ())" "push_row (Suc i) cs row b1 = (b', Ok ())"
    by (auto simp: after_step_Ok_iff split: outcome.splits)
  have "v \<in> set row" using v(1) by (auto simp: fetch_def split: if_splits)
  with v(2) have "str \<in> set (slice_at (wb_stringCols b) j) \<or> VString str \<in> set row"
    if "str \<in> set (slice_at (wb_stringCols b1) j)"
    using that by (auto simp: push_value_def slice_at_def split: column_type.splits go_value.splits if_splits option.splits)
  with Cons.IH [OF v(3) Cons.prems(2)] show ?case by blast
qed auto

lemma Append_strings:
  "Append b row = (b', Ok ()) \<Longrightarrow> str \<in> set (slice_at (wb_stringCols b') j) \<Longrightarrow>
   str \<in> set (slice_at (wb_stringCols b) j) \<or> VString str \<in> set row"
  by (auto simp: Append_def Let_def after_step_Ok_iff split: if_splits dest: push_row_strings)

lemma NewWriteBuffer_strings [simp]: "slice_at (wb_stringCols (NewWriteBuffer s)) j = []"
proof -
  have "slice_at (wb_stringCols (register_columns i cs b)) j = []" if "slice_at (wb_stringCols b) j = []" for i cs b
    using that by (induction i cs b rule: register_columns.induct) (auto simp: slice_at_def split: column_type.splits)
  then show ?thesis by (simp add: NewWriteBuffer_def slice_at_def)
qed

section \<open>Reset and construction\<close>

lemma slice_at_reset: "slice_at (map_option (\<lambda>_. []) \<circ> m) i = []"
  by (simp add: slice_at_def split: option.split)

lemma column_values_Reset [simp]: "column_values (Reset b) t i = []"
  by (simp add: column_values_def Reset_def slice_at_reset split: column_type.split)

lemma Reset_props:
  "wf_buffer (Reset b)" "buffer_rows (Reset b) = []" "wb_schema (Reset b) = wb_schema b"
  "wb_rows (Reset b) = 0"
  by (auto simp: wf_buffer_def buffer_columns_def buffer_rows_def rows_of_columns_def)
    (simp_all add: Reset_def)

lemma register_columns_props:
  assumes "\<And>t j. column_values b t j = []"
  shows "column_values (register_columns i cs b) t j = [] \<and>
    wb_schema (register_columns i cs b) = wb_schema b \<and> wb_rows (register_columns i cs b) = wb_rows b"
  using assms
proof (induction cs arbitrary: i b)
  case (Cons c cs)
  let ?b = "case col_type c of
          Int64 \<Rightarrow> b\<lparr>wb_int64Cols := (wb_int64Cols b)(i \<mapsto> [])\<rparr>
        | Float64 \<Rightarrow> b\<lparr>wb_float64Cols := (wb_float64Cols b)(i \<mapsto> [])\<rparr>
        | String \<Rightarrow> b\<lparr>wb_stringCols := (wb_stringCols b)(i \<mapsto> [])\<rparr>
        | OtherType _ \<Rightarrow> b"
  have empty: "slice_at (wb_int64Cols b) k = []" "slice_at (wb_float64Cols b) k = []"
    "slice_at (wb_stringCols b) k = []" for k
    using Cons.prems [of Int64 k] Cons.prems [of Float64 k] Cons.prems [of String k]
    by (simp_all add: column_values_def)
  have "column_values ?b t' j' = []" for t' j'
    using empty by (auto simp: column_values_def slice_at_def split: column_type.split)
  from Cons.IH [OF this, of "Suc i"] show ?case
    by (simp split: column_type.split)
qed simp

lemma NewWriteBuffer_props:
  "wf_buffer (NewWriteBuffer s)" "buffer_rows (NewWriteBuffer s) = []"
  "wb_schema (NewWriteBuffer s) = s" "wb_rows (NewWriteBuffer s) = 0"
proof -
  let ?b = "\<lparr>wb_schema = s, wb_int64Cols = Map.empty, wb_float64Cols = Map.empty,
        wb_stringCols = Map.empty, wb_rows = 0\<rparr>"
  have "column_values ?b t j = []" for t j
    by (simp add: column_values_def slice_at_def split: column_type.split)
  note * = register_columns_props [of ?b 0 "schema_columns s", OF this]
  show "wb_schema (NewWriteBuffer s) = s" "wb_rows (NewWriteBuffer s) = 0"
    using * by (simp_all add: NewWriteBuffer_def)
  then show "wf_buffer (NewWriteBuffer s)" "buffer_rows (NewWriteBuffer s) = []"
    using * by (auto simp: wf_buffer_def buffer_columns_def buffer_rows_def rows_of_columns_def
        NewWriteBuffer_def)
qed

section \<open>The contract of a row buffer\<close>

text \<open>
  What a client of the buffer relies on: a row that the buffer admits is appended to its contents,
  any other row is refused with an error and leaves the buffer as it was, and resetting forgets the contents only.
\<close>

locale row_buffer =
  fixes append_row :: "'b \<Rightarrow> 'r \<Rightarrow> 'b \<times> ('e, unit) outcome"
    and clear :: "'b \<Rightarrow> 'b"
    and contents :: "'b \<Rightarrow> 'r list"
    and admits :: "'b \<Rightarrow> 'r \<Rightarrow> bool"
    and inv :: "'b \<Rightarrow> bool"
  assumes append_admitted:
      "inv b \<Longrightarrow> admits b r \<Longrightarrow>
       \<exists>b'. append_row b r = (b', Ok ()) \<and> inv b' \<and> contents b' = contents b @ [r] \<and> admits b' = admits b"
    and append_refused: "inv b \<Longrightarrow> \<not> admits b r \<Longrightarrow> \<exists>e. append_row b r = (b, Err e)"
    and clear_inv: "inv b \<Longrightarrow> inv (clear b) \<and> contents (clear b) = [] \<and> admits (clear b) = admits b"
begin

text \<open>Feeding rows one by one, with the buffer that each call leaves.\<close>

primrec feed :: "'b \<Rightarrow> 'r list \<Rightarrow> 'b" where
  "feed b [] = b"
| "feed b (r # rs) = feed (fst (append_row b r)) rs"

lemma append_cases:
  assumes "inv b"
  shows "admits b r \<and> (\<exists>b'. append_row b r = (b', Ok ()) \<and> inv b' \<and> contents b' = contents b @ [r] \<and>
      admits b' = admits b) \<or> \<not> admits b r \<and> (\<exists>e. append_row b r = (b, Err e))"
  using append_admitted [OF assms] append_refused [OF assms] by blast

lemma append_Ok:
  assumes "inv b" "append_row b r = (b', Ok ())"
  shows "admits b r" "inv b'" "contents b' = contents b @ [r]" "admits b' = admits b"
  using append_cases [OF assms(1), of r] assms(2) by auto

lemma feed_contents:
  "inv b \<Longrightarrow>
   inv (feed b rs) \<and> contents (feed b rs) = contents b @ filter (admits b) rs \<and> admits (feed b rs) = admits b"
proof (induction rs arbitrary: b)
  case (Cons r rs)
  from append_cases [OF Cons.prems, of r] Cons show ?case by fastforce
qed simp

end

interpretation buffer: row_buffer Append Reset buffer_rows "\<lambda>b. row_conforms (wb_schema b)" wf_buffer
proof
  fix b r
  assume wf: "wf_buffer b"
  show "row_conforms (wb_schema b) r \<Longrightarrow>
      \<exists>b'. Append b r = (b', Ok ()) \<and> wf_buffer b' \<and> buffer_rows b' = buffer_rows b @ [r] \<and>
           row_conforms (wb_schema b') = row_conforms (wb_schema b)"
    using Append_conforming [OF wf] by metis
  show "\<not> row_conforms (wb_schema b) r \<Longrightarrow> \<exists>e. Append b r = (b, Err e)"
    by (rule Append_rejects)
  show "wf_buffer (Reset b) \<and> buffer_rows (Reset b) = [] \<and>
      row_conforms (wb_schema (Reset b)) = row_conforms (wb_schema b)"
    by (simp add: Reset_props)
qed

section \<open>Properties\<close>

text \<open>
  C31: \<open>Append\<close> refines appending a row to a list, atomically. A row with one value of the column's
  Go type per column is added at the end of the abstract content; any other row is an error, and the buffer that the
  call leaves, its slices, counter and schema, is the one it got; \<open>Append\<close> never panics, its second loop's
  assertions included.
\<close>

theorem Append_refines_snoc:
  assumes "wf_buffer b"
  shows "case Append b row of (b', r) \<Rightarrow>
    if row_conforms (wb_schema b) row
    then r = Ok () \<and> wf_buffer b' \<and> wb_schema b' = wb_schema b \<and>
      buffer_rows b' = buffer_rows b @ [row] \<and> Len b' = Suc (Len b)
    else b' = b \<and> (\<exists>e. r = Err e)"
proof (cases "row_conforms (wb_schema b) row")
  case True
  obtain b' where "Append b row = (b', Ok ())" "wf_buffer b'" "wb_schema b' = wb_schema b"
      "wb_rows b' = Suc (wb_rows b)" "buffer_rows b' = buffer_rows b @ [row]"
    using assms True by (rule Append_conforming)
  with True show ?thesis by (simp add: Len_def)
next
  case False
  from Append_rejects [OF this] False show ?thesis by auto
qed

definition example_schema :: schema where
  "example_schema =
     \<lparr>schema_pk = ''id'', schema_columns =
        [\<lparr>col_name = ''id'', col_type = Int64\<rparr>, \<lparr>col_name = ''name'', col_type = String\<rparr>]\<rparr>"

theorem Append_refines_snoc_witness:
  "(case Append (NewWriteBuffer example_schema) [VInt64 1, VString ''x''] of
      (b', r) \<Rightarrow> r = Ok () \<and> buffer_rows b' = [[VInt64 1, VString ''x'']]) \<and>
   (\<exists>e. Append (NewWriteBuffer example_schema) [VInt64 1, VInt64 2] = (NewWriteBuffer example_schema, Err e))"
  using Append_refines_snoc [OF NewWriteBuffer_props(1), of example_schema "[VInt64 1, VString ''x'']"]
    Append_refines_snoc [OF NewWriteBuffer_props(1), of example_schema "[VInt64 1, VInt64 2]"]
  by (auto simp: row_conforms_def example_schema_def NewWriteBuffer_props)

text \<open>A sequence of appends, errors ignored, on the buffer that each call leaves.\<close>

definition append_all :: "write_buffer \<Rightarrow> row list \<Rightarrow> write_buffer" where
  "append_all b rows = foldl (\<lambda>b row. fst (Append b row)) b rows"

lemma feed_append_all: "buffer.feed b rows = append_all b rows"
  by (induction rows arbitrary: b) (simp_all add: append_all_def)

lemma append_all_rows:
  assumes "wf_buffer b"
  shows "wf_buffer (append_all b rows)" "buffer_rows (append_all b rows) = buffer_rows b @ filter (row_conforms (wb_schema b)) rows"
    "row_conforms (wb_schema (append_all b rows)) = row_conforms (wb_schema b)"
  using buffer.feed_contents [OF assms, of rows] by (simp_all add: feed_append_all)

text \<open>
  C32: a life cycle of the buffer. Over any sequence of rows a new buffer ends up with exactly the conforming ones,
  in order. \<open>Reset\<close> empties every column and keeps the schema: the reset buffer is well-formed, and after any
  further rows it holds exactly the conforming ones of these, as a new buffer would, nothing of the
  rows before the reset showing up again.
\<close>

theorem buffer_holds_conforming_rows:
  "let b = append_all (NewWriteBuffer s) rows; b' = append_all (Reset b) rows2
   in buffer_rows b = filter (row_conforms s) rows \<and> Len b = length (filter (row_conforms s) rows) \<and>
      wf_buffer (Reset b) \<and> wb_schema (Reset b) = wb_schema b \<and> Len (Reset b) = 0 \<and>
      (\<forall>column \<in> set (buffer_columns (Reset b)). column = []) \<and>
      wf_buffer b' \<and> buffer_rows b' = filter (row_conforms s) rows2 \<and> Len b' = length (filter (row_conforms s) rows2)"
proof -
  let ?b = "append_all (NewWriteBuffer s) rows"
  note b = append_all_rows [OF NewWriteBuffer_props(1), of s rows]
  have admits: "row_conforms (wb_schema (Reset ?b)) = row_conforms s"
    using b(3) by (simp add: Reset_props NewWriteBuffer_props)
  note b' = append_all_rows [OF Reset_props(1) [of ?b], of rows2]
  have len: "Len x = length (buffer_rows x)" for x by (simp add: Len_def)
  have "\<forall>column \<in> set (buffer_columns (Reset ?b)). column = []"
    by (auto simp: buffer_columns_def)
  then show ?thesis
    using b(2) b'(1,2) admits by (simp add: Let_def len NewWriteBuffer_props Reset_props del: length_buffer_rows)
qed

theorem buffer_holds_conforming_rows_witness:
  "buffer_rows (append_all (Reset (append_all (NewWriteBuffer example_schema) [[VInt64 1, VString ''x'']]))
     [[VInt64 2], [VInt64 3, VString ''y'']]) = [[VInt64 3, VString ''y'']]"
  using buffer_holds_conforming_rows [of example_schema "[[VInt64 1, VString ''x'']]"
      "[[VInt64 2], [VInt64 3, VString ''y'']]"]
  by (simp add: Let_def row_conforms_def example_schema_def)

end
