(* ===== verification/SegmentWrite.thy ===== *)
theory SegmentWrite
  imports Bloom Rle Buffer "HOL-Library.Sublist"
begin

text \<open>
  The writing half of \<open>storage/segment.go\<close>: the wire constants, the type tags and
  \<open>WriteSegment\<close>. The \<open>io.Writer\<close> is a parameter: a function from its state and a byte slice to
  its new state and whether the write succeeded; the locale \<open>byte_sink\<close> states what
  \<open>io.Writer\<close> promises. Every write of the code is an \<open>emit\<close> with the error the code wraps.
\<close>

section \<open>Constants, errors and options\<close>

definition segmentMagic :: "byte list" where "segmentMagic = bytes_of ''UCOL''"
definition segmentVersionV1 :: "16 word" where "segmentVersionV1 = 1"
definition segmentVersionV2 :: "16 word" where "segmentVersionV2 = 2"
definition segmentHeaderLen :: nat where "segmentHeaderLen = 16"
definition bloomTrailerMagic :: "byte list" where "bloomTrailerMagic = bytes_of ''UBLM''"
definition bloomTrailerVersion :: "16 word" where "bloomTrailerVersion = 1"
definition flagHasPKName :: byte where "flagHasPKName = 1"
definition flagHasBloom :: byte where "flagHasBloom = 2"

lemmas segment_constants =
  segmentVersionV1_def segmentVersionV2_def segmentHeaderLen_def bloomTrailerVersion_def
  flagHasPKName_def flagHasBloom_def

datatype write_step =
    AtHeader | AtFlagsLen | AtFlags | AtPkNameLength | AtPkName
  | AtNameLength string | AtName string | AtTags string
  | AtPayloadLength string | AtPayload string
  | AtBloomMagic | AtBloomVersion | AtBloomBody

datatype read_step =
    InFileHeader | InFlagsLen | InFlags | InPkNameLength | InPkName
  | InNameLength nat | InName nat | InTags nat | InPayloadLength nat | InPayload nat
  | InBloomHeader

datatype decode_error = RawFailed raw_error | RleFailed rle_error

datatype segment_error =
    TooManyColumns nat
  | WriteFailed write_step
  | UnknownType string string
  | NoWireType string
  | BadWireType byte
  | ErrTruncated read_step
  | ReadFailed
  | ErrBadMagic "byte list"
  | ErrUnsupportedVersion "16 word"
  | ZeroFlagsLen
  | BadColumnType nat string segment_error
  | BadEncoding nat string byte
  | ErrBadBloomMagic "byte list"
  | ErrUnsupportedBloomVersion "16 word"
  | BloomTrailer bloom_error
  | ErrUnknownColumn string
  | DecodeFailed string decode_error
  | OpenFailed string

fun columnTypeToWire :: "column_type \<Rightarrow> (segment_error, byte) outcome" where
  "columnTypeToWire Int64 = Ok 0"
| "columnTypeToWire Float64 = Ok 1"
| "columnTypeToWire String = Ok 2"
| "columnTypeToWire t = Err (NoWireType (column_type_string t))"

definition wireToColumnType :: "byte \<Rightarrow> (segment_error, column_type) outcome" where
  "wireToColumnType w =
     (if w = 0 then Ok Int64 else if w = 1 then Ok Float64 else if w = 2 then Ok String
      else Err (BadWireType w))"

record segment_opts =
  opt_PKName :: string
  opt_Bloom :: "bloom_filter option"

section \<open>WriteSegment\<close>

type_synonym 'w writer = "'w \<Rightarrow> byte list \<Rightarrow> 'w \<times> bool"
type_synonym 'w writing = "'w \<Rightarrow> 'w \<times> (segment_error, unit) outcome"

text \<open>\<open>if _, err := w.Write(bs); err != nil { return ... }\<close>, then the rest of the function.\<close>

definition emit :: "'w writer \<Rightarrow> write_step \<Rightarrow> byte list \<Rightarrow> 'w writing \<Rightarrow> 'w writing" where
  "emit wr at bs k w = (let (w', ok) = wr w bs in if ok then k w' else (w', Err (WriteFailed at)))"

definition encode_column :: "column_type \<Rightarrow> write_buffer \<Rightarrow> nat \<Rightarrow> (encoding \<times> byte list) option" where
  "encode_column t buf i =
     (case t of
        Int64 \<Rightarrow>
          let vals = slice_at (wb_int64Cols buf) i; e = chooseEncoding vals
          in Some (e, if e = EncodingRLE then encodeRLEInt64 vals else encodeRawInt64 vals)
      | Float64 \<Rightarrow>
          let vals = slice_at (wb_float64Cols buf) i; e = chooseEncoding vals
          in Some (e, if e = EncodingRLE then encodeRLEFloat64 vals else encodeRawFloat64 vals)
      | String \<Rightarrow>
          let vals = slice_at (wb_stringCols buf) i; e = chooseEncoding vals
          in Some (e, if e = EncodingRLE then encodeRLEString vals else encodeRawString vals)
      | OtherType _ \<Rightarrow> None)"

fun write_columns ::
  "'w writer \<Rightarrow> nat \<Rightarrow> column list \<Rightarrow> write_buffer \<Rightarrow> 'w writing \<Rightarrow> 'w writing" where
  "write_columns wr i [] buf k = k"
| "write_columns wr i (c # cs) buf k =
     (case encode_column (col_type c) buf i of
        None \<Rightarrow> (\<lambda>w. (w, Err (UnknownType (col_name c) (column_type_string (col_type c)))))
      | Some (e, payload) \<Rightarrow>
          (case columnTypeToWire (col_type c) of
             Err err \<Rightarrow> (\<lambda>w. (w, Err err))
           | Panic p \<Rightarrow> (\<lambda>w. (w, Panic p))
           | Ok wire \<Rightarrow>
               emit wr (AtNameLength (col_name c)) (putUvarint (length (col_name c)))
               (emit wr (AtName (col_name c)) (bytes_of (col_name c))
               (emit wr (AtTags (col_name c)) [wire, encoding_to_byte e]
               (emit wr (AtPayloadLength (col_name c)) (putUvarint (length payload))
               (emit wr (AtPayload (col_name c)) payload
               (write_columns wr (Suc i) cs buf k)))))))"

definition segment_flags :: "segment_opts \<Rightarrow> byte" where
  "segment_flags opts =
     (if opt_PKName opts \<noteq> [] then flagHasPKName else 0) OR
     (case opt_Bloom opts of None \<Rightarrow> 0 | Some _ \<Rightarrow> flagHasBloom)"

definition write_bloom :: "'w writer \<Rightarrow> bloom_filter option \<Rightarrow> 'w writing" where
  "write_bloom wr bf =
     (case bf of
        None \<Rightarrow> (\<lambda>w. (w, Ok ()))
      | Some f \<Rightarrow>
          emit wr AtBloomMagic bloomTrailerMagic
          (emit wr AtBloomVersion (putUint16 bloomTrailerVersion)
          (emit wr AtBloomBody (MarshalBinary f) (\<lambda>w. (w, Ok ())))))"

definition WriteSegment ::
  "'w writer \<Rightarrow> schema \<Rightarrow> write_buffer \<Rightarrow> segment_opts \<Rightarrow> 'w writing" where
  "WriteSegment wr schema buf opts =
     (let cols = schema_columns schema; flags = segment_flags opts
      in if length cols > 0xFFFF then (\<lambda>w. (w, Err (TooManyColumns (length cols))))
         else
           emit wr AtHeader (segmentMagic @ putUint16 segmentVersionV2 @
               putUint16 (of_nat (length cols)) @ putUint64 (of_nat (Len buf)))
           (emit wr AtFlagsLen (putUvarint 1)
           (emit wr AtFlags [flags]
           (let rest = write_columns wr 0 cols buf (write_bloom wr (opt_Bloom opts))
            in if flags AND flagHasPKName \<noteq> 0
               then emit wr AtPkNameLength (putUvarint (length (opt_PKName opts)))
                    (emit wr AtPkName (bytes_of (opt_PKName opts)) rest)
               else rest))))"

section \<open>The wire format\<close>

text \<open>The bytes of a segment, part by part, as the specification of \<open>WriteSegment\<close>.\<close>

definition wire_of_type :: "column_type \<Rightarrow> byte" where
  "wire_of_type t = (case t of Int64 \<Rightarrow> 0 | Float64 \<Rightarrow> 1 | String \<Rightarrow> 2 | OtherType b \<Rightarrow> 3)"

definition column_payload :: "write_buffer \<Rightarrow> column_type \<Rightarrow> nat \<Rightarrow> byte list" where
  "column_payload buf t i =
     (case t of
        Int64 \<Rightarrow> encodeRLEInt64 (slice_at (wb_int64Cols buf) i)
      | Float64 \<Rightarrow> encodeRLEFloat64 (slice_at (wb_float64Cols buf) i)
      | String \<Rightarrow> encodeRLEString (slice_at (wb_stringCols buf) i)
      | OtherType _ \<Rightarrow> [])"

definition column_head :: "column \<Rightarrow> byte list \<Rightarrow> byte list" where
  "column_head c payload =
     putUvarint (length (col_name c)) @ bytes_of (col_name c) @ [wire_of_type (col_type c), 1] @
     putUvarint (length payload)"

fun columns_bytes :: "nat \<Rightarrow> column list \<Rightarrow> write_buffer \<Rightarrow> byte list" where
  "columns_bytes i [] buf = []"
| "columns_bytes i (c # cs) buf =
     column_head c (column_payload buf (col_type c) i) @ column_payload buf (col_type c) i @
     columns_bytes (Suc i) cs buf"

definition header_bytes :: "nat \<Rightarrow> nat \<Rightarrow> byte list" where
  "header_bytes cols rows =
     segmentMagic @ putUint16 segmentVersionV2 @ putUint16 (of_nat cols) @ putUint64 (of_nat rows)"

definition pk_bytes_block :: "string \<Rightarrow> byte list" where
  "pk_bytes_block pk = (if pk = [] then [] else putUvarint (length pk) @ bytes_of pk)"

definition trailer_bytes :: "bloom_filter option \<Rightarrow> byte list" where
  "trailer_bytes bf =
     (case bf of None \<Rightarrow> [] | Some f \<Rightarrow> bloomTrailerMagic @ putUint16 bloomTrailerVersion @ MarshalBinary f)"

definition segment_bytes :: "schema \<Rightarrow> write_buffer \<Rightarrow> segment_opts \<Rightarrow> byte list" where
  "segment_bytes schema buf opts =
     header_bytes (length (schema_columns schema)) (wb_rows buf) @
     putUvarint 1 @ [segment_flags opts] @ pk_bytes_block (opt_PKName opts) @
     columns_bytes 0 (schema_columns schema) buf @ trailer_bytes (opt_Bloom opts)"

definition known_types :: "column list \<Rightarrow> bool" where
  "known_types cs \<longleftrightarrow> (\<forall>c \<in> set cs. col_type c \<in> {Int64, Float64, String})"

lemma known_types_simps [simp]:
  "known_types []"
  "known_types (c # cs) \<longleftrightarrow> (col_type c = Int64 \<or> col_type c = Float64 \<or> col_type c = String) \<and> known_types cs"
  by (auto simp: known_types_def)

lemma columnTypeToWire_known: "t = Int64 \<or> t = Float64 \<or> t = String \<Longrightarrow> columnTypeToWire t = Ok (wire_of_type t)"
  by (auto simp: wire_of_type_def)

lemma wireToColumnType_wire_of_type:
  "t = Int64 \<or> t = Float64 \<or> t = String \<Longrightarrow> wireToColumnType (wire_of_type t) = Ok t"
  by (auto simp: wire_of_type_def wireToColumnType_def)

lemma encode_column_known:
  "t = Int64 \<or> t = Float64 \<or> t = String \<Longrightarrow>
   encode_column t buf i = Some (EncodingRLE, column_payload buf t i)"
  by (auto simp: encode_column_def column_payload_def chooseEncoding_def)

lemma segment_flags_bits:
  "segment_flags opts AND flagHasPKName \<noteq> 0 \<longleftrightarrow> opt_PKName opts \<noteq> []"
  "segment_flags opts AND flagHasBloom \<noteq> 0 \<longleftrightarrow> opt_Bloom opts \<noteq> None"
  by (auto simp: segment_flags_def segment_constants split: option.split)

section \<open>Writing to a sink\<close>

text \<open>
  The contract of \<open>io.Writer\<close>: a successful write appends the whole slice to what was written, a
  failed one at most a prefix of it. \<open>emits k bs r\<close>: the writing \<open>k\<close> either produces \<open>bs\<close> and
  returns \<open>r\<close>, or stops at a failed write, having produced a prefix.
\<close>

locale byte_sink =
  fixes wr :: "'w writer" and written :: "'w \<Rightarrow> byte list"
  assumes write_ok: "wr w bs = (w', True) \<Longrightarrow> written w' = written w @ bs"
    and write_failed: "wr w bs = (w', False) \<Longrightarrow> \<exists>p. prefix p bs \<and> written w' = written w @ p"
begin

definition emits :: "'w writing \<Rightarrow> byte list \<Rightarrow> (segment_error, unit) outcome \<Rightarrow> bool" where
  "emits k bs r \<longleftrightarrow>
     (\<forall>w w' res. k w = (w', res) \<longrightarrow>
        (res = r \<and> written w' = written w @ bs) \<or>
        (\<exists>p at. prefix p bs \<and> written w' = written w @ p \<and> res = Err (WriteFailed at)))"

lemma emits_return: "emits (\<lambda>w. (w, r)) [] r"
  by (simp add: emits_def)

lemma emits_emit:
  assumes "emits k cs r" "ds = bs @ cs"
  shows "emits (emit wr at bs k) ds r"
  unfolding emits_def
proof (intro allI impI)
  fix w w' res
  assume run: "emit wr at bs k w = (w', res)"
  obtain w1 ok where w1: "wr w bs = (w1, ok)" by (cases "wr w bs")
  show "(res = r \<and> written w' = written w @ ds) \<or>
        (\<exists>p at. prefix p ds \<and> written w' = written w @ p \<and> res = Err (WriteFailed at))"
  proof (cases ok)
    case True
    with w1 have wb: "written w1 = written w @ bs" using write_ok by simp
    have "k w1 = (w', res)" using run by (simp add: emit_def w1 True)
    then consider "res = r" "written w' = written w1 @ cs"
      | p a where "prefix p cs" "written w' = written w1 @ p" "res = Err (WriteFailed a)"
      using assms(1) unfolding emits_def by blast
    then show ?thesis
    proof cases
      case 1
      then show ?thesis by (simp add: wb assms(2))
    next
      case 2
      then show ?thesis by (auto simp: wb assms(2) intro!: exI [of _ "bs @ p"])
    qed
  next
    case False
    with w1 obtain p where "prefix p bs" "written w1 = written w @ p"
      using write_failed [of w bs w1] by auto
    then show ?thesis using False run by (auto simp: emit_def w1 assms(2))
  qed
qed

lemma emits_columns:
  "known_types cs \<Longrightarrow> emits k bs r \<Longrightarrow>
   emits (write_columns wr i cs buf k) (columns_bytes i cs buf @ bs) r"
proof (induction cs arbitrary: i)
  case (Cons c cs)
  then have "emits (write_columns wr (Suc i) cs buf k) (columns_bytes (Suc i) cs buf @ bs) r"
    by simp
  note * = emits_emit [OF emits_emit [OF emits_emit [OF emits_emit [OF emits_emit [OF this]]]]]
  from Cons.prems have "col_type c = Int64 \<or> col_type c = Float64 \<or> col_type c = String" by simp
  then show ?case
    by (simp add: encode_column_known columnTypeToWire_known) (rule *, rule refl, rule refl, rule refl,
        rule refl, simp add: column_head_def encoding_to_byte_def)
qed simp

lemma emits_trailer: "emits (write_bloom wr bf) (trailer_bytes bf) (Ok ())"
proof (cases bf)
  case None
  then show ?thesis by (simp add: write_bloom_def trailer_bytes_def emits_return)
next
  case (Some f)
  then show ?thesis
    by (simp add: write_bloom_def trailer_bytes_def)
      (rule emits_emit [OF emits_emit [OF emits_emit [OF emits_return refl] refl]], simp)
qed

lemma emits_segment:
  assumes "length (schema_columns schema) \<le> 0xFFFF" "known_types (schema_columns schema)"
  shows "emits (WriteSegment wr schema buf opts) (segment_bytes schema buf opts) (Ok ())"
proof -
  let ?rest = "write_columns wr 0 (schema_columns schema) buf (write_bloom wr (opt_Bloom opts))"
  let ?bytes = "columns_bytes 0 (schema_columns schema) buf @ trailer_bytes (opt_Bloom opts)"
  have rest: "emits ?rest ?bytes (Ok ())"
    using assms(2) emits_trailer by (rule emits_columns)
  have name: "emits (if opt_PKName opts \<noteq> []
      then emit wr AtPkNameLength (putUvarint (length (opt_PKName opts)))
             (emit wr AtPkName (bytes_of (opt_PKName opts)) ?rest)
      else ?rest) (pk_bytes_block (opt_PKName opts) @ ?bytes) (Ok ())"
    using emits_emit [OF emits_emit [OF rest refl] refl] rest by (simp add: pk_bytes_block_def)
  show ?thesis
    unfolding WriteSegment_def Let_def segment_flags_bits if_not_P [OF assms(1) [unfolded not_less [symmetric]]]
    by (rule emits_emit [OF emits_emit [OF emits_emit [OF name refl] refl] refl, THEN back_subst [of "\<lambda>bs. emits _ bs _"]])
      (simp add: segment_bytes_def header_bytes_def Len_def)
qed

lemma segment_written:
  assumes "length (schema_columns schema) \<le> 0xFFFF" "known_types (schema_columns schema)"
    and "WriteSegment wr schema buf opts w = (w', Ok ())"
  shows "written w' = written w @ segment_bytes schema buf opts"
  using emits_segment [OF assms(1,2), of buf opts] assms(3)
  unfolding emits_def by blast

lemma segment_prefix:
  assumes "length (schema_columns schema) \<le> 0xFFFF" "known_types (schema_columns schema)"
    and "WriteSegment wr schema buf opts w = (w', Err e)"
  shows "\<exists>p at. prefix p (segment_bytes schema buf opts) \<and> written w' = written w @ p \<and> e = WriteFailed at"
  using emits_segment [OF assms(1,2), of buf opts] assms(3)
  unfolding emits_def by blast

end

text \<open>
  \<open>bytes.Buffer\<close>, whose \<open>Write\<close> never fails, and a file on a device with bounded room, whose
  \<open>Write\<close> fails after filling it.
\<close>

definition buffer_write :: "byte list writer" where
  "buffer_write w bs = (w @ bs, True)"

definition bounded_write :: "nat \<Rightarrow> byte list writer" where
  "bounded_write room w bs =
     (w @ take (room - length w) bs, length bs \<le> room - length w)"

interpretation memory: byte_sink buffer_write "\<lambda>w. w"
  by unfold_locales (auto simp: buffer_write_def)

interpretation bounded: byte_sink "bounded_write room" "\<lambda>w. w" for room
  by unfold_locales (auto simp: bounded_write_def intro: take_is_prefix)

text \<open>Without write failures every step is taken.\<close>

lemma emit_buffer [simp]: "emit buffer_write at bs k w = k (w @ bs)"
  by (simp add: emit_def buffer_write_def)

lemma write_columns_buffer:
  "known_types cs \<Longrightarrow> write_columns buffer_write i cs buf k w = k (w @ columns_bytes i cs buf)"
proof (induction cs arbitrary: i w)
  case (Cons c cs)
  then have "col_type c = Int64 \<or> col_type c = Float64 \<or> col_type c = String" by simp
  with Cons show ?case
    by (simp add: encode_column_known columnTypeToWire_known column_head_def encoding_to_byte_def)
qed simp

lemma WriteSegment_buffer:
  assumes "length (schema_columns schema) \<le> 0xFFFF" "known_types (schema_columns schema)"
  shows "WriteSegment buffer_write schema buf opts w = (w @ segment_bytes schema buf opts, Ok ())"
  using assms
  by (simp add: WriteSegment_def Let_def write_columns_buffer write_bloom_def segment_bytes_def
      header_bytes_def pk_bytes_block_def trailer_bytes_def segment_flags_bits Len_def
      split: option.split)

end
