(* ===== verification/SegmentRead.thy ===== *)
theory SegmentRead
  imports SegmentWrite
begin

text \<open>
  The reading half of \<open>storage/segment.go\<close>: \<open>parseSegment\<close> over a byte slice with an explicit
  offset, \<open>ReadSegmentHeader\<close> over an \<open>io.Reader\<close> (the bytes it delivers and whether it ends with
  an error other than EOF), and \<open>ReadColumn\<close> with its cache of decoded columns. Error values keep
  the sentinel and the place; the offsets printed in some messages are left out.
\<close>

section \<open>State\<close>

record column_block =
  cb_encoding :: encoding
  cb_payloadOff :: nat
  cb_payloadLen :: nat

datatype column_data =
    Int64s "int64 list"
  | Float64s "float64 list"
  | Strings "string list"

record segment =
  seg_version :: "16 word"
  seg_schema :: schema
  seg_rowCount :: uint64
  seg_raw :: "byte list"
  seg_blocks :: "string \<rightharpoonup> column_block"
  seg_decoded :: "string \<rightharpoonup> column_data"
  seg_flags :: byte
  seg_pkName :: string
  seg_bloomFilter :: "bloom_filter option"

section \<open>parseSegment\<close>

text \<open>
  The length in front of a field, checked against the rest of the data; the two errors are the caller's.
  \<open>uint64(len(data)-offset)\<close> is a natural number: a successful \<open>Uvarint\<close> ends inside the data.
\<close>

definition parse_length ::
  "byte list \<Rightarrow> nat \<Rightarrow> read_step \<Rightarrow> read_step \<Rightarrow> (segment_error, nat \<times> nat) outcome" where
  "parse_length data offset at_len at_body =
     bind_ok (slice_from data offset) (\<lambda>rest.
       (case uvarint rest of
          None \<Rightarrow> Err (ErrTruncated at_len)
        | Some (len, n) \<Rightarrow>
            let offset = offset + n
            in if length data - offset < len then Err (ErrTruncated at_body) else Ok (len, offset)))"

text \<open>\<open>[length: uvarint][bytes]\<close> at an offset, and the offset behind it.\<close>

definition parse_counted ::
  "byte list \<Rightarrow> nat \<Rightarrow> read_step \<Rightarrow> read_step \<Rightarrow> (segment_error, byte list \<times> nat) outcome" where
  "parse_counted data offset at_len at_body =
     bind_ok (parse_length data offset at_len at_body) (\<lambda>(len, offset).
     bind_ok (go_slice data offset (offset + len)) (\<lambda>bytes.
       Ok (bytes, offset + len)))"

text \<open>The flags block of version 2: the flags byte, the primary-key name, the new offset.\<close>

definition parse_flags :: "byte list \<Rightarrow> nat \<Rightarrow> (segment_error, byte \<times> string \<times> nat) outcome" where
  "parse_flags data offset =
     bind_ok (slice_from data offset) (\<lambda>rest.
       (case uvarint rest of
          None \<Rightarrow> Err (ErrTruncated InFlagsLen)
        | Some (flagsLen, n) \<Rightarrow>
            let offset = offset + n
            in if flagsLen = 0 then Err ZeroFlagsLen
               else if length data - offset < flagsLen then Err (ErrTruncated InFlags)
               else bind_ok (fetch data offset) (\<lambda>flags.
                 let offset = offset + flagsLen
                 in if flags AND flagHasPKName \<noteq> 0
                    then bind_ok (parse_counted data offset InPkNameLength InPkName) (\<lambda>(name, offset).
                           Ok (flags, string_of name, offset))
                    else Ok (flags, [], offset))))"

definition parse_column ::
  "byte list \<Rightarrow> nat \<Rightarrow> nat \<Rightarrow> (segment_error, column \<times> column_block \<times> nat) outcome" where
  "parse_column data i offset =
     bind_ok (parse_counted data offset (InNameLength i) (InName i)) (\<lambda>(nameBytes, offset).
       let name = string_of nameBytes
       in if length data < offset + 2 then Err (ErrTruncated (InTags i))
          else
            bind_ok (fetch data offset) (\<lambda>wireType.
            bind_ok (fetch data (offset + 1)) (\<lambda>enc.
              let offset = offset + 2
              in bind_ok (map_err (BadColumnType i name) (wireToColumnType wireType)) (\<lambda>colType.
                   if encoding_of_byte enc \<noteq> EncodingRaw \<and> encoding_of_byte enc \<noteq> EncodingRLE
                   then Err (BadEncoding i name enc)
                   else bind_ok (parse_length data offset (InPayloadLength i) (InPayload i))
                     (\<lambda>(payloadLen, offset).
                       Ok (\<lparr>col_name = name, col_type = colType\<rparr>,
                           \<lparr>cb_encoding = encoding_of_byte enc,
                            cb_payloadOff = offset,
                            cb_payloadLen = payloadLen\<rparr>, offset + payloadLen))))))"

text \<open>The loop over the columns; \<open>k\<close> columns are left, \<open>i\<close> is the next one.\<close>

fun parse_columns :: "byte list \<Rightarrow> nat \<Rightarrow> nat \<Rightarrow> nat \<Rightarrow> segment \<Rightarrow> (segment_error, segment \<times> nat) outcome" where
  "parse_columns data 0 i offset s = Ok (s, offset)"
| "parse_columns data (Suc k) i offset s =
     bind_ok (parse_column data i offset) (\<lambda>(c, b, offset).
       parse_columns data k (Suc i) offset
         (s\<lparr>seg_schema := (seg_schema s)\<lparr>schema_columns := schema_columns (seg_schema s) @ [c]\<rparr>,
            seg_blocks := (seg_blocks s)(col_name c \<mapsto> b)\<rparr>))"

definition parse_trailer :: "byte list \<Rightarrow> nat \<Rightarrow> (segment_error, bloom_filter) outcome" where
  "parse_trailer data offset =
     (if length data - offset < 6 then Err (ErrTruncated InBloomHeader)
      else
        bind_ok (go_slice data offset (offset + 4)) (\<lambda>magic.
          if magic \<noteq> bloomTrailerMagic then Err (ErrBadBloomMagic magic)
          else
            let offset = offset + 4
            in bind_ok (bind_ok (go_slice data offset (offset + 2)) get_uint16) (\<lambda>bv.
                 let offset = offset + 2
                 in if bv \<noteq> bloomTrailerVersion then Err (ErrUnsupportedBloomVersion bv)
                    else bind_ok (slice_from data offset) (\<lambda>trailer.
                           map_err BloomTrailer (UnmarshalBinary trailer)))))"

definition parseSegment :: "byte list \<Rightarrow> (segment_error, segment) outcome" where
  "parseSegment data =
     (if length data < segmentHeaderLen then Err (ErrTruncated InFileHeader)
      else
        bind_ok (go_slice data 0 4) (\<lambda>magic.
        if magic \<noteq> segmentMagic then Err (ErrBadMagic magic)
        else
          bind_ok (bind_ok (go_slice data 4 6) get_uint16) (\<lambda>version.
          if version \<noteq> segmentVersionV1 \<and> version \<noteq> segmentVersionV2
          then Err (ErrUnsupportedVersion version)
          else
            bind_ok (bind_ok (go_slice data 6 8) get_uint16) (\<lambda>columnCount.
            bind_ok (bind_ok (go_slice data 8 16) get_uint64) (\<lambda>rowCount.
            bind_ok (if version = segmentVersionV2 then parse_flags data segmentHeaderLen
                     else Ok (0, [], segmentHeaderLen)) (\<lambda>(flags, pk, offset).
            bind_ok (parse_columns data (unat columnCount) 0 offset
               \<lparr>seg_version = version, seg_schema = \<lparr>schema_pk = pk, schema_columns = []\<rparr>,
                seg_rowCount = rowCount, seg_raw = data, seg_blocks = Map.empty,
                seg_decoded = Map.empty, seg_flags = flags, seg_pkName = pk,
                seg_bloomFilter = None\<rparr>) (\<lambda>(s, offset).
            if version = segmentVersionV2 \<and> flags AND flagHasBloom \<noteq> 0
            then bind_ok (parse_trailer data offset) (\<lambda>bf. Ok (s\<lparr>seg_bloomFilter := Some bf\<rparr>))
            else Ok s)))))))"

section \<open>OpenSegment and the accessors\<close>

text \<open>\<open>os.ReadFile\<close> is the parameter: the content of the file, or nothing when it fails.\<close>

definition OpenSegment ::
  "(string \<Rightarrow> byte list option) \<Rightarrow> string \<Rightarrow> (segment_error, segment) outcome" where
  "OpenSegment readFile path =
     (case readFile path of None \<Rightarrow> Err (OpenFailed path) | Some data \<Rightarrow> parseSegment data)"

definition Close :: "segment \<Rightarrow> segment" where
  "Close s = s\<lparr>seg_raw := [], seg_blocks := Map.empty, seg_decoded := Map.empty,
                seg_bloomFilter := None\<rparr>"

record column_info =
  ci_Name :: string
  ci_Type :: column_type
  ci_Encoding :: encoding
  ci_PayloadLen :: nat

text \<open>A missing block reads as the zero \<open>columnBlock\<close>.\<close>

definition block_at :: "segment \<Rightarrow> string \<Rightarrow> column_block" where
  "block_at s name =
     (case seg_blocks s name of
        Some b \<Rightarrow> b
      | None \<Rightarrow> \<lparr>cb_encoding = EncodingRaw, cb_payloadOff = 0, cb_payloadLen = 0\<rparr>)"

definition ColumnInfo :: "segment \<Rightarrow> column_info list" where
  "ColumnInfo s =
     map (\<lambda>c. \<lparr>ci_Name = col_name c, ci_Type = col_type c,
               ci_Encoding = cb_encoding (block_at s (col_name c)),
               ci_PayloadLen = cb_payloadLen (block_at s (col_name c))\<rparr>)
       (schema_columns (seg_schema s))"

section \<open>ReadColumn\<close>

definition decode_payload ::
  "column_type \<Rightarrow> encoding \<Rightarrow> byte list \<Rightarrow> int \<Rightarrow> (decode_error, column_data) outcome option" where
  "decode_payload t e payload rows =
     (case t of
        Int64 \<Rightarrow> Some (bind_ok (if e = EncodingRLE then map_err RleFailed (decodeRLEInt64 payload rows)
            else map_err RawFailed (decodeRawInt64 payload rows)) (\<lambda>v. Ok (Int64s v)))
      | Float64 \<Rightarrow> Some (bind_ok (if e = EncodingRLE then map_err RleFailed (decodeRLEFloat64 payload rows)
            else map_err RawFailed (decodeRawFloat64 payload rows)) (\<lambda>v. Ok (Float64s v)))
      | String \<Rightarrow> Some (bind_ok (if e = EncodingRLE then map_err RleFailed (decodeRLEString payload rows)
            else map_err RawFailed (decodeRawString payload rows)) (\<lambda>v. Ok (Strings v)))
      | OtherType _ \<Rightarrow> None)"

text \<open>The part of \<open>ReadColumn\<close> behind the cache.\<close>

definition decode_column :: "segment \<Rightarrow> string \<Rightarrow> (segment_error, column_data) outcome" where
  "decode_column s name =
     (case seg_blocks s name of
        None \<Rightarrow> Err (ErrUnknownColumn name)
      | Some block \<Rightarrow>
          (case ColumnIndex (seg_schema s) name of
             None \<Rightarrow> Panic IndexOutOfRange
           | Some idx \<Rightarrow>
               let colType = col_type (schema_columns (seg_schema s) ! idx)
               in bind_ok (go_slice (seg_raw s) (cb_payloadOff block) (cb_payloadOff block + cb_payloadLen block)) (\<lambda>payload.
                    case decode_payload colType (cb_encoding block) payload
                           (int_of_uint64 (seg_rowCount s)) of
                      None \<Rightarrow> Err (UnknownType name (column_type_string colType))
                    | Some r \<Rightarrow> map_err (DecodeFailed name) r)))"

definition ReadColumn :: "segment \<Rightarrow> string \<Rightarrow> segment \<times> (segment_error, column_data) outcome" where
  "ReadColumn s name =
     (case seg_decoded s name of
        Some v \<Rightarrow> (s, Ok v)
      | None \<Rightarrow>
          (case decode_column s name of
             Ok v \<Rightarrow> (s\<lparr>seg_decoded := (seg_decoded s)(name \<mapsto> v)\<rparr>, Ok v)
           | r \<Rightarrow> (s, r)))"

section \<open>ReadSegmentHeader\<close>

record byte_source =
  src_bytes :: "byte list"
  src_fails :: bool

text \<open>\<open>binary.ReadUvarint\<close>: every failure is reported as the caller's truncation.\<close>

definition read_uvarint :: "read_step \<Rightarrow> byte_source \<Rightarrow> (segment_error, nat \<times> byte_source) outcome" where
  "read_uvarint at r =
     (case uvarint (src_bytes r) of
        None \<Rightarrow> Err (ErrTruncated at)
      | Some (v, n) \<Rightarrow> Ok (v, r\<lparr>src_bytes := drop n (src_bytes r)\<rparr>))"

text \<open>\<open>make([]byte, n)\<close> and \<open>io.ReadFull\<close> into it.\<close>

definition read_full :: "read_step \<Rightarrow> nat \<Rightarrow> byte_source \<Rightarrow> (segment_error, byte list \<times> byte_source) outcome" where
  "read_full at n r =
     bind_ok (make_slice 1 (int n)) (\<lambda>_.
       if length (src_bytes r) < n then Err (ErrTruncated at)
       else Ok (take n (src_bytes r), r\<lparr>src_bytes := drop n (src_bytes r)\<rparr>))"

text \<open>\<open>io.CopyN(io.Discard, br, n)\<close>: a negative count copies nothing and reports no error.\<close>

definition skip_n :: "read_step \<Rightarrow> int \<Rightarrow> byte_source \<Rightarrow> (segment_error, byte_source) outcome" where
  "skip_n at n r =
     (if int (length (src_bytes r)) < n then Err (ErrTruncated at)
      else Ok (r\<lparr>src_bytes := drop (nat n) (src_bytes r)\<rparr>))"

definition read_flags :: "byte_source \<Rightarrow> (segment_error, string \<times> byte_source) outcome" where
  "read_flags r =
     bind_ok (read_uvarint InFlagsLen r) (\<lambda>(flagsLen, r).
       if flagsLen = 0 then Err ZeroFlagsLen
       else bind_ok (read_full InFlags flagsLen r) (\<lambda>(flagsBuf, r).
         bind_ok (fetch flagsBuf 0) (\<lambda>flags.
           if flags AND flagHasPKName \<noteq> 0
           then bind_ok (read_uvarint InPkNameLength r) (\<lambda>(nameLen, r).
                bind_ok (read_full InPkName nameLen r) (\<lambda>(nameBuf, r).
                  Ok (string_of nameBuf, r)))
           else Ok ([], r))))"

definition read_column_head :: "nat \<Rightarrow> byte_source \<Rightarrow> (segment_error, column \<times> byte_source) outcome" where
  "read_column_head i r =
     bind_ok (read_uvarint (InNameLength i) r) (\<lambda>(nameLen, r).
     bind_ok (read_full (InName i) nameLen r) (\<lambda>(nameBuf, r).
     bind_ok (read_full (InTags i) 2 r) (\<lambda>(tagBuf, r).
     bind_ok (fetch tagBuf 0) (\<lambda>tag.
     bind_ok (map_err (BadColumnType i (string_of nameBuf)) (wireToColumnType tag)) (\<lambda>colType.
     bind_ok (read_uvarint (InPayloadLength i) r) (\<lambda>(payloadLen, r).
     bind_ok (skip_n (InPayload i) (int_of_uint64 (of_nat payloadLen)) r) (\<lambda>r.
       Ok (\<lparr>col_name = string_of nameBuf, col_type = colType\<rparr>, r))))))))"

fun read_column_heads :: "nat \<Rightarrow> nat \<Rightarrow> byte_source \<Rightarrow> (segment_error, column list) outcome" where
  "read_column_heads 0 i r = Ok []"
| "read_column_heads (Suc k) i r =
     bind_ok (read_column_head i r) (\<lambda>(c, r).
     bind_ok (read_column_heads k (Suc i) r) (\<lambda>cs. Ok (c # cs)))"

definition ReadSegmentHeader :: "byte_source \<Rightarrow> (segment_error, schema \<times> uint64) outcome" where
  "ReadSegmentHeader r =
     (if length (src_bytes r) < segmentHeaderLen
      then Err (if src_fails r then ReadFailed else ErrTruncated InFileHeader)
      else
        let hdr = take segmentHeaderLen (src_bytes r);
            r = r\<lparr>src_bytes := drop segmentHeaderLen (src_bytes r)\<rparr>
        in if take 4 hdr \<noteq> segmentMagic then Err (ErrBadMagic (take 4 hdr))
           else
             let version = uint16_le (drop 4 hdr)
             in if version \<noteq> segmentVersionV1 \<and> version \<noteq> segmentVersionV2
                  then Err (ErrUnsupportedVersion version)
                else
                  let columnCount = unat (uint16_le (drop 6 hdr));
                      rowCount = uint64_le (drop 8 hdr)
                  in bind_ok (if version = segmentVersionV2 then read_flags r else Ok ([], r)) (\<lambda>(pk, r).
                     bind_ok (read_column_heads columnCount 0 r) (\<lambda>cols.
                       Ok (\<lparr>schema_pk = pk, schema_columns = cols\<rparr>, rowCount))))"

end
