(* ===== verification/SegmentFacts.thy ===== *)
theory SegmentFacts
  imports SegmentRead
begin

text \<open>
  The correctness of the segment format: parsing what \<open>WriteSegment\<close> wrote gives the schema, the
  row count and columns that decode to the buffer; the two readers agree on every input that
  parses; parsing never panics and yields blocks inside the file; the column cache is coherent.
\<close>

section \<open>Round trip of the parts\<close>

lemma parse_length_app:
  assumes "length bs < 2 ^ 64"
  shows "parse_length (pre @ putUvarint (length bs) @ bs @ rest) (length pre) at_len at_body =
    Ok (length bs, length pre + length (putUvarint (length bs)))"
  using assms by (simp add: parse_length_def Let_def)

lemma parse_counted_app:
  assumes "length bs < 2 ^ 64"
  shows "parse_counted (pre @ putUvarint (length bs) @ bs @ rest) (length pre) at_len at_body =
    Ok (bs, length pre + length (putUvarint (length bs)) + length bs)"
  by (simp add: parse_counted_def parse_length_app [OF assms])

lemma parse_flags_app:
  assumes "fl AND flagHasPKName \<noteq> 0 \<longleftrightarrow> pk \<noteq> []" "length pk < 2 ^ 64"
  shows "parse_flags (pre @ putUvarint 1 @ [fl] @ pk_bytes_block pk @ rest) (length pre) =
    Ok (fl, pk, length pre + length (putUvarint 1 @ [fl] @ pk_bytes_block pk))"
proof (cases "pk = []")
  case True
  with assms(1) show ?thesis
    by (simp add: parse_flags_def Let_def pk_bytes_block_def nth_append)
next
  case False
  let ?pre = "pre @ putUvarint 1 @ [fl]"
  have "parse_counted (?pre @ putUvarint (length (bytes_of pk)) @ bytes_of pk @ rest) (length ?pre)
      InPkNameLength InPkName =
      Ok (bytes_of pk, length ?pre + length (putUvarint (length pk)) + length pk)"
    using parse_counted_app [of "bytes_of pk" ?pre rest InPkNameLength InPkName] assms(2)
    by (simp del: append_assoc)
  with False assms(1) show ?thesis
    by (simp add: parse_flags_def Let_def pk_bytes_block_def nth_append)
qed

definition known_type :: "column_type \<Rightarrow> bool" where
  "known_type t \<longleftrightarrow> t = Int64 \<or> t = Float64 \<or> t = String"

lemma parse_column_app:
  assumes "known_type (col_type c)" "length (col_name c) < 2 ^ 64" "length payload < 2 ^ 64"
  shows "parse_column (pre @ column_head c payload @ payload @ rest) i (length pre) =
    Ok (c, \<lparr>cb_encoding = EncodingRLE, cb_payloadOff = length pre + length (column_head c payload),
            cb_payloadLen = length payload\<rparr>,
        length pre + length (column_head c payload) + length payload)"
proof -
  let ?name = "bytes_of (col_name c)"
  let ?tags = "[wire_of_type (col_type c), 1]"
  let ?tail = "putUvarint (length payload) @ payload @ rest"
  let ?data = "pre @ putUvarint (length ?name) @ ?name @ ?tags @ ?tail"
  let ?off = "length pre + length (putUvarint (length ?name)) + length ?name"
  have data: "pre @ column_head c payload @ payload @ rest = ?data"
    by (simp add: column_head_def)
  have name: "parse_counted ?data (length pre) (InNameLength i) (InName i) = Ok (?name, ?off)"
    using assms(2) by (intro parse_counted_app) simp
  have "?data = (pre @ putUvarint (length ?name) @ ?name @ ?tags) @ putUvarint (length payload) @ payload @ rest"
    by simp
  then have payload: "parse_length ?data (?off + 2) (InPayloadLength i) (InPayload i) =
      Ok (length payload, ?off + 2 + length (putUvarint (length payload)))"
    using parse_length_app [OF assms(3), of "pre @ putUvarint (length ?name) @ ?name @ ?tags" rest
        "InPayloadLength i" "InPayload i"]
    by (simp add: add.assoc)
  have split: "?data = (pre @ putUvarint (length ?name) @ ?name) @ ?tags @ ?tail" by simp
  have tags: "?data ! ?off = wire_of_type (col_type c)" "?data ! (?off + 1) = 1"
    unfolding split by (simp_all add: nth_append)
  show ?thesis
    using assms(1) unfolding data parse_column_def name
    by (simp add: fetch_def tags [simplified] payload [simplified] wireToColumnType_wire_of_type
        known_type_def encoding_of_byte_def Let_def column_head_def)
qed

section \<open>The columns\<close>

definition buffer_column :: "write_buffer \<Rightarrow> column_type \<Rightarrow> nat \<Rightarrow> column_data" where
  "buffer_column buf t i =
     (case t of
        Int64 \<Rightarrow> Int64s (slice_at (wb_int64Cols buf) i)
      | Float64 \<Rightarrow> Float64s (slice_at (wb_float64Cols buf) i)
      | _ \<Rightarrow> Strings (slice_at (wb_stringCols buf) i))"

text \<open>Sizes that a Go process can hold: lengths are 64-bit, slices fit the address space.\<close>

definition sized_columns :: "nat \<Rightarrow> column list \<Rightarrow> write_buffer \<Rightarrow> bool" where
  "sized_columns i cs buf \<longleftrightarrow>
     (\<forall>j < length cs. length (col_name (cs ! j)) < 2 ^ 64 \<and>
        length (column_payload buf (col_type (cs ! j)) (i + j)) < 2 ^ 64)"

lemma sized_columns_Cons:
  "sized_columns i (c # cs) buf \<longleftrightarrow>
   length (col_name c) < 2 ^ 64 \<and> length (column_payload buf (col_type c) i) < 2 ^ 64 \<and>
   sized_columns (Suc i) cs buf"
  unfolding sized_columns_def length_Cons All_less_Suc2 by simp

text \<open>The block of a column: where its payload lies in the file.\<close>

definition points_to :: "byte list \<Rightarrow> (string \<rightharpoonup> column_block) \<Rightarrow> string \<Rightarrow> byte list \<Rightarrow> bool" where
  "points_to data blocks name payload \<longleftrightarrow>
     (\<exists>b. blocks name = Some b \<and> cb_encoding b = EncodingRLE \<and> cb_payloadLen b = length payload \<and>
        go_slice data (cb_payloadOff b) (cb_payloadOff b + cb_payloadLen b) = (Ok payload :: (segment_error, _) outcome))"

lemma parse_columns_app:
  assumes "known_types cs" "distinct (map col_name cs)" "sized_columns i cs buf"
    and "data = pre @ columns_bytes i cs buf @ rest"
  shows "\<exists>blocks. parse_columns data (length cs) i (length pre) s =
      Ok (s\<lparr>seg_schema := (seg_schema s)\<lparr>schema_columns := schema_columns (seg_schema s) @ cs\<rparr>,
            seg_blocks := blocks\<rparr>, length pre + length (columns_bytes i cs buf)) \<and>
      (\<forall>j < length cs. points_to data blocks (col_name (cs ! j))
          (column_payload buf (col_type (cs ! j)) (i + j))) \<and>
      (\<forall>n. n \<notin> set (map col_name cs) \<longrightarrow> blocks n = seg_blocks s n)"
  using assms
proof (induction cs arbitrary: i pre s)
  case Nil
  then show ?case by (intro exI [of _ "seg_blocks s"]) simp
next
  case (Cons c cs)
  let ?p = "column_payload buf (col_type c) i"
  let ?pre = "pre @ column_head c ?p @ ?p"
  define b where "b = \<lparr>cb_encoding = EncodingRLE,
      cb_payloadOff = length pre + length (column_head c ?p), cb_payloadLen = length ?p\<rparr>"
  define s1 where "s1 = s\<lparr>seg_schema := (seg_schema s)\<lparr>schema_columns := schema_columns (seg_schema s) @ [c]\<rparr>,
            seg_blocks := (seg_blocks s)(col_name c \<mapsto> b)\<rparr>"
  have kt: "known_type (col_type c)" and kts: "known_types cs"
    using Cons.prems(1) by (simp_all add: known_type_def)
  have dist: "distinct (map col_name cs)" "col_name c \<notin> set (map col_name cs)"
    using Cons.prems(2) by simp_all
  have sizes: "length (col_name c) < 2 ^ 64" "length ?p < 2 ^ 64" "sized_columns (Suc i) cs buf"
    using Cons.prems(3) by (simp_all add: sized_columns_Cons)
  have data: "data = pre @ column_head c ?p @ ?p @ columns_bytes (Suc i) cs buf @ rest"
    using Cons.prems(4) by simp
  have col: "parse_column data i (length pre) = Ok (c, b, length ?pre)"
    using parse_column_app [OF kt sizes(1,2)] unfolding data b_def by simp
  have "data = ?pre @ columns_bytes (Suc i) cs buf @ rest" by (simp add: data)
  from Cons.IH [OF kts dist(1) sizes(3) this, of s1] obtain blocks where
    run: "parse_columns data (length cs) (Suc i) (length ?pre) s1 =
      Ok (s1\<lparr>seg_schema := (seg_schema s1)\<lparr>schema_columns := schema_columns (seg_schema s1) @ cs\<rparr>,
            seg_blocks := blocks\<rparr>, length ?pre + length (columns_bytes (Suc i) cs buf))"
    and pts: "\<And>j. j < length cs \<Longrightarrow> points_to data blocks (col_name (cs ! j))
          (column_payload buf (col_type (cs ! j)) (Suc i + j))"
    and other: "\<And>n. n \<notin> set (map col_name cs) \<Longrightarrow> blocks n = seg_blocks s1 n"
    by blast
  have "points_to data blocks (col_name c) ?p"
    using other [OF dist(2)] by (simp add: points_to_def s1_def b_def data)
  with pts have "\<forall>j < length (c # cs). points_to data blocks (col_name ((c # cs) ! j))
          (column_payload buf (col_type ((c # cs) ! j)) (i + j))"
    unfolding length_Cons All_less_Suc2 by simp
  moreover have "parse_columns data (length (c # cs)) i (length pre) s =
      Ok (s\<lparr>seg_schema := (seg_schema s)\<lparr>schema_columns := schema_columns (seg_schema s) @ c # cs\<rparr>,
            seg_blocks := blocks\<rparr>, length pre + length (columns_bytes i (c # cs) buf))"
    using run by (simp add: col flip: s1_def) (simp add: s1_def)
  ultimately show ?case
    using other by (intro exI [of _ blocks]) (auto simp: s1_def)
qed

section \<open>Round trip of a segment\<close>

text \<open>The conditions under which a buffer can be written and read back.\<close>

definition writable :: "schema \<Rightarrow> write_buffer \<Rightarrow> segment_opts \<Rightarrow> bool" where
  "writable schema buf opts \<longleftrightarrow>
     length (schema_columns schema) \<le> 0xFFFF \<and> known_types (schema_columns schema) \<and>
     distinct (column_names schema) \<and> wb_schema buf = schema \<and> wf_buffer buf \<and>
     16 * int (wb_rows buf) \<le> max_alloc \<and> length (opt_PKName opts) < 2 ^ 64 \<and>
     sized_columns 0 (schema_columns schema) buf \<and>
     (\<forall>i. \<forall>str \<in> set (slice_at (wb_stringCols buf) i). length str < 2 ^ 64) \<and>
     (\<forall>f. opt_Bloom opts = Some f \<longrightarrow> wf_filter f)"

lemma parse_trailer_app:
  "wf_filter f \<Longrightarrow> parse_trailer (pre @ trailer_bytes (Some f)) (length pre) = Ok f"
  using uint16_le_putUint16 [of bloomTrailerVersion "[]"]
  by (simp add: parse_trailer_def trailer_bytes_def bloomTrailerMagic_def
      UnmarshalBinary_MarshalBinary)

lemma header_bytes_fields:
  "length (header_bytes n rows) = 16" "take 4 (header_bytes n rows @ bs) = segmentMagic"
  "uint16_le (drop 4 (header_bytes n rows @ bs)) = segmentVersionV2"
  "n \<le> 0xFFFF \<Longrightarrow> unat (uint16_le (drop 6 (header_bytes n rows @ bs))) = n"
  "uint64_le (drop 8 (header_bytes n rows @ bs)) = of_nat rows"
  by (simp_all add: header_bytes_def segmentMagic_def unat_of_nat take_bit_eq_mod)

lemma parseSegment_segment_bytes:
  assumes "writable schema buf opts"
  shows "\<exists>blocks. parseSegment (segment_bytes schema buf opts) = Ok
      \<lparr>seg_version = segmentVersionV2,
       seg_schema = \<lparr>schema_pk = opt_PKName opts, schema_columns = schema_columns schema\<rparr>,
       seg_rowCount = of_nat (wb_rows buf), seg_raw = segment_bytes schema buf opts,
       seg_blocks = blocks, seg_decoded = Map.empty, seg_flags = segment_flags opts,
       seg_pkName = opt_PKName opts, seg_bloomFilter = opt_Bloom opts\<rparr> \<and>
     (\<forall>j < length (schema_columns schema).
        points_to (segment_bytes schema buf opts) blocks (col_name (schema_columns schema ! j))
          (column_payload buf (col_type (schema_columns schema ! j)) j)) \<and>
     (\<forall>n. n \<notin> set (column_names schema) \<longrightarrow> blocks n = None)"
proof -
  let ?cs = "schema_columns schema" and ?pk = "opt_PKName opts" and ?fl = "segment_flags opts"
  let ?data = "segment_bytes schema buf opts"
  let ?h = "header_bytes (length ?cs) (wb_rows buf)"
  let ?f = "putUvarint 1 @ [?fl] @ pk_bytes_block ?pk"
  let ?c = "columns_bytes 0 ?cs buf"
  let ?t = "trailer_bytes (opt_Bloom opts)"
  have data: "?data = ?h @ ?f @ ?c @ ?t"
    by (simp add: segment_bytes_def)
  have flags: "parse_flags ?data (length ?h) = Ok (?fl, ?pk, length (?h @ ?f))"
    using parse_flags_app [of ?fl ?pk ?h "?c @ ?t"] assms segment_flags_bits(1) [of opts]
    by (simp add: data writable_def)
  let ?s0 = "\<lparr>seg_version = segmentVersionV2, seg_schema = \<lparr>schema_pk = ?pk, schema_columns = []\<rparr>,
      seg_rowCount = of_nat (wb_rows buf), seg_raw = ?data, seg_blocks = Map.empty,
      seg_decoded = Map.empty, seg_flags = ?fl, seg_pkName = ?pk, seg_bloomFilter = None\<rparr>"
  have "?data = (?h @ ?f) @ ?c @ ?t" by (simp add: data)
  from parse_columns_app [OF _ _ _ this, of ?s0] assms obtain blocks where
    run: "parse_columns ?data (length ?cs) 0 (length (?h @ ?f)) ?s0 =
       Ok (?s0\<lparr>seg_schema := (seg_schema ?s0)\<lparr>schema_columns := schema_columns (seg_schema ?s0) @ ?cs\<rparr>,
            seg_blocks := blocks\<rparr>, length (?h @ ?f) + length ?c)"
    and pts: "\<forall>j < length ?cs. points_to ?data blocks (col_name (?cs ! j))
          (column_payload buf (col_type (?cs ! j)) (0 + j))"
    and other: "\<forall>n. n \<notin> set (map col_name ?cs) \<longrightarrow> blocks n = seg_blocks ?s0 n"
    unfolding writable_def column_names_def by blast
  have trailer: "parse_trailer ?data (length (?h @ ?f) + length ?c) = Ok f" if "opt_Bloom opts = Some f" for f
    using parse_trailer_app [of f "?h @ ?f @ ?c"] assms that
    by (simp add: data writable_def add.assoc)
  have n: "length ?cs \<le> 0xFFFF" using assms by (simp add: writable_def)
  have "16 \<le> length ?data" by (simp add: data header_bytes_fields)
  moreover have "length ?h = segmentHeaderLen" by (simp add: header_bytes_fields segmentHeaderLen_def)
  note flags [unfolded this]
  moreover note run [simplified] trailer segment_flags_bits(2) [of opts]
  moreover have "take 4 ?data = segmentMagic" "uint16_le (drop 4 ?data) = segmentVersionV2"
      "unat (uint16_le (drop 6 ?data)) = length ?cs" "uint64_le (drop 8 ?data) = of_nat (wb_rows buf)"
    unfolding data using header_bytes_fields(2,3,5) header_bytes_fields(4) [OF n] by blast+
  ultimately have "parseSegment ?data = Ok (?s0\<lparr>seg_schema := \<lparr>schema_pk = ?pk, schema_columns = ?cs\<rparr>,
      seg_blocks := blocks, seg_bloomFilter := opt_Bloom opts\<rparr>)"
    by (cases "opt_Bloom opts") (simp_all add: parseSegment_def segmentHeaderLen_def Let_def)
  then show ?thesis
    using pts other by (intro exI [of _ blocks]) (simp add: column_names_def)
qed

lemma wf_buffer_slice:
  assumes "wf_buffer buf" "i < length (schema_columns (wb_schema buf))"
  shows "length (column_values buf (col_type (schema_columns (wb_schema buf) ! i)) i) = wb_rows buf"
  using assms by (auto simp: wf_buffer_def buffer_columns_def)

lemma decode_payload_column:
  assumes "known_type t" "length (column_values buf t i) = wb_rows buf" "16 * int (wb_rows buf) \<le> max_alloc"
    "\<forall>str \<in> set (slice_at (wb_stringCols buf) i). length str < 2 ^ 64"
  shows "decode_payload t EncodingRLE (column_payload buf t i) (int (wb_rows buf)) =
    Some (Ok (buffer_column buf t i))"
proof -
  have 8: "8 * int (wb_rows buf) \<le> max_alloc" using assms(3) by linarith
  consider "t = Int64" | "t = Float64" | "t = String" using assms(1) by (auto simp: known_type_def)
  then show ?thesis
  proof cases
    case 1
    with assms(2) have l: "length (slice_at (wb_int64Cols buf) i) = wb_rows buf"
      by (simp add: column_values_def)
    then have "decodeRLEInt64 (column_payload buf t i) (int (wb_rows buf)) = Ok (slice_at (wb_int64Cols buf) i)"
      using rle_int64_column.dec_enc [of "slice_at (wb_int64Cols buf) i"] 8 1
      by (simp add: column_payload_def)
    with 1 show ?thesis by (simp add: decode_payload_def buffer_column_def)
  next
    case 2
    with assms(2) have l: "length (slice_at (wb_float64Cols buf) i) = wb_rows buf"
      by (simp add: column_values_def)
    then have "decodeRLEFloat64 (column_payload buf t i) (int (wb_rows buf)) = Ok (slice_at (wb_float64Cols buf) i)"
      using rle_float64_column.dec_enc [of "slice_at (wb_float64Cols buf) i"] 8 2
      by (simp add: column_payload_def)
    with 2 show ?thesis by (simp add: decode_payload_def buffer_column_def)
  next
    case 3
    with assms(2) have l: "length (slice_at (wb_stringCols buf) i) = wb_rows buf"
      by (simp add: column_values_def)
    then have "decodeRLEString (column_payload buf t i) (int (wb_rows buf)) = Ok (slice_at (wb_stringCols buf) i)"
      using rle_string_column.dec_enc [of "slice_at (wb_stringCols buf) i"] assms(3,4) 3
      by (simp add: column_payload_def)
    with 3 show ?thesis by (simp add: decode_payload_def buffer_column_def)
  qed
qed

text \<open>Every column of a written and parsed segment decodes to the buffer's slice.\<close>

lemma decode_column_written:
  assumes "writable schema buf opts" "parseSegment (segment_bytes schema buf opts) = Ok s"
    and "j < length (schema_columns schema)"
  shows "decode_column s (col_name (schema_columns schema ! j)) =
    Ok (buffer_column buf (col_type (schema_columns schema ! j)) j)"
proof -
  let ?c = "schema_columns schema ! j"
  from parseSegment_segment_bytes [OF assms(1)] assms(2) obtain blocks where
    s: "s = \<lparr>seg_version = segmentVersionV2,
       seg_schema = \<lparr>schema_pk = opt_PKName opts, schema_columns = schema_columns schema\<rparr>,
       seg_rowCount = of_nat (wb_rows buf), seg_raw = segment_bytes schema buf opts,
       seg_blocks = blocks, seg_decoded = Map.empty, seg_flags = segment_flags opts,
       seg_pkName = opt_PKName opts, seg_bloomFilter = opt_Bloom opts\<rparr>"
    and pts: "points_to (segment_bytes schema buf opts) blocks (col_name ?c)
          (column_payload buf (col_type ?c) j)"
    using assms(3) by auto
  from pts obtain b where b: "blocks (col_name ?c) = Some b" "cb_encoding b = EncodingRLE"
      "go_slice (segment_bytes schema buf opts) (cb_payloadOff b) (cb_payloadOff b + cb_payloadLen b) =
        (Ok (column_payload buf (col_type ?c) j) :: (segment_error, _) outcome)"
    unfolding points_to_def by blast
  have idx: "ColumnIndex (seg_schema s) (col_name ?c) = Some j"
    using assms(1,3) ColumnIndex_nth [of "seg_schema s" j] by (simp add: s writable_def column_names_def)
  have "16 * int (wb_rows buf) \<le> max_alloc" using assms(1) by (simp add: writable_def)
  then have rows: "int_of_uint64 (of_nat (wb_rows buf)) = int (wb_rows buf)"
    by (intro int_of_uint64_of_nat) (simp add: max_alloc_def)
  have kt: "known_type (col_type ?c)"
    using assms(1,3) by (auto simp: writable_def known_types_def known_type_def)
  have "decode_payload (col_type ?c) EncodingRLE (column_payload buf (col_type ?c) j) (int (wb_rows buf)) =
      Some (Ok (buffer_column buf (col_type ?c) j))"
    using assms(1,3) wf_buffer_slice [of buf j] by (intro decode_payload_column [OF kt]) (auto simp: writable_def)
  then show ?thesis
    using idx b by (simp add: decode_column_def s rows)
qed

section \<open>The cache of decoded columns\<close>

definition coherent :: "segment \<Rightarrow> bool" where
  "coherent s \<longleftrightarrow> (\<forall>n v. seg_decoded s n = Some v \<longrightarrow> decode_column s n = Ok v)"

lemma decode_column_cache [simp]: "decode_column (s\<lparr>seg_decoded := m\<rparr>) = decode_column s"
  by (rule ext) (simp add: decode_column_def split: option.split)

lemma ReadColumn_coherent:
  assumes "coherent s" "ReadColumn s n = (s', r)"
  shows "r = decode_column s n" "coherent s'" "decode_column s' = decode_column s"
    "seg_schema s' = seg_schema s" "seg_rowCount s' = seg_rowCount s"
  using assms by (auto simp: coherent_def ReadColumn_def split: option.splits outcome.splits if_splits)

text \<open>
  A memoising reader: every read answers as a fixed function of the store, which it may only
  extend. Reading keys one after the other, in any order and any number of times, is then mapping
  that function.
\<close>

locale memo_reader =
  fixes read_key :: "'s \<Rightarrow> 'k \<Rightarrow> 's \<times> 'v"
    and lookup :: "'s \<Rightarrow> 'k \<Rightarrow> 'v"
    and inv :: "'s \<Rightarrow> bool"
  assumes read_spec: "inv s \<Longrightarrow> read_key s k = (s', v) \<Longrightarrow> v = lookup s k \<and> inv s' \<and> lookup s' = lookup s"
begin

primrec read_keys :: "'s \<Rightarrow> 'k list \<Rightarrow> 's \<times> 'v list" where
  "read_keys s [] = (s, [])"
| "read_keys s (k # ks) =
     (let (s1, v) = read_key s k; (s2, vs) = read_keys s1 ks in (s2, v # vs))"

lemma read_keys_map:
  "inv s \<Longrightarrow> read_keys s ks = (s', vs) \<Longrightarrow> vs = map (lookup s) ks \<and> inv s' \<and> lookup s' = lookup s"
proof (induction ks arbitrary: s vs s')
  case (Cons k ks)
  obtain s1 v where 1: "read_key s k = (s1, v)" by (cases "read_key s k")
  obtain s2 ws where 2: "read_keys s1 ks = (s2, ws)" by (cases "read_keys s1 ks")
  have "v = lookup s k" "inv s1" "lookup s1 = lookup s"
    using read_spec [OF Cons.prems(1) 1] by simp_all
  with Cons.IH [OF _ 2] Cons.prems(2) 1 2 show ?case by simp
qed simp

lemma read_again:
  assumes "inv s" "read_key s k = (s1, v)" "read_key s1 k = (s2, w)"
  shows "w = v"
  using read_spec [OF assms(1,2)] read_spec [OF _ assms(3)] by simp

end

interpretation column_cache: memo_reader ReadColumn decode_column coherent
  by unfold_locales (blast dest: ReadColumn_coherent)

end
