(* ===== verification/SegmentSafety.thy ===== *)
theory SegmentSafety
  imports SegmentFacts
begin

text \<open>
  What holds of every byte slice, written by \<open>WriteSegment\<close> or not: \<open>parseSegment\<close> returns a
  segment or an error and never panics, the blocks of a parsed segment lie inside the file, a
  column read panics only when the row count of the header exceeds what a slice can hold, and the
  streaming reader returns the schema and row count of every file that parses.
\<close>

section \<open>Where the steps of the parser end\<close>

lemma parse_length_Ok_iff:
  "parse_length data offset a b = Ok (len, off) \<longleftrightarrow>
   (\<exists>n. uvarint (drop offset data) = Some (len, n) \<and> off = offset + n \<and> off + len \<le> length data)"
proof (cases "uvarint (drop offset data)")
  case None
  then show ?thesis by (auto simp: parse_length_def slice_from_Ok_iff)
next
  case (Some r)
  then obtain l n where u: "uvarint (drop offset data) = Some (l, n)" by (cases r) auto
  from uvarint_fits(1) [OF u] u show ?thesis by (auto simp: parse_length_def Let_def)
qed

lemma parse_counted_Ok_iff:
  "parse_counted data offset a b = Ok (bs, stop) \<longleftrightarrow>
   (\<exists>len off. parse_length data offset a b = Ok (len, off) \<and> bs = take len (drop off data) \<and> stop = off + len)"
  by (auto simp: parse_counted_def go_slice_Ok_iff parse_length_Ok_iff)

lemma parse_length_Ok:
  assumes "parse_length data offset a b = Ok (len, off)"
  shows "offset < off" "off + len \<le> length data"
  using assms by (auto simp: parse_length_Ok_iff dest: uvarint_bounds(1))

lemma parse_counted_Ok:
  assumes "parse_counted data offset a b = Ok (bs, stop)"
  shows "offset < stop" "stop \<le> length data" "length bs \<le> stop"
    "bs = take (length bs) (drop (stop - length bs) data)"
proof -
  from assms obtain len off where l: "parse_length data offset a b = Ok (len, off)"
    and e: "bs = take len (drop off data)" "stop = off + len"
    by (auto simp: parse_counted_Ok_iff)
  with parse_length_Ok [OF l] show "offset < stop" "stop \<le> length data" "length bs \<le> stop"
    "bs = take (length bs) (drop (stop - length bs) data)"
    by auto
qed

lemma parse_flags_Ok:
  assumes "parse_flags data offset = Ok (fl, pk, stop)"
  obtains flagsLen n where "uvarint (drop offset data) = Some (flagsLen, n)" "flagsLen \<noteq> 0"
    "offset + n + flagsLen \<le> length data" "fl = data ! (offset + n)"
    "if fl AND flagHasPKName \<noteq> 0
     then \<exists>bs. parse_counted data (offset + n + flagsLen) InPkNameLength InPkName = Ok (bs, stop) \<and> pk = string_of bs
     else pk = [] \<and> stop = offset + n + flagsLen"
proof -
  from assms obtain flagsLen n where u: "uvarint (drop offset data) = Some (flagsLen, n)"
    by (auto simp: parse_flags_def slice_from_Ok_iff split: option.splits)
  with assms uvarint_fits(1) [OF u] show ?thesis
    by (intro that [OF u])
      (auto simp: parse_flags_def Let_def fetch_def split: if_splits)
qed

lemma parse_flags_stop: "parse_flags data offset = Ok (fl, pk, stop) \<Longrightarrow> stop \<le> length data"
  by (erule parse_flags_Ok) (auto dest: parse_counted_Ok(2) split: if_splits)

lemma parse_column_OkE:
  assumes "parse_column data i offset = Ok (c, b, stop)"
  obtains nameBytes off where
    "parse_counted data offset (InNameLength i) (InName i) = Ok (nameBytes, off)" "off + 2 \<le> length data"
    "col_name c = string_of nameBytes" "wireToColumnType (data ! off) = Ok (col_type c)"
    "cb_encoding b = encoding_of_byte (data ! (off + 1))" "cb_encoding b \<in> {EncodingRaw, EncodingRLE}"
    "parse_length data (off + 2) (InPayloadLength i) (InPayload i) = Ok (cb_payloadLen b, cb_payloadOff b)"
    "stop = cb_payloadOff b + cb_payloadLen b"
  using assms by (auto simp: parse_column_def Let_def fetch_def split: if_splits)

section \<open>Parsing does not panic\<close>

text \<open>Every step gets an offset inside the data and checks what it slices; each passes on such an offset.\<close>

lemma parse_length_no_panic: "offset \<le> length data \<Longrightarrow> parse_length data offset a b \<noteq> Panic p"
  by (simp add: parse_length_def Let_def split: option.split)

lemma parse_counted_no_panic: "offset \<le> length data \<Longrightarrow> parse_counted data offset a b \<noteq> Panic p"
  by (auto simp: parse_counted_def bind_ok_Panic_iff parse_length_no_panic dest: parse_length_Ok(2))

lemma wireToColumnType_no_panic [simp]: "wireToColumnType w \<noteq> Panic p"
  by (simp add: wireToColumnType_def)

lemma parse_flags_no_panic:
  assumes "offset \<le> length data"
  shows "parse_flags data offset \<noteq> Panic p"
proof (cases "uvarint (drop offset data)")
  case (Some r)
  then obtain flagsLen n where u: "uvarint (drop offset data) = Some (flagsLen, n)" by (cases r) auto
  show ?thesis
  proof (cases "flagsLen = 0 \<or> length data - (offset + n) < flagsLen")
    case False
    then have "offset + n + flagsLen \<le> length data" using uvarint_fits(2) [OF u] by blast
    with False parse_counted_no_panic [OF this] show ?thesis
      using assms u by (auto simp: parse_flags_def Let_def bind_ok_Panic_iff)
  qed (use assms u in \<open>auto simp: parse_flags_def Let_def\<close>)
qed (use assms in \<open>simp add: parse_flags_def\<close>)

lemma parse_column_no_panic: "offset \<le> length data \<Longrightarrow> parse_column data i offset \<noteq> Panic p"
  by (auto simp: parse_column_def Let_def bind_ok_Panic_iff fetch_def parse_counted_no_panic parse_length_no_panic)

lemma parse_column_stop: "parse_column data i offset = Ok (c, b, stop) \<Longrightarrow> stop \<le> length data"
  by (erule parse_column_OkE) (auto dest: parse_length_Ok)

lemma parse_columns_safe:
  "offset \<le> length data \<Longrightarrow>
   parse_columns data k i offset s \<noteq> Panic p \<and>
   (\<forall>s' stop. parse_columns data k i offset s = Ok (s', stop) \<longrightarrow> stop \<le> length data)"
proof (induction data k i offset s rule: parse_columns.induct)
  case (2 data k i offset s)
  show ?case
  proof (cases "parse_column data i offset")
    case (Ok x)
    then obtain c b off where x: "parse_column data i offset = Ok (c, b, off)" by (cases x) auto
    have "off \<le> length data" by (rule parse_column_stop [OF x])
    with "2.IH" x show ?thesis by simp
  next
    case (Panic q)
    with parse_column_no_panic [OF "2.prems"] show ?thesis by blast
  qed simp
qed simp

lemma parse_trailer_no_panic: "parse_trailer data offset \<noteq> Panic p"
  by (auto simp: parse_trailer_def Let_def UnmarshalBinary_no_panic)

text \<open>Behind the length check the fields of the file header are there.\<close>

lemma parseSegment_eq:
  "parseSegment data =
     (let version = uint16_le (drop 4 data) in
      if length data < segmentHeaderLen then Err (ErrTruncated InFileHeader)
      else if take 4 data \<noteq> segmentMagic then Err (ErrBadMagic (take 4 data))
      else if version \<noteq> segmentVersionV1 \<and> version \<noteq> segmentVersionV2 then Err (ErrUnsupportedVersion version)
      else
        bind_ok (if version = segmentVersionV2 then parse_flags data segmentHeaderLen
                 else Ok (0, [], segmentHeaderLen)) (\<lambda>(flags, pk, offset).
        bind_ok (parse_columns data (unat (uint16_le (drop 6 data))) 0 offset
           \<lparr>seg_version = version, seg_schema = \<lparr>schema_pk = pk, schema_columns = []\<rparr>,
            seg_rowCount = uint64_le (drop 8 data), seg_raw = data, seg_blocks = Map.empty,
            seg_decoded = Map.empty, seg_flags = flags, seg_pkName = pk,
            seg_bloomFilter = None\<rparr>) (\<lambda>(s, offset).
        if version = segmentVersionV2 \<and> flags AND flagHasBloom \<noteq> 0
        then bind_ok (parse_trailer data offset) (\<lambda>bf. Ok (s\<lparr>seg_bloomFilter := Some bf\<rparr>))
        else Ok s)))"
proof (cases "length data < 16")
  case False
  then have "go_slice data 0 4 = (Ok (take 4 data) :: (segment_error, _) outcome)"
    "bind_ok (go_slice data 4 6) get_uint16 = (Ok (uint16_le (drop 4 data)) :: (segment_error, _) outcome)"
    "bind_ok (go_slice data 6 8) get_uint16 = (Ok (uint16_le (drop 6 data)) :: (segment_error, _) outcome)"
    "bind_ok (go_slice data 8 16) get_uint64 = (Ok (uint64_le (drop 8 data)) :: (segment_error, _) outcome)"
    by simp_all
  with False show ?thesis by (simp only: parseSegment_def segmentHeaderLen_def bind_ok.simps if_False Let_def)
qed (simp add: parseSegment_def segmentHeaderLen_def Let_def)

lemma parseSegment_no_panic: "parseSegment data \<noteq> Panic p"
proof (cases "length data < segmentHeaderLen")
  case False
  then have len: "segmentHeaderLen \<le> length data" by simp
  note safe = parse_flags_no_panic [OF len] parse_flags_stop parse_columns_safe parse_trailer_no_panic
  from len safe show ?thesis
    by (auto simp: parseSegment_eq Let_def bind_ok_Panic_iff split: if_splits)
qed (simp add: parseSegment_eq Let_def)

section \<open>Well-formed segments\<close>

lemma wireToColumnType_known: "wireToColumnType w = Ok t \<Longrightarrow> known_type t"
  by (auto simp: wireToColumnType_def known_type_def split: if_splits)

lemma parse_column_Ok:
  assumes "parse_column data i offset = Ok (c, b, stop)"
  shows "known_type (col_type c)" "cb_payloadOff b + cb_payloadLen b = stop" "stop \<le> length data"
  using parse_column_stop [OF assms] by (rule_tac [!] parse_column_OkE [OF assms]) (auto dest: wireToColumnType_known)

definition blocks_in_file :: "segment \<Rightarrow> bool" where
  "blocks_in_file s \<longleftrightarrow>
     dom (seg_blocks s) = set (column_names (seg_schema s)) \<and>
     (\<forall>n b. seg_blocks s n = Some b \<longrightarrow> cb_payloadOff b + cb_payloadLen b \<le> length (seg_raw s)) \<and>
     (\<forall>c \<in> set (schema_columns (seg_schema s)). known_type (col_type c))"

definition wf_segment :: "segment \<Rightarrow> bool" where
  "wf_segment s \<longleftrightarrow> blocks_in_file s \<and> coherent s"

lemma parse_columns_wf:
  "parse_columns data k i offset s = Ok (s', stop) \<Longrightarrow> blocks_in_file s \<Longrightarrow> seg_raw s = data \<Longrightarrow>
   seg_decoded s = Map.empty \<Longrightarrow>
   blocks_in_file s' \<and> seg_raw s' = data \<and> seg_decoded s' = Map.empty"
proof (induction data k i offset s rule: parse_columns.induct)
  case (2 data k i offset s)
  from "2.prems"(1) obtain c b off1 where col: "parse_column data i offset = Ok (c, b, off1)"
    and rest: "parse_columns data k (Suc i) off1
         (s\<lparr>seg_schema := (seg_schema s)\<lparr>schema_columns := schema_columns (seg_schema s) @ [c]\<rparr>,
            seg_blocks := (seg_blocks s)(col_name c \<mapsto> b)\<rparr>) = Ok (s', stop)"
    by auto
  let ?s = "s\<lparr>seg_schema := (seg_schema s)\<lparr>schema_columns := schema_columns (seg_schema s) @ [c]\<rparr>,
            seg_blocks := (seg_blocks s)(col_name c \<mapsto> b)\<rparr>"
  have "blocks_in_file ?s"
    using "2.prems"(2,3) parse_column_Ok [OF col]
    by (auto simp: blocks_in_file_def column_names_def)
  with "2.IH" [OF rest] "2.prems" show ?case by simp
qed simp

text \<open>The parser's state before the first column.\<close>

definition parse_start :: "byte list \<Rightarrow> byte \<Rightarrow> string \<Rightarrow> segment" where
  "parse_start data flags pk =
     \<lparr>seg_version = uint16_le (drop 4 data), seg_schema = \<lparr>schema_pk = pk, schema_columns = []\<rparr>,
      seg_rowCount = uint64_le (drop 8 data), seg_raw = data, seg_blocks = Map.empty,
      seg_decoded = Map.empty, seg_flags = flags, seg_pkName = pk, seg_bloomFilter = None\<rparr>"

lemma parseSegment_OkE:
  assumes "parseSegment data = Ok s"
  obtains flags pk offset s1 stop bf where
    "segmentHeaderLen \<le> length data" "take 4 data = segmentMagic"
    "uint16_le (drop 4 data) = segmentVersionV1 \<or> uint16_le (drop 4 data) = segmentVersionV2"
    "if uint16_le (drop 4 data) = segmentVersionV2
     then parse_flags data segmentHeaderLen = Ok (flags, pk, offset)
     else flags = 0 \<and> pk = [] \<and> offset = segmentHeaderLen"
    "parse_columns data (unat (uint16_le (drop 6 data))) 0 offset (parse_start data flags pk) = Ok (s1, stop)"
    "s = s1\<lparr>seg_bloomFilter := bf\<rparr>"
    "bf = seg_bloomFilter s1 \<or> (\<exists>f. parse_trailer data stop = Ok f \<and> bf = Some f)"
proof -
  let ?v = "uint16_le (drop 4 data)"
  have hdr: "segmentHeaderLen \<le> length data" "take 4 data = segmentMagic"
    "?v = segmentVersionV1 \<or> ?v = segmentVersionV2"
    using assms by (auto simp: parseSegment_eq Let_def not_less split: if_splits)
  then have checks: "(length data < segmentHeaderLen) = False" "(take 4 data \<noteq> segmentMagic) = False"
    "(?v \<noteq> segmentVersionV1 \<and> ?v \<noteq> segmentVersionV2) = False"
    by auto
  obtain flags pk offset s1 stop where
    f: "(if ?v = segmentVersionV2 then parse_flags data segmentHeaderLen
         else Ok (0, [], segmentHeaderLen)) = Ok (flags, pk, offset)"
    and c: "parse_columns data (unat (uint16_le (drop 6 data))) 0 offset (parse_start data flags pk) = Ok (s1, stop)"
    and s: "(if ?v = segmentVersionV2 \<and> flags AND flagHasBloom \<noteq> 0
         then bind_ok (parse_trailer data stop) (\<lambda>bf. Ok (s1\<lparr>seg_bloomFilter := Some bf\<rparr>))
         else Ok s1) = Ok s"
    using assms unfolding parseSegment_eq Let_def checks if_False parse_start_def [symmetric]
      bind_ok_Ok_iff split_paired_Ex prod.case
    by blast
  have "if ?v = segmentVersionV2 then parse_flags data segmentHeaderLen = Ok (flags, pk, offset)
     else flags = 0 \<and> pk = [] \<and> offset = segmentHeaderLen"
    using f by (auto split: if_splits)
  moreover have "\<exists>bf. s = s1\<lparr>seg_bloomFilter := bf\<rparr> \<and>
      (bf = seg_bloomFilter s1 \<or> (\<exists>f. parse_trailer data stop = Ok f \<and> bf = Some f))"
    using s by (cases "?v = segmentVersionV2 \<and> flags AND flagHasBloom \<noteq> 0")
      (auto intro: exI [of _ "seg_bloomFilter s1"])
  ultimately show ?thesis using that hdr c by blast
qed

lemma parseSegment_wf:
  assumes "parseSegment data = Ok s"
  shows "wf_segment s" "seg_raw s = data" "seg_decoded s = Map.empty"
  using assms
proof (atomize (full), cases rule: parseSegment_OkE)
  case (1 flags pk offset s1 stop bf)
  have "blocks_in_file (parse_start data flags pk)"
    by (simp add: blocks_in_file_def column_names_def parse_start_def)
  from parse_columns_wf [OF "1"(5) this] "1"(6)
  show "wf_segment s \<and> seg_raw s = data \<and> seg_decoded s = Map.empty"
    by (auto simp: wf_segment_def blocks_in_file_def coherent_def parse_start_def)
qed

section \<open>Reading a column of a well-formed segment\<close>

text \<open>The row count the header may promise for the decoders to allocate their result.\<close>

definition rows_allocatable :: "segment \<Rightarrow> bool" where
  "rows_allocatable s \<longleftrightarrow>
     0 \<le> int_of_uint64 (seg_rowCount s) \<and> 16 * int_of_uint64 (seg_rowCount s) \<le> max_alloc"

lemma decode_payload_total:
  assumes "known_type t" "0 \<le> n" "16 * n \<le> max_alloc"
  shows "\<exists>r. decode_payload t e payload n = Some r \<and> \<not> panics r"
proof -
  have "8 * n \<le> max_alloc" using assms(2,3) by linarith
  then show ?thesis
    using assms
    by (auto simp: decode_payload_def known_type_def panics_bind_ok rle_int64_column.dec_total
        raw_int64.dec_total rle_float64_column.dec_total raw_float64.dec_total
        rle_string_column.dec_total raw_string.dec_total)
qed

lemma decode_column_no_panic:
  assumes "blocks_in_file s" "rows_allocatable s"
  shows "\<not> panics (decode_column s n)"
proof (cases "seg_blocks s n")
  case None
  then show ?thesis by (simp add: decode_column_def)
next
  case (Some b)
  with assms(1) have "n \<in> set (column_names (seg_schema s))" "cb_payloadOff b + cb_payloadLen b \<le> length (seg_raw s)"
    by (auto simp: blocks_in_file_def)
  moreover from this obtain i where i: "ColumnIndex (seg_schema s) n = Some i"
    using ColumnIndex_None_iff [of "seg_schema s" n] by auto
  moreover from i have "known_type (col_type (schema_columns (seg_schema s) ! i))"
    using assms(1) by (auto simp: ColumnIndex_Some_iff blocks_in_file_def)
  from decode_payload_total [OF this, of "int_of_uint64 (seg_rowCount s)" "cb_encoding b"
      "take (cb_payloadLen b) (drop (cb_payloadOff b) (seg_raw s))"] assms(2)
  obtain r where "decode_payload (col_type (schema_columns (seg_schema s) ! i)) (cb_encoding b)
      (take (cb_payloadLen b) (drop (cb_payloadOff b) (seg_raw s))) (int_of_uint64 (seg_rowCount s)) = Some r"
      "\<not> panics r"
    by (auto simp: rows_allocatable_def)
  ultimately show ?thesis
    using Some by (simp add: decode_column_def panics_bind_ok)
qed

lemma ReadColumn_wf:
  assumes "wf_segment s" "ReadColumn s n = (s', r)"
  shows "wf_segment s'" "r = decode_column s n"
proof -
  have "seg_blocks s' = seg_blocks s" "seg_raw s' = seg_raw s"
    using assms(2) by (auto simp: ReadColumn_def split: option.splits outcome.splits)
  then show "wf_segment s'" "r = decode_column s n"
    using ReadColumn_coherent [OF _ assms(2)] assms(1)
    by (auto simp: wf_segment_def blocks_in_file_def)
qed

text \<open>A decoded column has exactly the rows of the header and the type of the schema.\<close>

fun column_length :: "column_data \<Rightarrow> nat" where
  "column_length (Int64s xs) = length xs"
| "column_length (Float64s xs) = length xs"
| "column_length (Strings xs) = length xs"

fun column_data_type :: "column_data \<Rightarrow> column_type" where
  "column_data_type (Int64s xs) = Int64"
| "column_data_type (Float64s xs) = Float64"
| "column_data_type (Strings xs) = String"

lemma decode_payload_Ok:
  assumes "decode_payload t e payload n = Some (Ok v)"
  shows "int (column_length v) = n" "column_data_type v = t"
  using assms
  by (auto simp: decode_payload_def dest: rle_int64_column.dec_rows raw_int64.dec_rows
      rle_float64_column.dec_rows raw_float64.dec_rows rle_string_column.dec_rows raw_string.dec_rows
      split: column_type.splits if_splits)

lemma decode_column_Ok:
  assumes "decode_column s n = Ok v"
  obtains i where "ColumnIndex (seg_schema s) n = Some i"
    "column_data_type v = col_type (schema_columns (seg_schema s) ! i)"
    "int (column_length v) = int_of_uint64 (seg_rowCount s)"
  using assms that
  by (auto simp: decode_column_def Let_def dest: decode_payload_Ok split: option.splits)

lemma Close_forgets: "ReadColumn (Close s) n = (Close s, Err (ErrUnknownColumn n))"
  by (simp add: ReadColumn_def decode_column_def Close_def)

section \<open>The streaming reader agrees with the parser\<close>

definition source_at :: "byte list \<Rightarrow> bool \<Rightarrow> nat \<Rightarrow> byte_source" where
  "source_at data fails offset = \<lparr>src_bytes = drop offset data, src_fails = fails\<rparr>"

lemma read_counted:
  assumes "parse_counted data offset a b = Ok (bs, stop)" "int (length data) \<le> max_alloc"
  shows "read_uvarint a (source_at data fails offset) = Ok (length bs, source_at data fails (stop - length bs))"
    and "read_full b (length bs) (source_at data fails (stop - length bs)) = Ok (bs, source_at data fails stop)"
proof -
  from assms(1) obtain len n where u: "uvarint (drop offset data) = Some (len, n)"
    and e: "offset + n + len \<le> length data" "bs = take len (drop (offset + n) data)" "stop = offset + n + len"
    by (auto simp: parse_counted_Ok_iff parse_length_Ok_iff)
  then have len: "length bs = len" by simp
  show "read_uvarint a (source_at data fails offset) = Ok (length bs, source_at data fails (stop - length bs))"
    using u e by (simp add: read_uvarint_def source_at_def len add.commute)
  show "read_full b (length bs) (source_at data fails (stop - length bs)) = Ok (bs, source_at data fails stop)"
    using e(1,3) assms(2) parse_counted_Ok [OF assms(1)]
    by (simp add: read_full_def source_at_def len e(2) add.commute) 
qed

lemma read_flags_agrees:
  assumes "parse_flags data offset = Ok (fl, pk, stop)" "int (length data) \<le> max_alloc"
  shows "read_flags (source_at data fails offset) = Ok (pk, source_at data fails stop)"
proof -
  from assms(1) obtain flagsLen n where u: "uvarint (drop offset data) = Some (flagsLen, n)"
    and len: "flagsLen \<noteq> 0" "offset + n + flagsLen \<le> length data" "fl = data ! (offset + n)"
    and name: "if fl AND flagHasPKName \<noteq> 0
       then \<exists>bs. parse_counted data (offset + n + flagsLen) InPkNameLength InPkName = Ok (bs, stop) \<and> pk = string_of bs
       else pk = [] \<and> stop = offset + n + flagsLen"
    by (rule parse_flags_Ok)
  have "read_uvarint InFlagsLen (source_at data fails offset) = Ok (flagsLen, source_at data fails (offset + n))"
    using u by (simp add: read_uvarint_def source_at_def add.commute)
  moreover have "read_full InFlags flagsLen (source_at data fails (offset + n)) =
      Ok (take flagsLen (drop (offset + n) data), source_at data fails (offset + n + flagsLen))"
    using len(2) assms(2) by (simp add: read_full_def source_at_def add.commute)
  moreover have "fetch (take flagsLen (drop (offset + n) data)) 0 = (Ok fl :: (segment_error, _) outcome)"
    using len by (simp add: fetch_def)
  ultimately show ?thesis
    using name len(1) by (auto simp: read_flags_def read_counted [OF _ assms(2)] split: if_splits)
qed

lemma read_column_head_agrees:
  assumes "parse_column data i offset = Ok (c, b, stop)" "int (length data) \<le> max_alloc"
  shows "read_column_head i (source_at data fails offset) = Ok (c, source_at data fails stop)"
proof -
  from assms(1) obtain nameBytes off where
    name: "parse_counted data offset (InNameLength i) (InName i) = Ok (nameBytes, off)" "off + 2 \<le> length data"
      "col_name c = string_of nameBytes"
    and type: "wireToColumnType (data ! off) = Ok (col_type c)"
    and payload: "parse_length data (off + 2) (InPayloadLength i) (InPayload i) = Ok (cb_payloadLen b, cb_payloadOff b)"
      "stop = cb_payloadOff b + cb_payloadLen b"
    by (rule parse_column_OkE)
  have two: "read_full (InTags i) 2 (source_at data fails off) = Ok (take 2 (drop off data), source_at data fails (off + 2))"
    using name(2) by (simp add: read_full_def source_at_def max_alloc_def add.commute)
  have tag: "fetch (take 2 (drop off data)) 0 = (Ok (data ! off) :: (segment_error, _) outcome)"
    using name(2) by (simp add: fetch_def)
  have len: "cb_payloadOff b + cb_payloadLen b \<le> length data"
    using parse_length_Ok [OF payload(1)] by simp
  have u: "read_uvarint (InPayloadLength i) (source_at data fails (off + 2)) =
      Ok (cb_payloadLen b, source_at data fails (cb_payloadOff b))"
    using payload(1) by (auto simp: parse_length_Ok_iff read_uvarint_def source_at_def add.commute)
  have "int (cb_payloadLen b) \<le> max_alloc" using len assms(2) by linarith
  then have i: "int_of_uint64 (of_nat (cb_payloadLen b)) = int (cb_payloadLen b)"
    by (intro int_of_uint64_of_nat) (simp add: max_alloc_def)
  have skip: "skip_n (InPayload i) (int (cb_payloadLen b)) (source_at data fails (cb_payloadOff b)) =
      Ok (source_at data fails stop)"
    using len payload(2) by (simp add: skip_n_def source_at_def add.commute)
  show ?thesis
    using u by (simp add: read_column_head_def read_counted [OF name(1) assms(2)] two tag type i skip flip: name(3))
qed

lemma read_column_heads_agrees:
  "parse_columns data k i offset s = Ok (s', stop) \<Longrightarrow> int (length data) \<le> max_alloc \<Longrightarrow>
   \<exists>cs. read_column_heads k i (source_at data fails offset) = Ok cs \<and>
     seg_schema s' = (seg_schema s)\<lparr>schema_columns := schema_columns (seg_schema s) @ cs\<rparr> \<and>
     seg_rowCount s' = seg_rowCount s"
proof (induction data k i offset s rule: parse_columns.induct)
  case (2 data k i offset s)
  from "2.prems"(1) obtain c b off1 where col: "parse_column data i offset = Ok (c, b, off1)"
    and rest: "parse_columns data k (Suc i) off1
         (s\<lparr>seg_schema := (seg_schema s)\<lparr>schema_columns := schema_columns (seg_schema s) @ [c]\<rparr>,
            seg_blocks := (seg_blocks s)(col_name c \<mapsto> b)\<rparr>) = Ok (s', stop)"
    by auto
  from "2.IH" [OF rest "2.prems"(2)] obtain cs where
    "read_column_heads k (Suc i) (source_at data fails off1) = Ok cs"
    "seg_schema s' = (seg_schema s)\<lparr>schema_columns := schema_columns (seg_schema s) @ c # cs\<rparr>"
    "seg_rowCount s' = seg_rowCount s"
    by auto
  with read_column_head_agrees [OF col "2.prems"(2)] show ?case by simp
qed simp

lemma ReadSegmentHeader_agrees:
  assumes "parseSegment data = Ok s" "int (length data) \<le> max_alloc"
  shows "ReadSegmentHeader \<lparr>src_bytes = data, src_fails = fails\<rparr> = Ok (seg_schema s, seg_rowCount s)"
  using assms(1)
proof (cases rule: parseSegment_OkE)
  case (1 flags pk offset s1 stop bf)
  let ?v = "uint16_le (drop 4 data)"
  obtain cs where cs: "read_column_heads (unat (uint16_le (drop 6 data))) 0 (source_at data fails offset) = Ok cs"
      "seg_schema s1 = \<lparr>schema_pk = pk, schema_columns = cs\<rparr>" "seg_rowCount s1 = uint64_le (drop 8 data)"
    using read_column_heads_agrees [OF "1"(5) assms(2), of fails] by (auto simp: parse_start_def)
  have fields: "take 4 (take 16 data) = take 4 data" "uint16_le (drop 4 (take 16 data)) = ?v"
    "uint16_le (drop 6 (take 16 data)) = uint16_le (drop 6 data)"
    "uint64_le (drop 8 (take 16 data)) = uint64_le (drop 8 data)"
    by (simp_all add: uint16_le_def uint64_le_def take_drop)
  have flags: "(if ?v = segmentVersionV2 then read_flags (source_at data fails segmentHeaderLen)
        else Ok ([], source_at data fails segmentHeaderLen)) = Ok (pk, source_at data fails offset)"
    using "1"(4) read_flags_agrees [OF _ assms(2)] by (auto split: if_splits)
  have src: "\<lparr>src_bytes = data, src_fails = fails\<rparr>\<lparr>src_bytes := drop segmentHeaderLen data\<rparr> =
      source_at data fails segmentHeaderLen"
    by (simp add: source_at_def)
  have "ReadSegmentHeader \<lparr>src_bytes = data, src_fails = fails\<rparr> =
      bind_ok (read_column_heads (unat (uint16_le (drop 6 data))) 0 (source_at data fails offset))
        (\<lambda>cols. Ok (\<lparr>schema_pk = pk, schema_columns = cols\<rparr>, uint64_le (drop 8 data)))"
    using "1"(1-3) flags
    by (auto simp: ReadSegmentHeader_def Let_def fields segmentHeaderLen_def source_at_def)
  with cs "1"(6) show ?thesis by simp
qed

section \<open>Examples\<close>

definition example_row :: row where
  "example_row = [VInt64 1, VString ''x'']"

definition example_buffer :: write_buffer where
  "example_buffer =
     \<lparr>wb_schema = example_schema, wb_int64Cols = [0 \<mapsto> [1]], wb_float64Cols = Map.empty,
      wb_stringCols = [1 \<mapsto> [''x'']], wb_rows = 1\<rparr>"

definition example_filter :: bloom_filter where
  "example_filter = \<lparr>bf_m = 2, bf_k = 1, bf_bits = [0], bf_nAdded = 0\<rparr>"

definition example_opts :: segment_opts where
  "example_opts = \<lparr>opt_PKName = ''id'', opt_Bloom = Some example_filter\<rparr>"

lemmas example_defs = example_schema_def example_buffer_def example_opts_def

lemma Append_example: "Append (NewWriteBuffer example_schema) example_row = (example_buffer, Ok ())"
  by (simp add: Append_def NewWriteBuffer_def example_defs example_row_def check_value_def push_value_def
      slice_at_def fetch_def)

lemma example_payloads:
  "column_payload example_buffer Int64 0 = [1, 1, 0, 0, 0, 0, 0, 0, 0]"
  "column_payload example_buffer String 1 = [1, 1, 120]"
  by (simp_all add: column_payload_def example_defs slice_at_def encodeRLEInt64_def encodeRLEString_def
      put_int64_def put_string_def putUvarint.simps putUint64_def le_bytes_numeral bytes_of_def byte_of_def)

lemma writable_example: "writable example_schema example_buffer example_opts"
proof -
  have "wf_buffer example_buffer"
    using Append_conforming [OF NewWriteBuffer_props(1), of example_schema example_row] Append_example
    by (auto simp: NewWriteBuffer_props row_conforms_def example_row_def example_schema_def)
  moreover have "sized_columns 0 (schema_columns example_schema) example_buffer"
    using example_payloads by (simp add: example_schema_def sized_columns_Cons) (simp add: sized_columns_def)
  moreover have "length str < 2 ^ 64" if "str \<in> set (slice_at (wb_stringCols example_buffer) i)" for str i
    using that by (auto simp: example_buffer_def slice_at_def split: if_splits)
  ultimately show ?thesis
    by (auto simp: writable_def example_schema_def column_names_def example_buffer_def example_opts_def
        example_filter_def wf_example max_alloc_def)
qed

text \<open>A version-1 file with one \<open>int64\<close> column without a name; the row count and the tail vary.\<close>

definition crafted :: "byte list \<Rightarrow> byte list \<Rightarrow> byte list" where
  "crafted rows tail = [85, 67, 79, 76, 1, 0, 1, 0] @ rows @ [0] @ tail"

lemmas parser_eval =
  parseSegment_def parse_flags_def parse_column_def parse_counted_def parse_length_def uvarint_def uint16_le_def
  uint64_le_def segment_constants segmentMagic_def bytes_of_def byte_of_def wireToColumnType_def
  encoding_of_byte_def fetch_def Let_def

lemmas header_eval =
  ReadSegmentHeader_def read_flags_def read_column_head_def read_uvarint_def read_full_def skip_n_def
  make_slice_def

section \<open>Properties\<close>

text \<open>
  C26: the output of \<open>WriteSegment\<close> over any \<open>io.Writer\<close> that keeps the writer's contract. Either
  every write succeeds and exactly the bytes of the wire format are written, or the error of the
  first failed write is returned and a prefix of these bytes is written.
\<close>

theorem WriteSegment_output:
  assumes "byte_sink wr written"
    and "length (schema_columns schema) \<le> 0xFFFF" "known_types (schema_columns schema)"
    and "WriteSegment wr schema buf opts w = (w', r)"
  shows "(r = Ok () \<and> written w' = written w @ segment_bytes schema buf opts) \<or>
    (\<exists>p at. prefix p (segment_bytes schema buf opts) \<and> written w' = written w @ p \<and> r = Err (WriteFailed at))"
  using byte_sink.emits_segment [OF assms(1-3), of buf opts] assms(4)
  unfolding byte_sink.emits_def [OF assms(1)] by blast

theorem WriteSegment_output_witness:
  "prefix (fst (WriteSegment (bounded_write 20) example_schema example_buffer example_opts []))
     (segment_bytes example_schema example_buffer example_opts)"
proof (cases "WriteSegment (bounded_write 20) example_schema example_buffer example_opts []")
  case (Pair w r)
  have "length (schema_columns example_schema) \<le> 0xFFFF" "known_types (schema_columns example_schema)"
    by (simp_all add: example_schema_def)
  from WriteSegment_output [OF bounded.byte_sink_axioms this Pair] Pair show ?thesis by auto
qed

text \<open>
  The write path refuses what the format cannot hold: more than 65535 columns, before a byte is
  written, and a column whose type has no wire tag, whatever precedes it.
\<close>

theorem WriteSegment_refuses:
  "(0xFFFF < length (schema_columns schema) \<longrightarrow>
      WriteSegment wr schema buf opts w = (w, Err (TooManyColumns (length (schema_columns schema))))) \<and>
   (schema_columns schema = cs @ c # cs' \<longrightarrow> length (schema_columns schema) \<le> 0xFFFF \<longrightarrow> known_types cs \<longrightarrow>
      col_type c = OtherType b \<longrightarrow>
      snd (WriteSegment buffer_write schema buf opts []) =
        Err (UnknownType (col_name c) (column_type_string (OtherType b))))"
proof -
  have "snd (write_columns buffer_write i (cs @ c # cs') buf k w) =
      Err (UnknownType (col_name c) (column_type_string (OtherType b)))"
    if "known_types cs" "col_type c = OtherType b" for i k w
    using that
  proof (induction cs arbitrary: i w)
    case Nil
    then show ?case by (simp add: encode_column_def)
  next
    case (Cons d cs)
    then have "col_type d = Int64 \<or> col_type d = Float64 \<or> col_type d = String" by simp
    with Cons show ?case by (simp add: encode_column_known columnTypeToWire_known)
  qed
  then show ?thesis by (simp add: WriteSegment_def Let_def)
qed

theorem WriteSegment_refuses_witness:
  "snd (WriteSegment buffer_write
      \<lparr>schema_pk = [], schema_columns = [\<lparr>col_name = ''a'', col_type = OtherType 9\<rparr>]\<rparr> example_buffer example_opts [])
     = Err (UnknownType ''a'' (column_type_string (OtherType 9)))"
  using WriteSegment_refuses [of "\<lparr>schema_pk = [], schema_columns = [\<lparr>col_name = ''a'', col_type = OtherType 9\<rparr>]\<rparr>"
      buffer_write example_buffer example_opts "[]" "[]" "\<lparr>col_name = ''a'', col_type = OtherType 9\<rparr>" "[]" 9]
  by (simp add: wf_example)

text \<open>
  C11: the segment round trip. What \<open>WriteSegment\<close> writes of a well-formed buffer parses to a segment
  with the schema, the row count, the primary-key name and the filter that were written, every column
  read through the cache is the buffer's column, and other names are unknown columns.
\<close>

theorem segment_roundtrip:
  assumes "writable schema buf opts"
  shows "\<exists>data s. WriteSegment buffer_write schema buf opts [] = (data, Ok ()) \<and> parseSegment data = Ok s \<and>
    seg_schema s = schema\<lparr>schema_pk := opt_PKName opts\<rparr> \<and> seg_rowCount s = of_nat (wb_rows buf) \<and>
    seg_pkName s = opt_PKName opts \<and> seg_bloomFilter s = opt_Bloom opts \<and>
    (\<forall>j < length (schema_columns schema). snd (ReadColumn s (col_name (schema_columns schema ! j))) =
       Ok (buffer_column buf (col_type (schema_columns schema ! j)) j)) \<and>
    (\<forall>n. n \<notin> set (column_names schema) \<longrightarrow> snd (ReadColumn s n) = Err (ErrUnknownColumn n))"
proof -
  let ?data = "segment_bytes schema buf opts"
  have w: "WriteSegment buffer_write schema buf opts [] = (?data, Ok ())"
    using assms by (simp add: writable_def WriteSegment_buffer)
  from parseSegment_segment_bytes [OF assms] obtain s where
    s: "parseSegment ?data = Ok s" "seg_schema s = schema\<lparr>schema_pk := opt_PKName opts\<rparr>"
      "seg_rowCount s = of_nat (wb_rows buf)" "seg_pkName s = opt_PKName opts"
      "seg_bloomFilter s = opt_Bloom opts" "\<forall>n. n \<notin> set (column_names schema) \<longrightarrow> seg_blocks s n = None"
    by auto
  have read: "snd (ReadColumn s n) = decode_column s n" for n
    using ReadColumn_wf(2) [OF parseSegment_wf(1) [OF s(1)]] by (metis prod.collapse)
  have "decode_column s n = Err (ErrUnknownColumn n)" if "n \<notin> set (column_names schema)" for n
    using that s(6) by (simp add: decode_column_def)
  then show ?thesis
    using w s decode_column_written [OF assms s(1)] by (intro exI [of _ ?data] exI [of _ s]) (simp add: read)
qed

theorem segment_roundtrip_witness:
  "\<exists>data s. WriteSegment buffer_write example_schema example_buffer example_opts [] = (data, Ok ()) \<and>
     parseSegment data = Ok s \<and> snd (ReadColumn s ''id'') = Ok (Int64s [1]) \<and>
     snd (ReadColumn s ''name'') = Ok (Strings [''x''])"
proof -
  have "buffer_column example_buffer Int64 0 = Int64s [1]" "buffer_column example_buffer String 1 = Strings [''x'']"
    by (simp_all add: buffer_column_def example_buffer_def slice_at_def)
  with segment_roundtrip [OF writable_example] show ?thesis
    by (fastforce simp: example_schema_def All_less_Suc2)
qed

text \<open>
  C27: the two readers agree. On every file that \<open>parseSegment\<close> accepts, \<open>ReadSegmentHeader\<close> returns
  the same schema and row count, however the stream ends after the file's bytes.
\<close>

theorem header_reader_agrees:
  assumes "parseSegment data = Ok s" "int (length data) \<le> max_alloc"
  shows "ReadSegmentHeader \<lparr>src_bytes = data, src_fails = fails\<rparr> = Ok (seg_schema s, seg_rowCount s)"
  using assms by (rule ReadSegmentHeader_agrees)

lemma parse_empty_file:
  "parseSegment [85, 67, 79, 76, 1, 0, 0, 0, 7, 0, 0, 0, 0, 0, 0, 0] =
     Ok (parse_start [85, 67, 79, 76, 1, 0, 0, 0, 7, 0, 0, 0, 0, 0, 0, 0] 0 [])"
  by (simp add: parser_eval parse_start_def)

theorem header_reader_agrees_witness:
  "ReadSegmentHeader \<lparr>src_bytes = [85, 67, 79, 76, 1, 0, 0, 0, 7, 0, 0, 0, 0, 0, 0, 0], src_fails = True\<rparr> =
     Ok (\<lparr>schema_pk = [], schema_columns = []\<rparr>, 7)"
  using header_reader_agrees [OF parse_empty_file, of True]
  by (simp add: max_alloc_def parse_start_def uint64_le_def)

text \<open>
  C24: \<open>parseSegment\<close> on arbitrary bytes returns a segment or an error and never panics: every index and slice
  of the data, in the header, the flags, the columns, the trailer and the filter, is in range. In a segment
  it returns every column of the schema has a block inside the file and a known type, and nothing is
  cached yet.
\<close>

theorem parseSegment_safe:
  "\<not> panics (parseSegment data) \<and>
   (\<forall>s. parseSegment data = Ok s \<longrightarrow>
      seg_raw s = data \<and> seg_decoded s = Map.empty \<and> dom (seg_blocks s) = set (column_names (seg_schema s)) \<and>
      (\<forall>n b. seg_blocks s n = Some b \<longrightarrow> cb_payloadOff b + cb_payloadLen b \<le> length data) \<and>
      (\<forall>c \<in> set (schema_columns (seg_schema s)). col_type c \<in> {Int64, Float64, String}))"
  using parseSegment_no_panic parseSegment_wf
  by (fastforce simp: panics_iff wf_segment_def blocks_in_file_def known_type_def)

theorem parseSegment_safe_witness:
  "\<not> panics (parseSegment [85, 67, 79]) \<and> \<not> panics (parseSegment (crafted [0, 0, 0, 0, 0, 0, 0, 0] [0])) \<and>
   (\<exists>s. parseSegment [85, 67, 79, 76, 1, 0, 0, 0, 7, 0, 0, 0, 0, 0, 0, 0] = Ok s \<and>
      seg_raw s = [85, 67, 79, 76, 1, 0, 0, 0, 7, 0, 0, 0, 0, 0, 0, 0] \<and> dom (seg_blocks s) = {})"
  using parseSegment_safe [of "[85, 67, 79, 76, 1, 0, 0, 0, 7, 0, 0, 0, 0, 0, 0, 0]"] parse_empty_file
    parseSegment_safe [of "[85, 67, 79]"] parseSegment_safe [of "crafted [0, 0, 0, 0, 0, 0, 0, 0] [0]"]
  by (auto simp: parse_start_def)

text \<open>A sequence of column reads on one segment, the cache carried along.\<close>

fun read_columns :: "segment \<Rightarrow> string list \<Rightarrow> segment \<times> (segment_error, column_data) outcome list" where
  "read_columns s [] = (s, [])"
| "read_columns s (n # ns) =
     (let (s1, r) = ReadColumn s n; (s2, rs) = read_columns s1 ns in (s2, r # rs))"

lemma read_columns_eq: "read_columns s ns = column_cache.read_keys s ns"
  by (induction ns arbitrary: s) simp_all

text \<open>
  C25: the column cache is transparent. On a parsed segment, any sequence of \<open>ReadColumn\<close> calls, with
  repetitions, returns for each name what decoding it afresh would, in every order; if the row count
  is one that a slice can hold no call panics, and a returned column has the rows of the header and
  the type of the schema.
\<close>

theorem column_reads_are_pure:
  assumes "parseSegment data = Ok s" "rows_allocatable s"
  shows "snd (read_columns s ns) = map (decode_column s) ns \<and>
    (\<forall>n. \<not> panics (decode_column s n)) \<and>
    (\<forall>n v. decode_column s n = Ok v \<longrightarrow>
       (\<exists>i. ColumnIndex (seg_schema s) n = Some i \<and>
          column_data_type v = col_type (schema_columns (seg_schema s) ! i) \<and>
          int (column_length v) = int_of_uint64 (seg_rowCount s)))"
proof -
  have wf: "wf_segment s" using assms(1) by (rule parseSegment_wf)
  then have "snd (read_columns s ns) = map (decode_column s) ns"
    using column_cache.read_keys_map [of s ns] unfolding read_columns_eq wf_segment_def
    by (metis prod.collapse)
  moreover have "\<not> panics (decode_column s n)" for n
    using wf assms(2) by (simp add: wf_segment_def decode_column_no_panic)
  ultimately show ?thesis
    using decode_column_Ok by metis
qed

lemma example_segment:
  obtains s where "parseSegment (segment_bytes example_schema example_buffer example_opts) = Ok s"
    "seg_schema s = example_schema" "seg_rowCount s = 1"
    "decode_column s ''id'' = Ok (Int64s [1])" "decode_column s ''name'' = Ok (Strings [''x''])"
proof -
  let ?data = "segment_bytes example_schema example_buffer example_opts"
  from parseSegment_segment_bytes [OF writable_example] obtain s where
    s: "parseSegment ?data = Ok s" "seg_schema s = example_schema" "seg_rowCount s = 1"
    by (auto simp: example_opts_def example_schema_def example_buffer_def)
  have "buffer_column example_buffer Int64 0 = Int64s [1]" "buffer_column example_buffer String 1 = Strings [''x'']"
    by (simp_all add: buffer_column_def example_buffer_def slice_at_def)
  with decode_column_written [OF writable_example s(1), of 0] decode_column_written [OF writable_example s(1), of 1]
  show ?thesis by (intro that [OF s]) (simp_all add: example_schema_def)
qed

theorem column_reads_are_pure_witness:
  "\<exists>s. parseSegment (segment_bytes example_schema example_buffer example_opts) = Ok s \<and>
     snd (read_columns s [''name'', ''id'', ''name'', ''none'']) =
       [Ok (Strings [''x'']), Ok (Int64s [1]), Ok (Strings [''x'']), decode_column s ''none''] \<and>
     \<not> panics (decode_column s ''none'')"
proof -
  obtain s where s: "parseSegment (segment_bytes example_schema example_buffer example_opts) = Ok s"
    "seg_schema s = example_schema" "seg_rowCount s = 1"
    "decode_column s ''id'' = Ok (Int64s [1])" "decode_column s ''name'' = Ok (Strings [''x''])"
    by (rule example_segment)
  have "rows_allocatable s"
    using int_of_uint64_of_nat [of 1] by (simp add: rows_allocatable_def s(3) max_alloc_def)
  from column_reads_are_pure [OF s(1) this, of "[''name'', ''id'', ''name'', ''none'']"] s show ?thesis by auto
qed

text \<open>
  A segment forgets its columns when it is closed: every read after \<open>Close\<close> reports an unknown
  column, whatever was cached.
\<close>

theorem Close_makes_columns_unknown:
  "ReadColumn (Close s) n = (Close s, Err (ErrUnknownColumn n)) \<and> seg_bloomFilter (Close s) = None"
  by (simp add: Close_forgets) (simp add: Close_def)

text \<open>
  The row count of the header is not checked. A 20-byte file that promises \<open>2 ^ 64 - 1\<close> rows
  parses, and reading its column panics in \<open>make\<close> instead of returning an error.
\<close>

theorem ReadColumn_panics_on_row_count:
  "\<exists>s. parseSegment (crafted (replicate 8 255) [0, 1, 0]) = Ok s \<and>
     snd (ReadColumn s []) = Panic MakeSliceOutOfRange"
proof -
  have data: "crafted (replicate 8 255) [0, 1, 0] =
      [85, 67, 79, 76, 1, 0, 1, 0, 255, 255, 255, 255, 255, 255, 255, 255, 0, 0, 1, 0]"
    by (simp add: crafted_def numeral_eq_Suc)
  show ?thesis
    unfolding data
    by (simp add: parser_eval ReadColumn_def decode_column_def ColumnIndex_def
        decode_payload_def decodeRLEInt64_def int_of_uint64_def make_slice_def string_of_def)
qed

text \<open>
  The streaming reader is laxer than the parser, and less robust. It accepts an encoding byte the
  parser rejects; a payload length of \<open>2 ^ 63\<close> becomes a negative count that \<open>io.CopyN\<close> skips
  silently, where the parser reports truncation; a flags length of \<open>2 ^ 63\<close> makes it panic, where the
  parser reports truncation.
\<close>

theorem header_reader_is_laxer:
  "ReadSegmentHeader \<lparr>src_bytes = crafted [0, 0, 0, 0, 0, 0, 0, 0] [0, 9, 0], src_fails = False\<rparr> =
     Ok (\<lparr>schema_pk = [], schema_columns = [\<lparr>col_name = [], col_type = Int64\<rparr>]\<rparr>, 0) \<and>
   parseSegment (crafted [0, 0, 0, 0, 0, 0, 0, 0] [0, 9, 0]) = Err (BadEncoding 0 [] 9) \<and>
   ReadSegmentHeader \<lparr>src_bytes = crafted [0, 0, 0, 0, 0, 0, 0, 0]
       [0, 1, 128, 128, 128, 128, 128, 128, 128, 128, 128, 1], src_fails = False\<rparr> =
     Ok (\<lparr>schema_pk = [], schema_columns = [\<lparr>col_name = [], col_type = Int64\<rparr>]\<rparr>, 0) \<and>
   parseSegment (crafted [0, 0, 0, 0, 0, 0, 0, 0] [0, 1, 128, 128, 128, 128, 128, 128, 128, 128, 128, 1]) =
     Err (ErrTruncated (InPayload 0)) \<and>
   ReadSegmentHeader \<lparr>src_bytes = [85, 67, 79, 76, 2, 0, 0, 0, 0, 0, 0, 0, 0, 0, 0, 0,
       128, 128, 128, 128, 128, 128, 128, 128, 128, 1], src_fails = False\<rparr> = Panic MakeSliceOutOfRange \<and>
   parseSegment [85, 67, 79, 76, 2, 0, 0, 0, 0, 0, 0, 0, 0, 0, 0, 0,
       128, 128, 128, 128, 128, 128, 128, 128, 128, 1] = Err (ErrTruncated InFlags)"
  by (simp add: crafted_def parser_eval header_eval max_alloc_def int_of_uint64_def string_of_def)

end
