(* ===== verification/Exec.thy ===== *)
theory Exec
  imports Parser SegmentSafety
begin

text \<open>
  The executor of \<open>query/exec.go\<close>. Reading a column may extend the segment's cache, so every step
  takes the segment and returns it with its outcome. A selection vector is a list of booleans, an
  index into it or into a column carries the bounds check of the run time.
\<close>

section \<open>Results and errors\<close>

record result =
  res_Columns :: "string list"
  res_Rows :: "row list"
  res_isAggregate :: bool

datatype query_place = InProjection | InWhere | InSum | InGroupBy

datatype column_use = FilterColumn | SumColumn | ProjectedColumn | GroupColumn

datatype query_error =
    QUnknownColumn string query_place
  | QTypeMismatch nat string column_type string
  | QCannotSum column_type string
  | QSumOverflow string
  | QSumOverflowInGroup string go_value
  | QReadFailed column_use string segment_error
  | QUnknownProjection int
  | QMalformedFilter
  | QUnsupportedType column_type
  | QCannotFilter column_type
  | QUnreachable

definition IsAggregate :: "result \<Rightarrow> bool" where
  "IsAggregate r = res_isAggregate r"

section \<open>Steps on a segment\<close>

type_synonym 'a step = "segment \<times> (query_error, 'a) outcome"

text \<open>Go on with the value and the segment as the first step left it.\<close>

definition and_then :: "'a step \<Rightarrow> ('a \<Rightarrow> segment \<Rightarrow> 'b step) \<Rightarrow> 'b step" where
  "and_then m k =
     (case m of
        (s, Ok x) \<Rightarrow> k x s
      | (s, Err e) \<Rightarrow> (s, Err e)
      | (s, Panic p) \<Rightarrow> (s, Panic p))"

definition read_column_for :: "column_use \<Rightarrow> string \<Rightarrow> segment \<Rightarrow> column_data step" where
  "read_column_for u name s =
     (let (s', r) = ReadColumn s name in (s', map_err (QReadFailed u name) r))"

section \<open>Comparisons\<close>

text \<open>Go compares strings byte by byte, the order of HOL strings with \<open>Char_ord\<close>.\<close>

fun compareInt64 :: "int64 \<Rightarrow> filter_op \<Rightarrow> int64 \<Rightarrow> bool" where
  "compareInt64 v OpEq w = (v = w)"
| "compareInt64 v OpNeq w = (v \<noteq> w)"
| "compareInt64 v OpLt w = (sint v < sint w)"
| "compareInt64 v OpGt w = (sint w < sint v)"
| "compareInt64 v OpLte w = (sint v \<le> sint w)"
| "compareInt64 v OpGte w = (sint w \<le> sint v)"
| "compareInt64 v (OtherOp _) w = False"

fun compareFloat64 :: "float64 \<Rightarrow> filter_op \<Rightarrow> float64 \<Rightarrow> bool" where
  "compareFloat64 v OpEq w = f_eq v w"
| "compareFloat64 v OpNeq w = (\<not> f_eq v w)"
| "compareFloat64 v OpLt w = f_less v w"
| "compareFloat64 v OpGt w = f_less w v"
| "compareFloat64 v OpLte w = f_le v w"
| "compareFloat64 v OpGte w = f_le w v"
| "compareFloat64 v (OtherOp _) w = False"

fun compareString :: "string \<Rightarrow> filter_op \<Rightarrow> string \<Rightarrow> bool" where
  "compareString v OpEq w = (v = w)"
| "compareString v OpNeq w = (v \<noteq> w)"
| "compareString v OpLt w = (v < w)"
| "compareString v OpGt w = (w < v)"
| "compareString v OpLte w = (v \<le> w)"
| "compareString v OpGte w = (w \<le> v)"
| "compareString v (OtherOp _) w = False"

definition scanInt64 :: "int64 list \<Rightarrow> filter_op \<Rightarrow> int64 \<Rightarrow> bool list" where
  "scanInt64 vals op w = map (\<lambda>v. compareInt64 v op w) vals"

definition scanFloat64 :: "float64 list \<Rightarrow> filter_op \<Rightarrow> float64 \<Rightarrow> bool list" where
  "scanFloat64 vals op w = map (\<lambda>v. compareFloat64 v op w) vals"

definition scanString :: "string list \<Rightarrow> filter_op \<Rightarrow> string \<Rightarrow> bool list" where
  "scanString vals op w = map (\<lambda>v. compareString v op w) vals"

section \<open>WHERE\<close>

definition checkLiteralType :: "comparison \<Rightarrow> column_type \<Rightarrow> (query_error, unit) outcome" where
  "checkLiteralType c t =
     (case t of
        OtherType _ \<Rightarrow> Err (QUnsupportedType t)
      | _ \<Rightarrow>
          if has_type (cmp_Value c) t then Ok ()
          else Err (QTypeMismatch (cmp_Pos c) (cmp_Column c) t (go_type_name (cmp_Value c))))"

text \<open>The assertions \<open>decoded.([]T)\<close> and \<open>c.Value.(T)\<close> panic on another dynamic type.\<close>

definition applyComparison :: "column_data \<Rightarrow> column_type \<Rightarrow> comparison \<Rightarrow> (query_error, bool list) outcome" where
  "applyComparison decoded t c =
     (case t of
        Int64 \<Rightarrow>
          (case (decoded, cmp_Value c) of
             (Int64s vals, VInt64 want) \<Rightarrow> Ok (scanInt64 vals (cmp_Op c) want)
           | _ \<Rightarrow> Panic TypeAssertion)
      | Float64 \<Rightarrow>
          (case (decoded, cmp_Value c) of
             (Float64s vals, VFloat64 want) \<Rightarrow> Ok (scanFloat64 vals (cmp_Op c) want)
           | _ \<Rightarrow> Panic TypeAssertion)
      | String \<Rightarrow>
          (case (decoded, cmp_Value c) of
             (Strings vals, VString want) \<Rightarrow> Ok (scanString vals (cmp_Op c) want)
           | _ \<Rightarrow> Panic TypeAssertion)
      | OtherType _ \<Rightarrow> Err (QCannotFilter t))"

definition evalComparison :: "schema \<Rightarrow> comparison \<Rightarrow> segment \<Rightarrow> bool list step" where
  "evalComparison schema c s =
     (case ColumnIndex schema (cmp_Column c) of
        None \<Rightarrow> (s, Err (QUnknownColumn (cmp_Column c) InWhere))
      | Some idx \<Rightarrow>
          let colType = col_type (schema_columns schema ! idx)
          in and_then (s, checkLiteralType c colType) (\<lambda>_ s.
             and_then (read_column_for FilterColumn (cmp_Column c) s) (\<lambda>v s.
               (s, applyComparison v colType c))))"

text \<open>
  The loops \<open>acc[i] = acc[i] && next[i]\<close> and \<open>acc[i] = acc[i] || next[i]\<close>: the second operand is
  fetched only when the first one does not decide.
\<close>

fun combine_and :: "nat \<Rightarrow> bool list \<Rightarrow> bool list \<Rightarrow> (query_error, bool list) outcome" where
  "combine_and i [] next = Ok []"
| "combine_and i (a # as) next =
     bind_ok (if a then fetch next i else Ok False) (\<lambda>b.
     bind_ok (combine_and (Suc i) as next) (\<lambda>bs. Ok (b # bs)))"

fun combine_or :: "nat \<Rightarrow> bool list \<Rightarrow> bool list \<Rightarrow> (query_error, bool list) outcome" where
  "combine_or i [] next = Ok []"
| "combine_or i (a # as) next =
     bind_ok (if a then Ok True else fetch next i) (\<lambda>b.
     bind_ok (combine_or (Suc i) as next) (\<lambda>bs. Ok (b # bs)))"

fun evaluate :: "schema \<Rightarrow> filter_expr \<Rightarrow> segment \<Rightarrow> bool list step"
  and evaluate_and :: "schema \<Rightarrow> filter_expr list \<Rightarrow> bool list \<Rightarrow> segment \<Rightarrow> bool list step"
  and evaluate_or :: "schema \<Rightarrow> filter_expr list \<Rightarrow> bool list \<Rightarrow> segment \<Rightarrow> bool list step" where
  "evaluate schema (FilterExpr (Some c) _ _) s = evalComparison schema c s"
| "evaluate schema (FilterExpr None (Some []) _) s = (s, Panic IndexOutOfRange)"
| "evaluate schema (FilterExpr None (Some (e # es)) _) s =
     and_then (evaluate schema e s) (\<lambda>acc s. evaluate_and schema es acc s)"
| "evaluate schema (FilterExpr None None (Some [])) s = (s, Panic IndexOutOfRange)"
| "evaluate schema (FilterExpr None None (Some (e # es))) s =
     and_then (evaluate schema e s) (\<lambda>acc s. evaluate_or schema es acc s)"
| "evaluate schema (FilterExpr None None None) s = (s, Err QMalformedFilter)"
| "evaluate_and schema [] acc s = (s, Ok acc)"
| "evaluate_and schema (e # es) acc s =
     and_then (evaluate schema e s) (\<lambda>next s.
     and_then (s, combine_and 0 acc next) (\<lambda>acc s. evaluate_and schema es acc s))"
| "evaluate_or schema [] acc s = (s, Ok acc)"
| "evaluate_or schema (e # es) acc s =
     and_then (evaluate schema e s) (\<lambda>next s.
     and_then (s, combine_or 0 acc next) (\<lambda>acc s. evaluate_or schema es acc s))"

section \<open>Aggregates\<close>

text \<open>\<open>filtered && !selection[i]\<close>\<close>

definition skipped :: "bool list \<Rightarrow> bool \<Rightarrow> nat \<Rightarrow> (query_error, bool) outcome" where
  "skipped selection filtered i =
     (if filtered then bind_ok (fetch selection i) (\<lambda>b. Ok (\<not> b)) else Ok False)"

fun count_true :: "uint64 \<Rightarrow> bool list \<Rightarrow> uint64" where
  "count_true n [] = n"
| "count_true n (b # bs) = count_true (if b then n + 1 else n) bs"

definition execCount :: "segment \<Rightarrow> bool list \<Rightarrow> bool \<Rightarrow> result" where
  "execCount s selection filtered =
     (let n = (if \<not> filtered then seg_rowCount s else count_true 0 selection)
      in \<lparr>res_Columns = [''COUNT(*)''], res_Rows = [[VUint64 n]], res_isAggregate = True\<rparr>)"

text \<open>The sum wraps; the flag is the two's-complement overflow test.\<close>

definition addInt64Checked :: "int64 \<Rightarrow> int64 \<Rightarrow> int64 \<times> bool" where
  "addInt64Checked acc x =
     (let newSum = acc + x
      in if (0 < sint acc \<and> 0 < sint x \<and> sint newSum < 0) \<or>
            (sint acc < 0 \<and> sint x < 0 \<and> 0 \<le> sint newSum)
         then (0, False) else (newSum, True))"

fun sum_int64 :: "string \<Rightarrow> bool list \<Rightarrow> bool \<Rightarrow> nat \<Rightarrow> int64 list \<Rightarrow> int64 \<Rightarrow> (query_error, int64) outcome" where
  "sum_int64 col selection filtered i [] acc = Ok acc"
| "sum_int64 col selection filtered i (x # xs) acc =
     bind_ok (skipped selection filtered i) (\<lambda>skip.
       if skip then sum_int64 col selection filtered (Suc i) xs acc
       else
         case addInt64Checked acc x of (newSum, ok) \<Rightarrow>
           if \<not> ok then Err (QSumOverflow col)
           else sum_int64 col selection filtered (Suc i) xs newSum)"

fun sum_float64 :: "bool list \<Rightarrow> bool \<Rightarrow> nat \<Rightarrow> float64 list \<Rightarrow> float64 \<Rightarrow> (query_error, float64) outcome" where
  "sum_float64 selection filtered i [] acc = Ok acc"
| "sum_float64 selection filtered i (x # xs) acc =
     bind_ok (skipped selection filtered i) (\<lambda>skip.
       sum_float64 selection filtered (Suc i) xs (if skip then acc else f_add acc x))"

definition sum_header :: "string \<Rightarrow> string" where
  "sum_header col = ''SUM('' @ col @ '')''"

definition execSum :: "string \<Rightarrow> schema \<Rightarrow> bool list \<Rightarrow> bool \<Rightarrow> segment \<Rightarrow> result step" where
  "execSum col schema selection filtered s =
     (case ColumnIndex schema col of
        None \<Rightarrow> (s, Err (QUnknownColumn col InSum))
      | Some idx \<Rightarrow>
          let colType = col_type (schema_columns schema ! idx)
          in if colType \<noteq> Int64 \<and> colType \<noteq> Float64 then (s, Err (QCannotSum colType col))
             else and_then (read_column_for SumColumn col s) (\<lambda>v s. (s,
               if colType = Int64 then
                 (case v of
                    Int64s vals \<Rightarrow> bind_ok (sum_int64 col selection filtered 0 vals 0) (\<lambda>acc.
                      Ok \<lparr>res_Columns = [sum_header col], res_Rows = [[VInt64 acc]], res_isAggregate = True\<rparr>)
                  | _ \<Rightarrow> Panic TypeAssertion)
               else if colType = Float64 then
                 (case v of
                    Float64s vals \<Rightarrow> bind_ok (sum_float64 selection filtered 0 vals f_zero) (\<lambda>acc.
                      Ok \<lparr>res_Columns = [sum_header col], res_Rows = [[VFloat64 acc]], res_isAggregate = True\<rparr>)
                  | _ \<Rightarrow> Panic TypeAssertion)
               else Err QUnreachable)))"

section \<open>Projections\<close>

fun rowValueAt :: "column_data \<Rightarrow> nat \<Rightarrow> (query_error, go_value) outcome" where
  "rowValueAt (Int64s xs) i = bind_ok (fetch xs i) (\<lambda>x. Ok (VInt64 x))"
| "rowValueAt (Float64s xs) i = bind_ok (fetch xs i) (\<lambda>x. Ok (VFloat64 x))"
| "rowValueAt (Strings xs) i = bind_ok (fetch xs i) (\<lambda>x. Ok (VString x))"

fun count_int :: "int \<Rightarrow> bool list \<Rightarrow> int" where
  "count_int n [] = n"
| "count_int n (b # bs) = count_int (if b then n + 1 else n) bs"

definition estimateRows :: "int \<Rightarrow> bool list \<Rightarrow> bool \<Rightarrow> int" where
  "estimateRows rowTotal selection filtered = (if \<not> filtered then rowTotal else count_int 0 selection)"

fun read_all :: "string list \<Rightarrow> segment \<Rightarrow> column_data list step" where
  "read_all [] s = (s, Ok [])"
| "read_all (n # ns) s =
     and_then (read_column_for ProjectedColumn n s) (\<lambda>d s.
     and_then (read_all ns s) (\<lambda>ds s. (s, Ok (d # ds))))"

fun row_values :: "column_data list \<Rightarrow> nat \<Rightarrow> (query_error, row) outcome" where
  "row_values [] i = Ok []"
| "row_values (d # ds) i =
     bind_ok (rowValueAt d i) (\<lambda>v. bind_ok (row_values ds i) (\<lambda>vs. Ok (v # vs)))"

fun project_rows ::
  "column_data list \<Rightarrow> bool list \<Rightarrow> bool \<Rightarrow> nat list \<Rightarrow> (query_error, row list) outcome" where
  "project_rows decoded selection filtered [] = Ok []"
| "project_rows decoded selection filtered (i # is) =
     bind_ok (skipped selection filtered i) (\<lambda>skip.
       if skip then project_rows decoded selection filtered is
       else
         bind_ok (row_values decoded i) (\<lambda>row.
         bind_ok (project_rows decoded selection filtered is) (\<lambda>rows. Ok (row # rows))))"

text \<open>\<open>for i := range total\<close>: no iteration for a negative total. A slice header has 24 bytes.\<close>

definition execProject :: "string list \<Rightarrow> bool list \<Rightarrow> bool \<Rightarrow> segment \<Rightarrow> result step" where
  "execProject cols selection filtered s =
     and_then (read_all cols s) (\<lambda>decoded s.
       let rowTotal = int_of_uint64 (seg_rowCount s)
       in (s, bind_ok (make_slice 24 (estimateRows rowTotal selection filtered)) (\<lambda>_.
              bind_ok (project_rows decoded selection filtered [0..<nat rowTotal]) (\<lambda>rows.
                Ok \<lparr>res_Columns = cols, res_Rows = rows, res_isAggregate = False\<rparr>))))"

section \<open>GROUP BY\<close>

record group_accumulator =
  ga_count :: uint64
  ga_sumI64 :: int64
  ga_sumF64 :: float64

definition empty_accumulator :: group_accumulator where
  "empty_accumulator = \<lparr>ga_count = 0, ga_sumI64 = 0, ga_sumF64 = f_zero\<rparr>"

text \<open>Equality of interface values as map keys: a NaN equals no key, the two zeros are one key.\<close>

fun key_eq :: "go_value \<Rightarrow> go_value \<Rightarrow> bool" where
  "key_eq (VInt64 a) (VInt64 b) = (a = b)"
| "key_eq (VFloat64 a) (VFloat64 b) = f_eq a b"
| "key_eq (VString a) (VString b) = (a = b)"
| "key_eq (VUint64 a) (VUint64 b) = (a = b)"
| "key_eq VNil VNil = True"
| "key_eq _ _ = False"

text \<open>
  \<open>map[any]*groupAccumulator\<close> as its entries in insertion order; \<open>entry_of\<close> is the position of the
  entry that a lookup finds.
\<close>

type_synonym groups = "(go_value \<times> group_accumulator) list"

fun entry_of :: "groups \<Rightarrow> go_value \<Rightarrow> nat option" where
  "entry_of [] k = None"
| "entry_of ((k', a) # g) k = (if key_eq k' k then Some 0 else map_option Suc (entry_of g k))"

datatype sum_column = NoSum | IntSum "int64 list" | FloatSum "float64 list"

text \<open>The update of one accumulator with row \<open>i\<close>.\<close>

definition accumulate ::
  "query \<Rightarrow> sum_column \<Rightarrow> nat \<Rightarrow> go_value \<Rightarrow> group_accumulator \<Rightarrow> (query_error, group_accumulator) outcome" where
  "accumulate q sc i key acc =
     (case q_GroupAgg q of
        AggCountStar \<Rightarrow> Ok (acc\<lparr>ga_count := ga_count acc + 1\<rparr>)
      | AggSumColumn \<Rightarrow>
          (case sc of
             IntSum xs \<Rightarrow>
               bind_ok (fetch xs i) (\<lambda>x.
                 case addInt64Checked (ga_sumI64 acc) x of (newSum, ok) \<Rightarrow>
                   if \<not> ok then Err (QSumOverflowInGroup (q_SumColumn q) key)
                   else Ok (acc\<lparr>ga_sumI64 := newSum\<rparr>))
           | FloatSum xs \<Rightarrow>
               bind_ok (fetch xs i) (\<lambda>x. Ok (acc\<lparr>ga_sumF64 := f_add (ga_sumF64 acc) x\<rparr>))
           | NoSum \<Rightarrow> Ok acc)
      | OtherAggregate _ \<Rightarrow> Ok acc)"

fun group_rows ::
  "query \<Rightarrow> sum_column \<Rightarrow> column_data \<Rightarrow> bool list \<Rightarrow> bool \<Rightarrow> nat list \<Rightarrow> go_value list \<Rightarrow> groups \<Rightarrow>
   (query_error, go_value list \<times> groups) outcome" where
  "group_rows q sc gCol selection filtered [] keys groups = Ok (keys, groups)"
| "group_rows q sc gCol selection filtered (i # is) keys groups =
     bind_ok (skipped selection filtered i) (\<lambda>skip.
       if skip then group_rows q sc gCol selection filtered is keys groups
       else
         bind_ok (rowValueAt gCol i) (\<lambda>key.
           case (case entry_of groups key of
                   Some j \<Rightarrow> (j, keys, groups)
                 | None \<Rightarrow> (length groups, keys @ [key], groups @ [(key, empty_accumulator)]))
           of (j, keys, groups) \<Rightarrow>
             bind_ok (accumulate q sc i key (snd (groups ! j))) (\<lambda>acc.
               group_rows q sc gCol selection filtered is keys (groups[j := (fst (groups ! j), acc)]))))"

text \<open>The cell of a group: \<open>acc\<close> is nil when the map has no entry for the key.\<close>

definition aggregate_cell :: "query \<Rightarrow> sum_column \<Rightarrow> group_accumulator option \<Rightarrow> (query_error, go_value) outcome" where
  "aggregate_cell q sc acc =
     (case q_GroupAgg q of
        AggCountStar \<Rightarrow>
          (case acc of None \<Rightarrow> Panic NilDereference | Some a \<Rightarrow> Ok (VUint64 (ga_count a)))
      | AggSumColumn \<Rightarrow>
          (case sc of
             IntSum _ \<Rightarrow> (case acc of None \<Rightarrow> Panic NilDereference | Some a \<Rightarrow> Ok (VInt64 (ga_sumI64 a)))
           | FloatSum _ \<Rightarrow> (case acc of None \<Rightarrow> Panic NilDereference | Some a \<Rightarrow> Ok (VFloat64 (ga_sumF64 a)))
           | NoSum \<Rightarrow> Ok VNil)
      | OtherAggregate _ \<Rightarrow> Ok VNil)"

fun emit_groups :: "query \<Rightarrow> sum_column \<Rightarrow> groups \<Rightarrow> go_value list \<Rightarrow> (query_error, row list) outcome" where
  "emit_groups q sc groups [] = Ok []"
| "emit_groups q sc groups (k # ks) =
     bind_ok (aggregate_cell q sc (map_option (\<lambda>j. snd (groups ! j)) (entry_of groups k))) (\<lambda>v.
     bind_ok (emit_groups q sc groups ks) (\<lambda>rows. Ok ([k, v] # rows)))"

text \<open>The checks and the read of the summed column.\<close>

definition read_sum_column :: "schema \<Rightarrow> query \<Rightarrow> segment \<Rightarrow> sum_column step" where
  "read_sum_column schema q s =
     (if q_GroupAgg q \<noteq> AggSumColumn then (s, Ok NoSum)
      else
        (case ColumnIndex schema (q_SumColumn q) of
           None \<Rightarrow> (s, Err (QUnknownColumn (q_SumColumn q) InSum))
         | Some idx \<Rightarrow>
             let sType = col_type (schema_columns schema ! idx)
             in if sType \<noteq> Int64 \<and> sType \<noteq> Float64 then (s, Err (QCannotSum sType (q_SumColumn q)))
                else and_then (read_column_for SumColumn (q_SumColumn q) s) (\<lambda>v s. (s,
                  case (sType, v) of
                    (Int64, Int64s xs) \<Rightarrow> Ok (IntSum xs)
                  | (Float64, Float64s xs) \<Rightarrow> Ok (FloatSum xs)
                  | _ \<Rightarrow> Panic TypeAssertion))))"

definition execGrouped :: "schema \<Rightarrow> query \<Rightarrow> bool list \<Rightarrow> bool \<Rightarrow> segment \<Rightarrow> result step" where
  "execGrouped schema q selection filtered s =
     (case ColumnIndex schema (q_GroupBy q) of
        None \<Rightarrow> (s, Err (QUnknownColumn (q_GroupBy q) InGroupBy))
      | Some _ \<Rightarrow>
          and_then (read_column_for GroupColumn (q_GroupBy q) s) (\<lambda>gCol s.
          and_then (read_sum_column schema q s) (\<lambda>sc s.
            let rowTotal = int_of_uint64 (seg_rowCount s)
            in (s, bind_ok (group_rows q sc gCol selection filtered [0..<nat rowTotal] [] []) (\<lambda>(keys, groups).
                   bind_ok (emit_groups q sc groups keys) (\<lambda>rows.
                     Ok \<lparr>res_Columns = [q_GroupBy q,
                            if q_GroupAgg q = AggSumColumn then sum_header (q_SumColumn q) else ''COUNT(*)''],
                         res_Rows = rows, res_isAggregate = False\<rparr>))))))"

section \<open>Execute\<close>

text \<open>The names that the projection reads.\<close>

definition projection_columns :: "schema \<Rightarrow> query \<Rightarrow> string list" where
  "projection_columns schema q =
     (case q_Projection q of
        ProjColumns \<Rightarrow> q_Columns q
      | ProjStar \<Rightarrow> map col_name (schema_columns schema)
      | ProjSumColumn \<Rightarrow> [q_SumColumn q]
      | _ \<Rightarrow> [])"

fun check_projection :: "schema \<Rightarrow> string list \<Rightarrow> (query_error, unit) outcome" where
  "check_projection schema [] = Ok ()"
| "check_projection schema (n # ns) =
     (if ColumnIndex schema n = None then Err (QUnknownColumn n InProjection)
      else check_projection schema ns)"

definition Execute :: "segment \<Rightarrow> query \<Rightarrow> result step" where
  "Execute s q =
     (let schema = seg_schema s; projCols = projection_columns schema q
      in and_then (s, check_projection schema projCols) (\<lambda>_ s.
         and_then (case q_Where q of
                     None \<Rightarrow> (s, Ok ([], False))
                   | Some e \<Rightarrow> and_then (evaluate schema e s) (\<lambda>sel s. (s, Ok (sel, True))))
           (\<lambda>(selection, filtered) s.
              case q_Projection q of
                ProjCountStar \<Rightarrow> (s, Ok (execCount s selection filtered))
              | ProjSumColumn \<Rightarrow> execSum (q_SumColumn q) schema selection filtered s
              | ProjColumns \<Rightarrow> execProject projCols selection filtered s
              | ProjStar \<Rightarrow> execProject projCols selection filtered s
              | ProjGrouped \<Rightarrow> execGrouped schema q selection filtered s
              | OtherProjection i \<Rightarrow> (s, Err (QUnknownProjection i)))))"

end
