(* ===== verification/ParserFacts.thy ===== *)
theory ParserFacts
  imports Parser "HOL-Library.Sublist"
begin

text \<open>
  What the parser guarantees: it never panics and points into the input when it complains; the WHERE
  tree and the grouped queries it returns have the shape the executor relies on; AND binds tighter
  than OR.
\<close>

section \<open>Error positions\<close>

fun error_pos :: "parse_error \<Rightarrow> nat option" where
  "error_pos (StrayBang p) = Some p"
| "error_pos (UnterminatedString p) = Some p"
| "error_pos (UnexpectedCharacter p _) = Some p"
| "error_pos (TrailingToken p _) = Some p"
| "error_pos (ExpectedSelect p _) = Some p"
| "error_pos (UnexpectedFrom p) = Some p"
| "error_pos (HavingUnsupported p) = Some p"
| "error_pos (ExpectedStarInCount p _) = Some p"
| "error_pos (ExpectedColumnInSum p _) = Some p"
| "error_pos (ExpectedBy p _) = Some p"
| "error_pos (ExpectedGroupColumn p _) = Some p"
| "error_pos (MultiColumnGroupBy p) = Some p"
| "error_pos GroupByRequired = None"
| "error_pos (GroupByMismatch _ _) = None"
| "error_pos GroupByWithoutAggregate = None"
| "error_pos GroupByNotProjected = None"
| "error_pos (ParenthesesUnsupported p) = Some p"
| "error_pos (ExpectedWhereColumn p _) = Some p"
| "error_pos (MissingOperatorBefore p _) = Some p"
| "error_pos (ExpectedOperator p _) = Some p"
| "error_pos (UnknownOperator p _) = Some p"
| "error_pos (BadInteger p _ _) = Some p"
| "error_pos (BadFloat p _ _) = Some p"
| "error_pos (ExpectedLiteral p _) = Some p"
| "error_pos (ExpectedToken p _ _) = Some p"
| "error_pos (BadGroupProjection p) = Some p"
| "error_pos (MixedStar p) = Some p"
| "error_pos (ExpectedColumn p _) = Some p"
| "error_pos (ExpectedProjection p _) = Some p"

section \<open>Parsing steps stay inside the token list\<close>

text \<open>
  \<open>parses ts P r\<close>: the step \<open>r\<close> that started on \<open>ts\<close> does not panic, leaves a non-empty suffix of
  \<open>ts\<close> and a value with \<open>P\<close>, or complains about a token of \<open>ts\<close>.
\<close>

definition parses :: "token list \<Rightarrow> ('a \<Rightarrow> bool) \<Rightarrow> 'a parse \<Rightarrow> bool" where
  "parses ts P r =
     (case r of
        Ok (x, ts') \<Rightarrow> ts' \<noteq> [] \<and> suffix ts' ts \<and> P x
      | Err e \<Rightarrow> (case error_pos e of None \<Rightarrow> True | Some p \<Rightarrow> p \<in> tok_pos ` set ts)
      | Panic _ \<Rightarrow> False)"

lemma parses_Ok [simp]: "parses ts P (Ok (x, ts')) \<longleftrightarrow> ts' \<noteq> [] \<and> suffix ts' ts \<and> P x"
  by (simp add: parses_def)

lemma parses_Err [simp]:
  "parses ts P (Err e) \<longleftrightarrow> (\<forall>p. error_pos e = Some p \<longrightarrow> p \<in> tok_pos ` set ts)"
  by (simp add: parses_def split: option.split)

lemma parses_weaken:
  "parses us P r \<Longrightarrow> suffix us ts \<Longrightarrow> (\<And>x. P x \<Longrightarrow> Q x) \<Longrightarrow> parses ts Q r"
  by (auto simp: parses_def dest: set_mono_suffix split: outcome.splits option.splits)

lemma parses_bind:
  assumes "parses ts P m"
    and "\<And>x us. m = Ok (x, us) \<Longrightarrow> us \<noteq> [] \<Longrightarrow> suffix us ts \<Longrightarrow> P x \<Longrightarrow> parses ts Q (k x us)"
  shows "parses ts Q (bind_ok m (\<lambda>(x, us). k x us))"
  using assms by (cases m) (auto simp: parses_def)

lemma parses_bind_value:
  assumes "\<And>p. m \<noteq> Panic p" "\<And>e. m = Err e \<Longrightarrow> error_pos e = None \<or> the (error_pos e) \<in> tok_pos ` set ts"
    and "\<And>x. m = Ok x \<Longrightarrow> parses ts Q (k x)"
  shows "parses ts Q (bind_ok m k)"
  using assms by (cases m) (fastforce simp: parses_def split: option.split)+

lemma peek_Cons [simp]: "peek (t # ts) = Ok t"
  by (simp add: peek_def)

lemma parses_if:
  "(b \<Longrightarrow> parses ts P x) \<Longrightarrow> (\<not> b \<Longrightarrow> parses ts P y) \<Longrightarrow> parses ts P (if b then x else y)"
  by simp

lemma parses_option:
  "(m = None \<Longrightarrow> parses ts P x) \<Longrightarrow> (\<And>v. m = Some v \<Longrightarrow> parses ts P (f v)) \<Longrightarrow>
   parses ts P (case m of None \<Rightarrow> x | Some v \<Rightarrow> f v)"
  by (cases m) auto

lemma suffix_hd: "ts \<noteq> [] \<Longrightarrow> suffix ts us \<Longrightarrow> hd ts \<in> set us"
  using set_mono_suffix [of ts us] by (cases ts) auto

lemma peek_Ok: "ts \<noteq> [] \<Longrightarrow> peek ts = Ok (hd ts)"
  by (cases ts) auto

lemma parses_peek:
  assumes "us \<noteq> []" "suffix us ts" "\<And>t. t \<in> set ts \<Longrightarrow> peek us = Ok t \<Longrightarrow> parses ts Q (k t)"
  shows "parses ts Q (bind_ok (peek us) k)"
  using assms suffix_hd [of us ts] by (simp add: peek_Ok)

lemma advance_parses:
  "us \<noteq> [] \<Longrightarrow> suffix us ts \<Longrightarrow> parses ts (\<lambda>t. t \<in> set ts \<and> hd us = t) (advance us)"
  by (auto simp: advance_def suffix_Cons dest: suffix_ConsD set_mono_suffix split: list.splits)

text \<open>An \<open>advance\<close> in front of a continuation.\<close>

lemma parses_advance:
  assumes "us \<noteq> []" "suffix us ts"
    and "\<And>t vs. advance us = Ok (t, vs) \<Longrightarrow> t \<in> set ts \<Longrightarrow> hd us = t \<Longrightarrow> vs \<noteq> [] \<Longrightarrow> suffix vs ts \<Longrightarrow> parses ts Q (k t vs)"
  shows "parses ts Q (bind_ok (advance us) (\<lambda>(t, vs). k t vs))"
  using assms(3) by (intro parses_bind [OF advance_parses [OF assms(1,2)]]) auto

lemma expectKind_parses:
  "us \<noteq> [] \<Longrightarrow> suffix us ts \<Longrightarrow> parses ts (\<lambda>_. True) (expectKind k d us)"
  unfolding expectKind_def by (rule parses_advance) auto

lemma parses_expect:
  assumes "us \<noteq> []" "suffix us ts"
    and "\<And>u vs. vs \<noteq> [] \<Longrightarrow> suffix vs ts \<Longrightarrow> parses ts Q (k u vs)"
  shows "parses ts Q (bind_ok (expectKind kd d us) (\<lambda>(u, vs). k u vs))"
  using assms(3) by (intro parses_bind [OF expectKind_parses [OF assms(1,2)]]) auto

lemma parse_uint_loop_no_panic: "parse_uint_loop n s \<noteq> Panic p"
  by (induction s arbitrary: n) auto

lemma parse_int_no_panic [simp]: "parse_int s \<noteq> Panic p"
  by (auto simp: parse_int_def parse_uint_def bind_ok_Panic_iff parse_uint_loop_no_panic Let_def
      split: list.split if_splits)

lemma no_panic_if: "x \<noteq> Panic p \<Longrightarrow> y \<noteq> Panic p \<Longrightarrow> (if b then x else y) \<noteq> Panic p"
  by simp

lemma no_panic_let: "(\<And>x. f x \<noteq> Panic p) \<Longrightarrow> Let v f \<noteq> Panic p"
  by simp

lemma no_panic_prod: "(\<And>a b. f a b \<noteq> Panic p) \<Longrightarrow> case_prod f x \<noteq> Panic p"
  by (cases x) simp

lemma finish_float_no_panic: "finish_float neg b \<noteq> Panic p"
  by (simp add: finish_float_def)

lemma parse_float_no_panic [simp]: "parse_float s \<noteq> Panic p"
  unfolding parse_float_def
  by (cases "parse_special s"; simp only: option.case outcome.distinct not_False_eq_True simp_thms)
    (intro no_panic_let no_panic_prod no_panic_if finish_float_no_panic; simp only: outcome.distinct not_False_eq_True)

lemma literalValue_no_panic: "literalValue t \<noteq> Panic p"
  by (auto simp: literalValue_def bind_ok_Panic_iff split: tok_kind.splits)

lemma literalValue_Err: "literalValue t = Err e \<Longrightarrow> error_pos e = Some (tok_pos t)"
  by (auto simp: literalValue_def bind_ok_Err_iff map_err_Err_iff split: tok_kind.splits)

section \<open>The steps of the parser\<close>

text \<open>A literal the parser accepts has one of the three dynamic types.\<close>

fun is_literal :: "go_value \<Rightarrow> bool" where
  "is_literal (VInt64 _) = True"
| "is_literal (VFloat64 _) = True"
| "is_literal (VString _) = True"
| "is_literal _ = False"

fun named_op :: "filter_op \<Rightarrow> bool" where
  "named_op (OtherOp _) = False"
| "named_op _ = True"

definition wf_comparison :: "comparison \<Rightarrow> bool" where
  "wf_comparison c \<longleftrightarrow> named_op (cmp_Op c) \<and> is_literal (cmp_Value c)"

lemma literalValue_is_literal: "literalValue t = Ok v \<Longrightarrow> is_literal v"
  by (auto simp: literalValue_def split: tok_kind.splits)

lemma parseOp_named: "parseOp s = Some op \<Longrightarrow> named_op op"
  by (auto simp: parseOp_def split: if_splits)

lemma parseComparison_parses:
  assumes "us \<noteq> []" "suffix us ts"
  shows "parses ts wf_comparison (parseComparison us)"
  unfolding parseComparison_def
  by (intro parses_advance [OF assms] parses_if parses_option parses_advance parses_bind_value)
    (auto simp: literalValue_no_panic wf_comparison_def literalValue_is_literal parseOp_named
      dest: literalValue_Err)

lemma case_outcome_bind:
  "(case m of Ok x \<Rightarrow> f x | Err e \<Rightarrow> Err e | Panic p \<Rightarrow> Panic p) = bind_ok m f"
  by (cases m) auto

lemmas parse_conditions_unfold = parse_conditions.simps [unfolded case_outcome_bind]
  and parse_columns_loop_unfold = parse_columns_loop.simps [unfolded case_outcome_bind]

lemma parse_conditions_parses:
  assumes "us \<noteq> []" "suffix us ts" "list_all wf_comparison comps" "length comps = Suc (length ops)"
  shows "parses ts (\<lambda>(cs, os). list_all wf_comparison cs \<and> length cs = Suc (length os))
    (parse_conditions comps ops us)"
  using assms
proof (induction comps ops us rule: parse_conditions.induct)
  case (1 comps ops us)
  show ?case
    by (subst parse_conditions_unfold)
      (intro parses_peek parses_if parses_advance parses_bind [OF parseComparison_parses] 1;
       use 1(2-) in \<open>simp add: 1\<close>)
qed

section \<open>The shape of a WHERE tree\<close>

definition is_leaf :: "filter_expr \<Rightarrow> bool" where
  "is_leaf e \<longleftrightarrow>
     (case e of FilterExpr (Some c) None None \<Rightarrow> wf_comparison c | _ \<Rightarrow> False)"

text \<open>A leaf, or an And node of at least two leaves.\<close>

definition is_conjunction :: "filter_expr \<Rightarrow> bool" where
  "is_conjunction e \<longleftrightarrow>
     is_leaf e \<or>
     (case e of FilterExpr None (Some es) None \<Rightarrow> 2 \<le> length es \<and> list_all is_leaf es | _ \<Rightarrow> False)"

text \<open>The documented invariant: exactly one field is set, And and Or have at least two children.\<close>

definition wf_where :: "filter_expr \<Rightarrow> bool" where
  "wf_where e \<longleftrightarrow>
     is_conjunction e \<or>
     (case e of FilterExpr None None (Some es) \<Rightarrow> 2 \<le> length es \<and> list_all is_conjunction es | _ \<Rightarrow> False)"

definition good_group :: "comparison list \<Rightarrow> bool" where
  "good_group g \<longleftrightarrow> g \<noteq> [] \<and> list_all wf_comparison g"

lemma group_conditions_good:
  assumes "list_all good_group gs" "good_group cur" "list_all wf_comparison (map snd rest)"
  shows "group_conditions gs cur rest \<noteq> [] \<and> list_all good_group (group_conditions gs cur rest)"
  using assms by (induction gs cur rest rule: group_conditions.induct) (auto simp: good_group_def)

lemma lower_group_conjunction: "good_group g \<Longrightarrow> is_conjunction (lower_group g)"
  by (cases g)
    (auto simp: good_group_def lower_group_def is_conjunction_def is_leaf_def leaf_def list_all_iff
      Suc_le_eq)

lemma lower_groups_wf:
  assumes "gs \<noteq> []" "list_all good_group gs"
  shows "wf_where (lower_groups gs)"
proof (cases "length gs = 1")
  case True
  then obtain g where "gs = [g]" by (auto simp: length_Suc_conv)
  with assms show ?thesis
    by (simp add: lower_groups_def wf_where_def lower_group_conjunction)
next
  case False
  with assms have "2 \<le> length gs" by (cases gs) (auto simp: Suc_le_eq)
  with False assms show ?thesis
    by (auto simp: lower_groups_def wf_where_def list_all_iff lower_group_conjunction)
qed

lemma parseWhere_parses:
  assumes "us \<noteq> []" "suffix us ts"
  shows "parses ts wf_where (parseWhere us)"
  unfolding parseWhere_def
proof (rule parses_bind [OF parseComparison_parses [OF assms]], rule parses_bind [OF parse_conditions_parses])
  fix first vs and cs :: "comparison list \<times> string list" and ws
  assume "ws \<noteq> []" "suffix ws ts"
    and "case cs of (cs, os) \<Rightarrow> list_all wf_comparison cs \<and> length cs = Suc (length os)"
  moreover from this obtain c rest ops where "cs = (c # rest, ops)" "list_all wf_comparison (c # rest)"
      "length rest = length ops"
    by (cases cs) (auto simp: length_Suc_conv)
  moreover from this have "wf_where (lower_groups (group_conditions [] [c] (zip ops rest)))"
    using group_conditions_good [of "[]" "[c]" "zip ops rest"]
    by (intro lower_groups_wf) (auto simp: good_group_def)
  ultimately show "parses ts wf_where
      ((case cs of (comps, ops) \<Rightarrow> \<lambda>ts.
        Ok (lower_groups (group_conditions [] [hd comps] (zip ops (tl comps))), ts)) ws)"
    by simp
qed auto

section \<open>Grouped queries\<close>

text \<open>After the projection: the columns of a grouped projection are the single group column.\<close>

definition projected :: "query \<Rightarrow> bool" where
  "projected q \<longleftrightarrow>
     (\<forall>i. q_Projection q \<noteq> OtherProjection i) \<and> (\<forall>i. q_GroupAgg q \<noteq> OtherAggregate i) \<and>
     q_GroupBy q = [] \<and> q_Where q = None \<and>
     (q_Projection q = ProjGrouped \<longrightarrow> length (q_Columns q) = 1) \<and>
     (q_Projection q = ProjColumns \<longrightarrow> q_Columns q \<noteq> []) \<and>
     (q_Projection q = ProjStar \<longrightarrow> q_Columns q = [])"

definition column_list :: "query \<Rightarrow> bool" where
  "column_list q \<longleftrightarrow> projected q \<and> q_Projection q = ProjColumns"

lemma parseGroupedAggregate_parses:
  assumes "us \<noteq> []" "suffix us ts" "column_list q" "length (q_Columns q) = 1"
  shows "parses ts projected (parseGroupedAggregate q us)"
proof -
  have pre: "parses ts (\<lambda>q. column_list q \<and> length (q_Columns q) = 1)
      (if tok_text agg = ''COUNT'' then
          bind_ok (advance vs) (\<lambda>(next, ts).
            if tok_kind next \<noteq> TkStar then Err (ExpectedStarInCount (tok_pos next) (displayToken next))
            else Ok (q\<lparr>q_GroupAgg := AggCountStar\<rparr>, ts))
        else if tok_text agg = ''SUM'' then
          bind_ok (advance vs) (\<lambda>(next, ts).
            if tok_kind next \<noteq> TkIdent then Err (ExpectedColumnInSum (tok_pos next) (displayToken next))
            else Ok (q\<lparr>q_GroupAgg := AggSumColumn, q_SumColumn := tok_text next\<rparr>, ts))
        else Ok (q, vs))"
    if "vs \<noteq> []" "suffix vs ts" for agg vs
    using that assms(3,4)
    by (intro parses_if parses_advance) (auto simp: column_list_def projected_def)
  show ?thesis
    unfolding parseGroupedAggregate_def
    by (intro parses_advance [OF assms(1,2)] parses_expect parses_bind [OF pre])
      (auto simp: column_list_def projected_def)
qed

lemma parse_columns_loop_parses:
  assumes "us \<noteq> []" "suffix us ts" "column_list q"
  shows "parses ts projected (parse_columns_loop q us)"
  using assms
proof (induction q us rule: parse_columns_loop.induct)
  case (1 q us)
  show ?case
    by (subst parse_columns_loop_unfold)
      (intro parses_peek parses_if parses_advance parses_bind [OF parseGroupedAggregate_parses] 1;
       use 1(2-) in \<open>simp add: 1 column_list_def projected_def\<close>)
qed

lemma parseProjection_parses:
  assumes "us \<noteq> []" "suffix us ts"
  shows "parses ts projected (parseProjection empty_query us)"
  unfolding parseProjection_def
  by (intro parses_peek [OF assms] parses_if parses_advance [OF assms] parses_expect parses_advance
      parse_columns_loop_parses)
    (auto simp: projected_def column_list_def empty_query_def)

text \<open>The contract of a parsed query.\<close>

definition wf_query :: "query \<Rightarrow> bool" where
  "wf_query q \<longleftrightarrow>
     (\<forall>i. q_Projection q \<noteq> OtherProjection i) \<and> (\<forall>i. q_GroupAgg q \<noteq> OtherAggregate i) \<and>
     (q_Projection q = ProjGrouped \<longrightarrow> q_GroupBy q \<noteq> [] \<and> q_Columns q = [q_GroupBy q]) \<and>
     (q_Projection q \<noteq> ProjGrouped \<longrightarrow> q_GroupBy q = []) \<and>
     (q_Projection q = ProjColumns \<longrightarrow> q_Columns q \<noteq> []) \<and>
     (q_Projection q = ProjStar \<longrightarrow> q_Columns q = []) \<and>
     (\<forall>e. q_Where q = Some e \<longrightarrow> wf_where e)"

text \<open>Before the cross-clause check the WHERE tree and the group column are set as well.\<close>

definition clauses :: "query \<Rightarrow> bool" where
  "clauses q \<longleftrightarrow>
     (\<forall>e. q_Where q = Some e \<longrightarrow> wf_where e) \<and>
     projected (q\<lparr>q_GroupBy := [], q_Where := None\<rparr>)"

lemma parseGroupBy_parses:
  assumes "us \<noteq> []" "suffix us ts" "clauses q"
  shows "parses ts clauses (parseGroupBy q us)"
  unfolding parseGroupBy_def
  using assms(3)
  by (intro parses_advance [OF assms(1,2)] parses_if parses_advance parses_peek)
    (auto simp: clauses_def)

lemma validateGrouped_no_panic: "clauses q \<Longrightarrow> validateGrouped q \<noteq> Panic p"
  by (auto simp: validateGrouped_def clauses_def projected_def bind_ok_Panic_iff)

lemma validateGrouped_Err: "validateGrouped q = Err e \<Longrightarrow> error_pos e = None"
  by (auto simp: validateGrouped_def bind_ok_Err_iff fetch_def split: if_splits)

lemma validateGrouped_Ok: "clauses q \<Longrightarrow> validateGrouped q = Ok u \<Longrightarrow> wf_query q"
  by (cases "q_Projection q")
    (auto simp: validateGrouped_def clauses_def projected_def wf_query_def length_Suc_conv
      split: if_splits)

lemma parseQuery_parses:
  assumes "ts \<noteq> []"
  shows "parses ts wf_query (parseQuery ts)"
proof -
  have where_step: "parses ts clauses
       (if is_keyword t ''WHERE'' then
          bind_ok (advance us) (\<lambda>(_, ts). bind_ok (parseWhere ts) (\<lambda>(e, ts). Ok (q\<lparr>q_Where := Some e\<rparr>, ts)))
        else Ok (q, us))"
    if "us \<noteq> []" "suffix us ts" "projected q" for t q us
    using that
    by (intro parses_if parses_advance parses_bind [OF parseWhere_parses])
      (auto simp: clauses_def projected_def)
  have group_step: "parses ts clauses (if is_keyword t ''GROUP'' then parseGroupBy q us else Ok (q, us))"
    if "us \<noteq> []" "suffix us ts" "clauses q" for t q us
    using that by (intro parses_if parseGroupBy_parses) auto
  show ?thesis
    unfolding parseQuery_def
    by (intro parses_advance [OF assms suffix_order.refl] parses_if parses_bind [OF parseProjection_parses]
        parses_peek parses_bind [OF where_step] parses_bind [OF group_step] parses_bind_value)
      (auto simp: validateGrouped_no_panic validateGrouped_Ok dest: validateGrouped_Err)
qed

section \<open>The tokenizer\<close>

text \<open>
  The tokens of \<open>s\<close>, which starts at byte \<open>i\<close>: their positions increase, the last token and no
  other is the end of input, at the length of the input.
\<close>

definition token_stream :: "nat \<Rightarrow> nat \<Rightarrow> token list \<Rightarrow> bool" where
  "token_stream i n ts \<longleftrightarrow>
     sorted_wrt (<) (map tok_pos ts) \<and> (\<forall>t \<in> set ts. i \<le> tok_pos t \<and> tok_pos t \<le> n) \<and>
     (\<exists>us. ts = us @ [tok TkEOF [] n] \<and> (\<forall>u \<in> set us. tok_kind u \<noteq> TkEOF))"

lemma token_stream_Cons:
  "token_stream j n ts \<Longrightarrow> tok_pos t < j \<Longrightarrow> tok_pos t \<le> n \<Longrightarrow> tok_kind t \<noteq> TkEOF \<Longrightarrow>
   token_stream (tok_pos t) n (t # ts)"
  unfolding token_stream_def by (auto intro!: exI [of _ "t # us" for us] simp: less_le_trans)

lemma token_stream_weaken: "token_stream j n ts \<Longrightarrow> i \<le> j \<Longrightarrow> token_stream i n ts"
  unfolding token_stream_def by auto

definition lexes :: "nat \<Rightarrow> nat \<Rightarrow> (parse_error, token list) outcome \<Rightarrow> bool" where
  "lexes i n r =
     (case r of
        Ok ts \<Rightarrow> token_stream i n ts
      | Err e \<Rightarrow> (case error_pos e of None \<Rightarrow> False | Some p \<Rightarrow> i \<le> p \<and> p < n)
      | Panic _ \<Rightarrow> False)"

lemma lexes_prepend:
  assumes "lexes j n r" "i < j" "i \<le> n" "tok_pos t = i" "tok_kind t \<noteq> TkEOF"
  shows "lexes i n (prepend t r)"
  using assms token_stream_Cons
  by (cases r) (auto simp: lexes_def prepend_def split: option.splits)

lemma lexes_weaken: "lexes j n r \<Longrightarrow> i \<le> j \<Longrightarrow> lexes i n r"
  by (auto simp: lexes_def dest: token_stream_weaken split: outcome.splits option.splits)

lemma lexes_if: "(b \<Longrightarrow> lexes i n x) \<Longrightarrow> (\<not> b \<Longrightarrow> lexes i n y) \<Longrightarrow> lexes i n (if b then x else y)"
  by simp

lemma lexes_let: "lexes i n (f v) \<Longrightarrow> lexes i n (Let v f)"
  by simp

lemma lex_at_lexes: "lexes i (i + length s) (lex_at i s)"
proof (induction "length s" arbitrary: i s rule: less_induct)
  case less
  have rec: "lexes i (i + length s) (lex_at j r)"
    if "length r < length s" "j + length r = i + length s" for j r
    using less [OF that(1), of j] that by (auto intro: lexes_weaken)
  have tok: "lexes i (i + length s) (prepend t (lex_at j r))"
    if "length r < length s" "j + length r = i + length s" "tok_pos t = i" "tok_kind t \<noteq> TkEOF" for j r t
    using less [OF that(1), of j] that by (intro lexes_prepend [of j]) auto
  show ?case
  proof (cases s)
    case Nil
    then show ?thesis
      by (subst lex_at.simps) (simp add: lexes_def token_stream_def)
  next
    case (Cons c cs)
    have num: "length (snd (snd (lex_number s))) < length s"
      if "isDigit c \<or> (c = CHR ''-'' \<and> cs \<noteq> [] \<and> isDigit (hd cs))"
      using that Cons by (intro lex_number_shorter [of s "fst (lex_number s)" "fst (snd (lex_number s))"]) auto
    have idn: "length (dropWhile isIdentPart s) < length s" if "isIdentStart c"
      using that Cons by (intro ident_shorter) auto
    have twd: "length (takeWhile isIdentPart s) + length (dropWhile isIdentPart s) = length s"
      by (metis length_append takeWhile_dropWhile_id)
    have tw: "length (takeWhile P cs) \<le> length cs" for P
      by (rule length_takeWhile_le)
    have ne: "s \<noteq> []" "hd s = c" "tl s = cs" and len: "length s = Suc (length cs)"
      using Cons by auto
    show ?thesis
      by (subst lex_at.simps, simp only: ne if_False Let_def case_prod_beta not_False_eq_True,
          intro lexes_if rec tok)
        (use num idn twd tw [of "\<lambda>d. d \<noteq> CHR 0x27"] in \<open>simp_all add: len lexes_def\<close>)
  qed
qed

section \<open>The meaning of a WHERE tree\<close>

text \<open>The truth value of a tree when \<open>v\<close> gives the truth value of each comparison.\<close>

fun sat :: "(comparison \<Rightarrow> bool) \<Rightarrow> filter_expr \<Rightarrow> bool" where
  "sat v (FilterExpr (Some c) _ _) = v c"
| "sat v (FilterExpr None (Some es) _) = (\<forall>e \<in> set es. sat v e)"
| "sat v (FilterExpr None None (Some es)) = (\<exists>e \<in> set es. sat v e)"
| "sat v (FilterExpr None None None) = False"

text \<open>
  The reference semantics of a condition list, read from left to right: \<open>acc\<close> is the value of the
  AND group read so far, an OR closes the group.
\<close>

fun conditions_value :: "('c \<Rightarrow> bool) \<Rightarrow> bool \<Rightarrow> (string \<times> 'c) list \<Rightarrow> bool" where
  "conditions_value v acc [] = acc"
| "conditions_value v acc ((op, c) # rest) =
     (if op = ''AND'' then conditions_value v (acc \<and> v c) rest
      else acc \<or> conditions_value v (v c) rest)"

lemma sat_leaf [simp]: "sat v (leaf c) = v c"
  by (simp add: leaf_def)

lemma sat_lower_group: "g \<noteq> [] \<Longrightarrow> sat v (lower_group g) \<longleftrightarrow> (\<forall>c \<in> set g. v c)"
  by (auto simp: lower_group_def length_Suc_conv)

lemma sat_lower_groups:
  assumes "gs \<noteq> []" "\<forall>g \<in> set gs. g \<noteq> []"
  shows "sat v (lower_groups gs) \<longleftrightarrow> (\<exists>g \<in> set gs. \<forall>c \<in> set g. v c)"
proof (cases "length gs = 1")
  case True
  then obtain g where "gs = [g]" by (auto simp: length_Suc_conv)
  with assms show ?thesis by (simp add: lower_groups_def sat_lower_group)
next
  case False
  with assms show ?thesis by (auto simp: lower_groups_def sat_lower_group)
qed

lemma group_conditions_value:
  "(\<exists>g \<in> set (group_conditions gs cur rest). \<forall>c \<in> set g. v c) \<longleftrightarrow>
   (\<exists>g \<in> set gs. \<forall>c \<in> set g. v c) \<or> conditions_value v (\<forall>c \<in> set cur. v c) rest"
  by (induction gs cur rest rule: group_conditions.induct) (auto simp: conj_commute)

lemma group_conditions_nonempty:
  "\<forall>g \<in> set gs. g \<noteq> [] \<Longrightarrow> cur \<noteq> [] \<Longrightarrow>
   group_conditions gs cur rest \<noteq> [] \<and> (\<forall>g \<in> set (group_conditions gs cur rest). g \<noteq> [])"
  by (induction gs cur rest rule: group_conditions.induct) auto

lemma sat_conditions:
  "sat v (lower_groups (group_conditions [] [c] conds)) \<longleftrightarrow> conditions_value v (v c) conds"
  using group_conditions_nonempty [of "[]" "[c]" conds] group_conditions_value [of "[]" "[c]" conds v]
  by (simp add: sat_lower_groups)

section \<open>Parse\<close>

text \<open>The equations that evaluate the tokenizer and the parser on a given text.\<close>

lemmas lex_eval =
  lex_def lex_at.simps isSpace_def isDigit_def is_digit_char_def isIdentStart_def isIdentPart_def
  keyword_set_def prepend_def to_upper_def lex_number_def Let_def char_of_def bit_iff_odd

lemmas parse_eval =
  Parse_def parseQuery_def parseProjection_def parseWhere_def parseComparison_def
  parse_conditions.simps parse_columns_loop.simps peek_def advance_def is_keyword_def
  literalValue_def parseOp_def parse_int_def parse_uint_def digit_val_def is_digit_char_def
  lower_groups_def lower_group_def leaf_def validateGrouped_def empty_query_def parseGroupBy_def
  parseGroupedAggregate_def expectKind_def

lemma lex_nonempty: "lex input = Ok ts \<Longrightarrow> ts \<noteq> [] \<and> token_stream 0 (length input) ts"
  using lex_at_lexes [of 0 input] by (auto simp: lex_def lexes_def token_stream_def)

lemma lex_total: "lex input \<noteq> Panic p"
  using lex_at_lexes [of 0 input] by (auto simp: lex_def lexes_def)

lemma lex_Err: "lex input = Err e \<Longrightarrow> \<exists>p < length input. error_pos e = Some p"
  using lex_at_lexes [of 0 input] by (auto simp: lex_def lexes_def split: option.splits)

lemma Parse_outcome:
  "case Parse input of
     Ok q \<Rightarrow> wf_query q
   | Err e \<Rightarrow> (case error_pos e of None \<Rightarrow> True | Some p \<Rightarrow> p \<le> length input)
   | Panic _ \<Rightarrow> False"
proof (cases "lex input")
  case (Ok ts)
  have "parses ts wf_query (parseQuery ts)" "\<forall>t \<in> set ts. tok_pos t \<le> length input"
    using lex_nonempty [OF Ok] parseQuery_parses [of ts] by (auto simp: token_stream_def)
  then show ?thesis
    by (cases "parseQuery ts")
      (auto simp: Parse_def Ok parses_def peek_Ok dest: suffix_hd split: option.splits)
next
  case (Err e)
  with lex_Err [OF Err] show ?thesis by (auto simp: Parse_def)
qed (simp add: lex_total)

lemma Parse_wf_query: "Parse input = Ok q \<Longrightarrow> wf_query q"
  using Parse_outcome [of input] by simp

text \<open>
  C14: \<open>Parse\<close> is total and safe on every input: no index panic in the tokenizer or the parser, an
  accepted query satisfies the invariants the executor relies on (exactly one branch of every WHERE
  node is set, And and Or have at least two children, a grouped query projects exactly its group
  column, every other query has none), and every error that names a position points into the input
  or at its end.
\<close>

theorem Parse_safe:
  "case Parse input of
     Ok q \<Rightarrow> wf_query q
   | Err e \<Rightarrow> (case error_pos e of None \<Rightarrow> True | Some p \<Rightarrow> p \<le> length input)
   | Panic _ \<Rightarrow> False"
  by (rule Parse_outcome)

end
