(* ===== verification/ExecFacts.thy ===== *)
theory ExecFacts
  imports Exec ParserFacts
begin

text \<open>
  The executor computes the query over the rows of the segment. A segment presents a list of rows
  when each of its columns decodes to one cell of every row; the reference semantics of WHERE, of the
  projections and of the aggregates is stated over that list.
\<close>

section \<open>A segment as a list of rows\<close>

fun column_cells :: "column_data \<Rightarrow> go_value list" where
  "column_cells (Int64s xs) = map VInt64 xs"
| "column_cells (Float64s xs) = map VFloat64 xs"
| "column_cells (Strings xs) = map VString xs"

lemma length_column_cells [simp]: "length (column_cells d) = column_length d"
  by (cases d) auto

definition presents :: "segment \<Rightarrow> row list \<Rightarrow> bool" where
  "presents s rs \<longleftrightarrow>
     coherent s \<and> int_of_uint64 (seg_rowCount s) = int (length rs) \<and> 24 * int (length rs) \<le> max_alloc \<and>
     (\<forall>n idx. ColumnIndex (seg_schema s) n = Some idx \<longrightarrow>
        (\<exists>d. decode_column s n = Ok d \<and> column_cells d = map (\<lambda>r. r ! idx) rs \<and>
           column_data_type d = col_type (schema_columns (seg_schema s) ! idx)))"

text \<open>
  \<open>answers sc rs m r\<close>: the step \<open>m\<close> has the outcome \<open>r\<close> and leaves a segment that still presents the
  rows under the schema.
\<close>

definition answers :: "schema \<Rightarrow> row list \<Rightarrow> 'a step \<Rightarrow> (query_error, 'a) outcome \<Rightarrow> bool" where
  "answers sc rs m r \<longleftrightarrow> snd m = r \<and> presents (fst m) rs \<and> seg_schema (fst m) = sc"

lemma answers_pure: "presents s rs \<Longrightarrow> seg_schema s = sc \<Longrightarrow> answers sc rs (s, r) r"
  by (simp add: answers_def)

lemma answers_and_then:
  assumes "answers sc rs m r"
    and "\<And>x s. r = Ok x \<Longrightarrow> presents s rs \<Longrightarrow> seg_schema s = sc \<Longrightarrow> answers sc rs (k x s) (f x)"
  shows "answers sc rs (and_then m k) (bind_ok r f)"
  using assms by (cases m; cases r) (auto simp: answers_def and_then_def)

lemma answers_read:
  assumes "presents s rs" "seg_schema s = sc" "ColumnIndex sc n = Some idx"
  shows "\<exists>d. answers sc rs (read_column_for u n s) (Ok d) \<and> column_cells d = map (\<lambda>r. r ! idx) rs \<and>
    column_data_type d = col_type (schema_columns sc ! idx)"
proof -
  obtain s' r where r: "ReadColumn s n = (s', r)" by (cases "ReadColumn s n")
  have co: "coherent s" using assms(1) by (simp add: presents_def)
  note facts = ReadColumn_coherent [OF co r]
  have "presents s' rs" using assms(1) facts by (simp add: presents_def)
  then show ?thesis
    using assms facts r by (auto simp: presents_def answers_def read_column_for_def)
qed

section \<open>WHERE\<close>

fun cell_compare :: "go_value \<Rightarrow> filter_op \<Rightarrow> go_value \<Rightarrow> bool" where
  "cell_compare (VInt64 v) p (VInt64 w) = compareInt64 v p w"
| "cell_compare (VFloat64 v) p (VFloat64 w) = compareFloat64 v p w"
| "cell_compare (VString v) p (VString w) = compareString v p w"
| "cell_compare _ _ _ = False"

text \<open>The cell of a row under a column name.\<close>

definition cell :: "schema \<Rightarrow> string \<Rightarrow> row \<Rightarrow> go_value" where
  "cell sc n r = r ! the (ColumnIndex sc n)"

definition comparison_holds :: "schema \<Rightarrow> row \<Rightarrow> comparison \<Rightarrow> bool" where
  "comparison_holds sc r c = cell_compare (cell sc (cmp_Column c) r) (cmp_Op c) (cmp_Value c)"

definition where_holds :: "schema \<Rightarrow> filter_expr \<Rightarrow> row \<Rightarrow> bool" where
  "where_holds sc e r = sat (comparison_holds sc r) e"

text \<open>The static checks of a comparison, and of the comparisons of a tree from left to right.\<close>

definition check_comparison :: "schema \<Rightarrow> comparison \<Rightarrow> (query_error, unit) outcome" where
  "check_comparison sc c =
     (case ColumnIndex sc (cmp_Column c) of
        None \<Rightarrow> Err (QUnknownColumn (cmp_Column c) InWhere)
      | Some idx \<Rightarrow> checkLiteralType c (col_type (schema_columns sc ! idx)))"

fun check_comparisons :: "schema \<Rightarrow> comparison list \<Rightarrow> (query_error, unit) outcome" where
  "check_comparisons sc [] = Ok ()"
| "check_comparisons sc (c # cs) = bind_ok (check_comparison sc c) (\<lambda>_. check_comparisons sc cs)"

fun leaves :: "filter_expr \<Rightarrow> comparison list" where
  "leaves (FilterExpr (Some c) _ _) = [c]"
| "leaves (FilterExpr None (Some es) _) = concat (map leaves es)"
| "leaves (FilterExpr None None (Some es)) = concat (map leaves es)"
| "leaves (FilterExpr None None None) = []"

text \<open>A tree the executor can walk: a branch is set and And and Or have children.\<close>

fun walkable :: "filter_expr \<Rightarrow> bool" where
  "walkable (FilterExpr (Some c) _ _) = True"
| "walkable (FilterExpr None (Some es) _) = (es \<noteq> [] \<and> (\<forall>e \<in> set es. walkable e))"
| "walkable (FilterExpr None None (Some es)) = (es \<noteq> [] \<and> (\<forall>e \<in> set es. walkable e))"
| "walkable (FilterExpr None None None) = False"

lemma check_comparisons_append:
  "check_comparisons sc (cs @ ds) = bind_ok (check_comparisons sc cs) (\<lambda>_. check_comparisons sc ds)"
  by (induction cs) (auto simp: bind_ok_assoc)

lemma is_leaf_walkable: "is_leaf e \<Longrightarrow> walkable e"
  by (cases e rule: walkable.cases) (auto simp: is_leaf_def)

lemma is_conjunction_walkable: "is_conjunction e \<Longrightarrow> walkable e"
  by (cases e rule: walkable.cases)
    (auto simp: is_conjunction_def is_leaf_def list_all_iff is_leaf_walkable split: option.splits)

lemma wf_where_walkable: "wf_where e \<Longrightarrow> walkable e"
  by (cases e rule: walkable.cases)
    (auto simp: wf_where_def is_conjunction_def is_leaf_def list_all_iff is_leaf_walkable
      is_conjunction_walkable split: option.splits)

lemma scan_cells:
  assumes "column_cells d = map g rs" "column_data_type d = t" "has_type (cmp_Value c) t"
  shows "applyComparison d t c = Ok (map (\<lambda>r. cell_compare (g r) (cmp_Op c) (cmp_Value c)) rs)"
proof -
  have "map (\<lambda>v. cell_compare v (cmp_Op c) (cmp_Value c)) (column_cells d) =
      map (\<lambda>r. cell_compare (g r) (cmp_Op c) (cmp_Value c)) rs"
    by (simp add: assms(1) comp_def)
  then show ?thesis
    using assms(2,3)
    by (cases d) (auto simp: applyComparison_def scanInt64_def scanFloat64_def scanString_def comp_def)
qed

lemma checkLiteralType_Ok: "checkLiteralType c t = Ok u \<Longrightarrow> has_type (cmp_Value c) t"
  by (auto simp: checkLiteralType_def split: column_type.splits if_splits)

lemma answers_evalComparison:
  assumes "presents s rs" "seg_schema s = sc"
  shows "answers sc rs (evalComparison sc c s)
    (bind_ok (check_comparison sc c) (\<lambda>_. Ok (map (\<lambda>r. comparison_holds sc r c) rs)))"
proof (cases "ColumnIndex sc (cmp_Column c)")
  case None
  then show ?thesis
    using assms by (simp add: evalComparison_def check_comparison_def answers_pure)
next
  case (Some idx)
  let ?t = "col_type (schema_columns sc ! idx)"
  have "answers sc rs (and_then (s, checkLiteralType c ?t) (\<lambda>_ s.
             and_then (read_column_for FilterColumn (cmp_Column c) s) (\<lambda>v s. (s, applyComparison v ?t c))))
      (bind_ok (checkLiteralType c ?t) (\<lambda>_. Ok (map (\<lambda>r. comparison_holds sc r c) rs)))"
  proof (rule answers_and_then [OF answers_pure [OF assms]])
    fix u s1
    assume ok: "checkLiteralType c ?t = Ok u" and s1: "presents s1 rs" "seg_schema s1 = sc"
    from answers_read [OF s1 Some] obtain d where
      d: "answers sc rs (read_column_for FilterColumn (cmp_Column c) s1) (Ok d)"
        "column_cells d = map (\<lambda>r. r ! idx) rs" "column_data_type d = ?t"
      by blast
    have scan: "applyComparison d ?t c = Ok (map (\<lambda>r. comparison_holds sc r c) rs)"
      using scan_cells [OF d(2,3) checkLiteralType_Ok [OF ok]]
      by (simp add: comparison_holds_def cell_def Some)
    have "answers sc rs (and_then (read_column_for FilterColumn (cmp_Column c) s1) (\<lambda>v s. (s, applyComparison v ?t c)))
        (bind_ok (Ok d) (\<lambda>v. applyComparison v ?t c))"
      by (rule answers_and_then [OF d(1)]) (simp add: answers_pure)
    then show "answers sc rs (and_then (read_column_for FilterColumn (cmp_Column c) s1)
        (\<lambda>v s. (s, applyComparison v ?t c))) (Ok (map (\<lambda>r. comparison_holds sc r c) rs))"
      by (simp add: scan)
  qed
  then show ?thesis
    by (simp add: evalComparison_def check_comparison_def Some Let_def)
qed

lemma combine_and_map:
  "combine_and i (map P rs) (ps @ map Q rs) = Ok (map (\<lambda>r. P r \<and> Q r) rs)" if "length ps = i"
  using that
proof (induction rs arbitrary: i ps)
  case (Cons r rs)
  from Cons.IH [of "ps @ [Q r]" "Suc i"] Cons.prems show ?case by (simp add: nth_append)
qed simp

lemma combine_or_map:
  "combine_or i (map P rs) (ps @ map Q rs) = Ok (map (\<lambda>r. P r \<or> Q r) rs)" if "length ps = i"
  using that
proof (induction rs arbitrary: i ps)
  case (Cons r rs)
  from Cons.IH [of "ps @ [Q r]" "Suc i"] Cons.prems show ?case by (simp add: nth_append)
qed simp

lemmas combine_maps = combine_and_map [of "[]" 0, simplified] combine_or_map [of "[]" 0, simplified]

abbreviation check_trees :: "schema \<Rightarrow> filter_expr list \<Rightarrow> (query_error, unit) outcome" where
  "check_trees sc es \<equiv> check_comparisons sc (concat (map leaves es))"

lemma answers_evaluate_all:
  "walkable e \<and> presents s rs \<and> seg_schema s = sc \<longrightarrow>
   answers sc rs (evaluate sc e s)
     (bind_ok (check_comparisons sc (leaves e)) (\<lambda>_. Ok (map (where_holds sc e) rs)))"
  "\<forall>P. (\<forall>e \<in> set es. walkable e) \<and> presents s rs \<and> seg_schema s = sc \<and> acc = map P rs \<longrightarrow>
   answers sc rs (evaluate_and sc es acc s)
     (bind_ok (check_trees sc es) (\<lambda>_. Ok (map (\<lambda>r. P r \<and> (\<forall>e \<in> set es. where_holds sc e r)) rs)))"
  "\<forall>P. (\<forall>e \<in> set es. walkable e) \<and> presents s rs \<and> seg_schema s = sc \<and> acc = map P rs \<longrightarrow>
   answers sc rs (evaluate_or sc es acc s)
     (bind_ok (check_trees sc es) (\<lambda>_. Ok (map (\<lambda>r. P r \<or> (\<exists>e \<in> set es. where_holds sc e r)) rs)))"
proof (induction sc e s and sc es acc s and sc es acc s rule: evaluate_evaluate_and_evaluate_or.induct)
  case (1 sc c a o' s)
  then show ?case
    using answers_evalComparison [of s rs sc c]
    by (simp add: where_holds_def bind_ok_assoc)
next
  case (3 sc e es o' s)
  have "answers sc rs (and_then (evaluate sc e s) (\<lambda>acc s. evaluate_and sc es acc s))
      (bind_ok (bind_ok (check_comparisons sc (leaves e)) (\<lambda>_. Ok (map (where_holds sc e) rs))) (\<lambda>_.
        bind_ok (check_trees sc es) (\<lambda>_. Ok (map (\<lambda>r. where_holds sc e r \<and> (\<forall>e \<in> set es. where_holds sc e r)) rs))))"
    if "walkable (FilterExpr None (Some (e # es)) o')" "presents s rs" "seg_schema s = sc"
    using that 3 by (intro answers_and_then) auto
  then show ?case
    by (simp add: bind_ok_assoc check_comparisons_append where_holds_def)
next
  case (5 sc e es s)
  have "answers sc rs (and_then (evaluate sc e s) (\<lambda>acc s. evaluate_or sc es acc s))
      (bind_ok (bind_ok (check_comparisons sc (leaves e)) (\<lambda>_. Ok (map (where_holds sc e) rs))) (\<lambda>_.
        bind_ok (check_trees sc es) (\<lambda>_. Ok (map (\<lambda>r. where_holds sc e r \<or> (\<exists>e \<in> set es. where_holds sc e r)) rs))))"
    if "walkable (FilterExpr None None (Some (e # es)))" "presents s rs" "seg_schema s = sc"
    using that 5 by (intro answers_and_then) auto
  then show ?case
    by (simp add: bind_ok_assoc check_comparisons_append where_holds_def)
next
  case (8 sc e es acc s)
  show ?case
  proof (intro allI impI, elim conjE)
    fix P
    assume a: "\<forall>e \<in> set (e # es). walkable e" "presents s rs" "seg_schema s = sc" "acc = map P rs"
    have rest: "answers sc rs (evaluate_and sc es (map (\<lambda>r. P r \<and> where_holds sc e r) rs) s1)
        (bind_ok (check_trees sc es)
          (\<lambda>_. Ok (map (\<lambda>r. (P r \<and> where_holds sc e r) \<and> (\<forall>e \<in> set es. where_holds sc e r)) rs)))"
      if "presents s1 rs" "seg_schema s1 = sc" for s1
      using spec [where x = "\<lambda>r. P r \<and> where_holds sc e r", OF 8(2)] a(1) that by simp
    have "answers sc rs (and_then (evaluate sc e s) (\<lambda>next s.
           and_then (s, combine_and 0 acc next) (\<lambda>acc s. evaluate_and sc es acc s)))
        (bind_ok (bind_ok (check_comparisons sc (leaves e)) (\<lambda>_. Ok (map (where_holds sc e) rs))) (\<lambda>next.
          bind_ok (combine_and 0 acc next) (\<lambda>_. bind_ok (check_trees sc es)
            (\<lambda>_. Ok (map (\<lambda>r. (P r \<and> where_holds sc e r) \<and> (\<forall>e \<in> set es. where_holds sc e r)) rs)))))"
      using 8(1) a rest
      by (intro answers_and_then answers_pure) (auto simp: combine_maps)
    moreover have "bind_ok (bind_ok (check_comparisons sc (leaves e)) (\<lambda>_. Ok (map (where_holds sc e) rs))) (\<lambda>next.
          bind_ok (combine_and 0 acc next) (\<lambda>_. bind_ok (check_trees sc es)
            (\<lambda>_. Ok (map (\<lambda>r. (P r \<and> where_holds sc e r) \<and> (\<forall>e \<in> set es. where_holds sc e r)) rs)))) =
        bind_ok (check_trees sc (e # es))
          (\<lambda>_. Ok (map (\<lambda>r. P r \<and> (\<forall>e \<in> set (e # es). where_holds sc e r)) rs))"
      by (simp add: bind_ok_assoc check_comparisons_append combine_maps a(4))
    ultimately show "answers sc rs (evaluate_and sc (e # es) acc s) (bind_ok (check_trees sc (e # es))
          (\<lambda>_. Ok (map (\<lambda>r. P r \<and> (\<forall>e \<in> set (e # es). where_holds sc e r)) rs)))"
      by simp
  qed
next
  case (10 sc e es acc s)
  show ?case
  proof (intro allI impI, elim conjE)
    fix P
    assume a: "\<forall>e \<in> set (e # es). walkable e" "presents s rs" "seg_schema s = sc" "acc = map P rs"
    have rest: "answers sc rs (evaluate_or sc es (map (\<lambda>r. P r \<or> where_holds sc e r) rs) s1)
        (bind_ok (check_trees sc es)
          (\<lambda>_. Ok (map (\<lambda>r. (P r \<or> where_holds sc e r) \<or> (\<exists>e \<in> set es. where_holds sc e r)) rs)))"
      if "presents s1 rs" "seg_schema s1 = sc" for s1
      using spec [where x = "\<lambda>r. P r \<or> where_holds sc e r", OF 10(2)] a(1) that by simp
    have "answers sc rs (and_then (evaluate sc e s) (\<lambda>next s.
           and_then (s, combine_or 0 acc next) (\<lambda>acc s. evaluate_or sc es acc s)))
        (bind_ok (bind_ok (check_comparisons sc (leaves e)) (\<lambda>_. Ok (map (where_holds sc e) rs))) (\<lambda>next.
          bind_ok (combine_or 0 acc next) (\<lambda>_. bind_ok (check_trees sc es)
            (\<lambda>_. Ok (map (\<lambda>r. (P r \<or> where_holds sc e r) \<or> (\<exists>e \<in> set es. where_holds sc e r)) rs)))))"
      using 10(1) a rest
      by (intro answers_and_then answers_pure) (auto simp: combine_maps)
    moreover have "bind_ok (bind_ok (check_comparisons sc (leaves e)) (\<lambda>_. Ok (map (where_holds sc e) rs))) (\<lambda>next.
          bind_ok (combine_or 0 acc next) (\<lambda>_. bind_ok (check_trees sc es)
            (\<lambda>_. Ok (map (\<lambda>r. (P r \<or> where_holds sc e r) \<or> (\<exists>e \<in> set es. where_holds sc e r)) rs)))) =
        bind_ok (check_trees sc (e # es))
          (\<lambda>_. Ok (map (\<lambda>r. P r \<or> (\<exists>e \<in> set (e # es). where_holds sc e r)) rs))"
      by (simp add: bind_ok_assoc check_comparisons_append combine_maps a(4))
    ultimately show "answers sc rs (evaluate_or sc (e # es) acc s) (bind_ok (check_trees sc (e # es))
          (\<lambda>_. Ok (map (\<lambda>r. P r \<or> (\<exists>e \<in> set (e # es). where_holds sc e r)) rs)))"
      by simp
  qed
qed (auto simp: answers_pure)

lemmas answers_evaluate = answers_evaluate_all(1) [rule_format, OF conjI, OF _ conjI]

section \<open>The selected rows\<close>

text \<open>The selection vector is that of the predicate, or there is none and the predicate is true.\<close>

definition selects :: "bool list \<Rightarrow> bool \<Rightarrow> (row \<Rightarrow> bool) \<Rightarrow> row list \<Rightarrow> bool" where
  "selects selection filtered p rs \<longleftrightarrow> (if filtered then selection = map p rs else (\<forall>r. p r))"

lemma skipped_selects [simp]:
  "selects selection filtered p rs \<Longrightarrow> i < length rs \<Longrightarrow> skipped selection filtered i = Ok (\<not> p (rs ! i))"
  by (auto simp: selects_def skipped_def split: if_splits)

lemma count_true_filter: "count_true n (map p rs) = n + of_nat (length (filter p rs))"
  by (induction rs arbitrary: n) auto

lemma count_int_filter: "count_int n (map p rs) = n + int (length (filter p rs))"
  by (induction rs arbitrary: n) auto

lemma uint64_of_int: "int_of_uint64 w = int n \<Longrightarrow> w = of_nat n"
proof -
  assume "int_of_uint64 w = int n"
  moreover have "(of_int (sint w) :: 64 word) = w" by simp
  ultimately show ?thesis by (simp add: int_of_uint64_def)
qed

lemma execCount_spec:
  assumes "presents s rs" "selects selection filtered p rs"
  shows "execCount s selection filtered =
    \<lparr>res_Columns = [''COUNT(*)''], res_Rows = [[VUint64 (of_nat (length (filter p rs)))]], res_isAggregate = True\<rparr>"
  using assms uint64_of_int [of "seg_rowCount s" "length rs"]
  by (auto simp: execCount_def presents_def selects_def count_true_filter split: if_splits)

section \<open>Checked addition\<close>

definition int64_range :: "int \<Rightarrow> bool" where
  "int64_range k \<longleftrightarrow> - (2 ^ 63) \<le> k \<and> k < 2 ^ 63"

lemma int64_range_sint [simp]: "int64_range (sint (w :: int64))"
  using sint_ge [of w] sint_lt [of w] by (simp add: int64_range_def)

lemma sint_add_int64:
  fixes a b :: int64
  shows "sint (a + b) = (if int64_range (sint a + sint b) then sint a + sint b
    else if sint a < 0 then sint a + sint b + 2 ^ 64 else sint a + sint b - 2 ^ 64)"
proof -
  let ?k = "sint a + sint b"
  have r: "- (2 ^ 63) \<le> sint a" "sint a < 2 ^ 63" "- (2 ^ 63) \<le> sint b" "sint b < 2 ^ 63"
    using int64_range_sint [of a] int64_range_sint [of b] by (auto simp: int64_range_def)
  have eq: "sint (a + b) = (?k + 2 ^ 63) mod 2 ^ 64 - 2 ^ 63"
    by (simp add: sint_word_ariths signed_take_bit_eq_take_bit_shift take_bit_eq_mod)
  have small: "m mod 2 ^ 64 = m" if "0 \<le> m" "m < 2 ^ 64" for m :: int
    using that by simp
  consider "int64_range ?k" | "?k < - (2 ^ 63)" "sint a < 0" | "2 ^ 63 \<le> ?k" "0 \<le> sint a"
    using r unfolding int64_range_def by linarith
  then show ?thesis
  proof cases
    case 1
    then show ?thesis unfolding eq using small [of "?k + 2 ^ 63"] by (simp add: int64_range_def)
  next
    case 2
    have "(?k + 2 ^ 63) mod 2 ^ 64 = (?k + 2 ^ 63 + 2 ^ 64) mod 2 ^ 64"
      by (rule mod_add_self2 [symmetric])
    also have "\<dots> = ?k + 2 ^ 63 + 2 ^ 64" using 2 r by (intro small) auto
    finally show ?thesis unfolding eq using 2 by (simp add: int64_range_def)
  next
    case 3
    have "(?k + 2 ^ 63) mod 2 ^ 64 = (?k + 2 ^ 63 - 2 ^ 64) mod 2 ^ 64"
      using mod_add_self2 [of "?k + 2 ^ 63 - 2 ^ 64" "2 ^ 64"] by (simp only: diff_add_cancel)
    also have "\<dots> = ?k + 2 ^ 63 - 2 ^ 64" using 3 r by (intro small) auto
    finally show ?thesis unfolding eq using 3 by (simp add: int64_range_def)
  qed
qed

lemma addInt64Checked_spec:
  "addInt64Checked a x = (if int64_range (sint a + sint x) then (a + x, True) else (0, False))"
proof -
  have r: "- (2 ^ 63) \<le> sint a" "sint a < 2 ^ 63" "- (2 ^ 63) \<le> sint x" "sint x < 2 ^ 63"
    using int64_range_sint [of a] int64_range_sint [of x] by (auto simp: int64_range_def)
  show ?thesis
  proof (cases "int64_range (sint a + sint x)")
    case True
    then show ?thesis
      by (auto simp: addInt64Checked_def Let_def sint_add_int64)
  next
    case False
    with r have "(0 < sint a \<and> 0 < sint x \<and> sint (a + x) < 0) \<or> (sint a < 0 \<and> sint x < 0 \<and> 0 \<le> sint (a + x))"
      unfolding sint_add_int64 by (auto simp: int64_range_def)
    with False show ?thesis by (simp add: addInt64Checked_def Let_def)
  qed
qed

text \<open>The checked sum of a list: \<open>None\<close> when a partial sum leaves the range.\<close>

fun add_all :: "int64 \<Rightarrow> int64 list \<Rightarrow> int64 option" where
  "add_all t [] = Some t"
| "add_all t (x # xs) = (if int64_range (sint t + sint x) then add_all (t + x) xs else None)"

lemma add_all_spec:
  "add_all t xs =
     (if \<forall>k \<le> length xs. int64_range (sint t + (\<Sum>x\<leftarrow>take k xs. sint x))
      then Some (word_of_int (sint t + (\<Sum>x\<leftarrow>xs. sint x))) else None)"
proof (induction xs arbitrary: t)
  case (Cons x xs)
  have split: "(\<forall>k \<le> length (x # xs). int64_range (sint t + (\<Sum>y\<leftarrow>take k (x # xs). sint y))) \<longleftrightarrow>
      int64_range (sint t + sint x) \<and>
      (\<forall>k \<le> length xs. int64_range (sint t + sint x + (\<Sum>y\<leftarrow>take k xs. sint y)))"
    (is "?l \<longleftrightarrow> ?r")
  proof
    assume l: ?l
    have "int64_range (sint t + sint x + (\<Sum>y\<leftarrow>take k xs. sint y))" if "k \<le> length xs" for k
      using l [THEN spec, of "Suc k"] that by (simp add: add.assoc)
    moreover from this [of 0] have "int64_range (sint t + sint x)" by simp
    ultimately show ?r by blast
  next
    assume r: ?r
    have "int64_range (sint t + (\<Sum>y\<leftarrow>take k (x # xs). sint y))" if "k \<le> length (x # xs)" for k
      using r that by (cases k) (auto simp: add.assoc)
    then show ?l by blast
  qed
  show ?case
    using Cons.IH [of "t + x"] by (simp only: split) (auto simp: sint_add_int64 add.assoc)
qed simp

lemma add_all_sint: "add_all t xs = Some u \<Longrightarrow> sint u = sint t + (\<Sum>x\<leftarrow>xs. sint x)"
  by (induction xs arbitrary: t) (auto simp: sint_add_int64 split: if_splits)

lemma sum_int64_add_all:
  assumes "selects selection filtered p rs" "length xs + i = length rs"
  shows "sum_int64 col selection filtered i xs t =
    (case add_all t (map fst (filter (\<lambda>(x, r). p r) (zip xs (drop i rs)))) of
       None \<Rightarrow> Err (QSumOverflow col) | Some u \<Rightarrow> Ok u)"
  using assms(2)
proof (induction xs arbitrary: i t)
  case (Cons x xs)
  then have i: "i < length rs" "drop i rs = rs ! i # drop (Suc i) rs"
    by (simp_all add: Cons_nth_drop_Suc)
  show ?case
    using Cons.IH [of "Suc i"] Cons.prems
    by (simp add: i skipped_selects [OF assms(1) i(1)] addInt64Checked_spec)
qed simp

lemma sum_float64_foldl:
  assumes "selects selection filtered p rs" "length xs + i = length rs"
  shows "sum_float64 selection filtered i xs t =
    Ok (foldl f_add t (map fst (filter (\<lambda>(x, r). p r) (zip xs (drop i rs)))))"
  using assms(2)
proof (induction xs arbitrary: i t)
  case (Cons x xs)
  then have i: "i < length rs" "drop i rs = rs ! i # drop (Suc i) rs"
    by (simp_all add: Cons_nth_drop_Suc)
  show ?case
    using Cons.IH [of "Suc i"] Cons.prems
    by (simp add: i skipped_selects [OF assms(1) i(1)])
qed simp

section \<open>SUM\<close>

fun int_of_cell :: "go_value \<Rightarrow> int64" where
  "int_of_cell (VInt64 x) = x"
| "int_of_cell _ = 0"

fun float_of_cell :: "go_value \<Rightarrow> float64" where
  "float_of_cell (VFloat64 x) = x"
| "float_of_cell _ = f_zero"

abbreviation ints_at :: "schema \<Rightarrow> string \<Rightarrow> row list \<Rightarrow> int64 list" where
  "ints_at sc col rows \<equiv> map (\<lambda>r. int_of_cell (cell sc col r)) rows"

abbreviation floats_at :: "schema \<Rightarrow> string \<Rightarrow> row list \<Rightarrow> float64 list" where
  "floats_at sc col rows \<equiv> map (\<lambda>r. float_of_cell (cell sc col r)) rows"

abbreviation type_at :: "schema \<Rightarrow> string \<Rightarrow> column_type" where
  "type_at sc col \<equiv> col_type (schema_columns sc ! the (ColumnIndex sc col))"

text \<open>The sum over the selected rows: exact or an overflow error, left to right for floats.\<close>

definition sum_outcome :: "schema \<Rightarrow> string \<Rightarrow> row list \<Rightarrow> (query_error, go_value) outcome" where
  "sum_outcome sc col rows =
     (case type_at sc col of
        Int64 \<Rightarrow>
          (case add_all 0 (ints_at sc col rows) of
             None \<Rightarrow> Err (QSumOverflow col)
           | Some t \<Rightarrow> Ok (VInt64 t))
      | Float64 \<Rightarrow> Ok (VFloat64 (foldl f_add f_zero (floats_at sc col rows)))
      | t \<Rightarrow> Err (QCannotSum t col))"

lemma typed_cells:
  assumes "column_cells d = map g rs"
  shows "column_data_type d = Int64 \<Longrightarrow> d = Int64s (map (\<lambda>r. int_of_cell (g r)) rs)"
    and "column_data_type d = Float64 \<Longrightarrow> d = Float64s (map (\<lambda>r. float_of_cell (g r)) rs)"
proof -
  have "map int_of_cell (column_cells d) = map (\<lambda>r. int_of_cell (g r)) rs"
    and "map float_of_cell (column_cells d) = map (\<lambda>r. float_of_cell (g r)) rs"
    by (simp_all add: assms comp_def)
  then show "column_data_type d = Int64 \<Longrightarrow> d = Int64s (map (\<lambda>r. int_of_cell (g r)) rs)"
    and "column_data_type d = Float64 \<Longrightarrow> d = Float64s (map (\<lambda>r. float_of_cell (g r)) rs)"
    by (cases d; simp add: comp_def)+
qed

lemma map_filter_zip: "map fst (filter (\<lambda>(x, r). p r) (zip (map g rs) rs)) = map g (filter p rs)"
  by (induction rs) auto

lemma column_data_type_known: "column_data_type d \<noteq> OtherType b"
  by (cases d) auto

lemma answers_execSum:
  assumes "presents s rs" "seg_schema s = sc" "selects selection filtered p rs"
    and "ColumnIndex sc col = Some idx"
  shows "answers sc rs (execSum col sc selection filtered s)
    (bind_ok (sum_outcome sc col (filter p rs)) (\<lambda>v.
      Ok \<lparr>res_Columns = [sum_header col], res_Rows = [[v]], res_isAggregate = True\<rparr>))"
proof -
  obtain d where d: "answers sc rs (read_column_for SumColumn col s) (Ok d)"
    "column_cells d = map (\<lambda>r. r ! idx) rs" "column_data_type d = type_at sc col"
    using answers_read [OF assms(1,2,4)] assms(4) by auto
  have cells: "column_cells d = map (cell sc col) rs"
    by (simp add: d(2) cell_def assms(4))
  show ?thesis
  proof (cases "type_at sc col = Int64 \<or> type_at sc col = Float64")
    case False
    then show ?thesis
      using assms answers_pure [OF assms(1,2)]
      by (cases "type_at sc col") (auto simp: execSum_def sum_outcome_def)
  next
    case True
    have no: "\<not> (col_type (schema_columns sc ! idx) \<noteq> Int64 \<and> col_type (schema_columns sc ! idx) \<noteq> Float64)"
      using True assms(4) by simp
    have "answers sc rs (execSum col sc selection filtered s) (bind_ok (Ok d) (\<lambda>v.
        if type_at sc col = Int64 then
          (case v of
             Int64s vals \<Rightarrow> bind_ok (sum_int64 col selection filtered 0 vals 0) (\<lambda>acc.
               Ok \<lparr>res_Columns = [sum_header col], res_Rows = [[VInt64 acc]], res_isAggregate = True\<rparr>)
           | _ \<Rightarrow> Panic TypeAssertion)
        else if type_at sc col = Float64 then
          (case v of
             Float64s vals \<Rightarrow> bind_ok (sum_float64 selection filtered 0 vals f_zero) (\<lambda>acc.
               Ok \<lparr>res_Columns = [sum_header col], res_Rows = [[VFloat64 acc]], res_isAggregate = True\<rparr>)
           | _ \<Rightarrow> Panic TypeAssertion)
        else Err QUnreachable))"
      unfolding execSum_def assms(4) option.case option.sel Let_def if_not_P [OF no]
      by (rule answers_and_then [OF d(1)]) (rule answers_pure)
    then show ?thesis
      using True d(3) typed_cells [OF cells]
      by (auto simp: sum_outcome_def sum_int64_add_all [OF assms(3), of _ 0] sum_float64_foldl [OF assms(3), of _ 0]
          map_filter_zip split: option.splits)
  qed
qed

section \<open>Projections\<close>

lemma rowValueAt_cells: "i < length (column_cells d) \<Longrightarrow> rowValueAt d i = Ok (column_cells d ! i)"
  by (cases d) auto

lemma answers_read_all:
  assumes "\<forall>n \<in> set ns. ColumnIndex sc n \<noteq> None" "presents s rs" "seg_schema s = sc"
  shows "\<exists>ds. answers sc rs (read_all ns s) (Ok ds) \<and>
    list_all2 (\<lambda>n d. column_cells d = map (cell sc n) rs) ns ds"
  using assms
proof (induction ns arbitrary: s)
  case (Cons n ns)
  then obtain idx where idx: "ColumnIndex sc n = Some idx" by auto
  obtain d where d: "answers sc rs (read_column_for ProjectedColumn n s) (Ok d)"
      "column_cells d = map (cell sc n) rs"
    using answers_read [OF Cons.prems(2,3) idx, of ProjectedColumn] by (auto simp: cell_def idx)
  obtain s1 where s1: "read_column_for ProjectedColumn n s = (s1, Ok d)" "presents s1 rs" "seg_schema s1 = sc"
    using d(1) by (cases "read_column_for ProjectedColumn n s") (auto simp: answers_def)
  with Cons.IH [of s1] Cons.prems(1) obtain ds where
    ds: "answers sc rs (read_all ns s1) (Ok ds)" "list_all2 (\<lambda>n d. column_cells d = map (cell sc n) rs) ns ds"
    by auto
  have "answers sc rs (and_then (read_all ns s1) (\<lambda>ds s. (s, Ok (d # ds)))) (bind_ok (Ok ds) (\<lambda>ds. Ok (d # ds)))"
    by (rule answers_and_then [OF ds(1)]) (simp add: answers_pure)
  then show ?case
    using s1 d(2) ds(2) by (intro exI [of _ "d # ds"]) (simp add: and_then_def)
qed (simp add: answers_pure)

lemma row_values_cells:
  assumes "list_all2 (\<lambda>n d. column_cells d = map (cell sc n) rs) ns ds" "i < length rs"
  shows "row_values ds i = Ok (map (\<lambda>n. cell sc n (rs ! i)) ns)"
  using assms(1)
proof (induction ns ds rule: list_all2_induct)
  case (Cons n ns d ds)
  then show ?case using assms(2) by (simp add: rowValueAt_cells)
qed simp

lemma project_rows_spec:
  assumes "list_all2 (\<lambda>n d. column_cells d = map (cell sc n) rs) ns ds"
    and "selects selection filtered p rs" "\<forall>i \<in> set is. i < length rs"
  shows "project_rows ds selection filtered is =
    Ok (map (\<lambda>r. map (\<lambda>n. cell sc n r) ns) (filter p (map ((!) rs) is)))"
  using assms(3) by (induction "is") (auto simp: skipped_selects [OF assms(2)] row_values_cells [OF assms(1)])

lemma answers_execProject:
  assumes "presents s rs" "seg_schema s = sc" "selects selection filtered p rs"
    and "\<forall>n \<in> set ns. ColumnIndex sc n \<noteq> None"
  shows "answers sc rs (execProject ns selection filtered s)
    (Ok \<lparr>res_Columns = ns, res_Rows = map (\<lambda>r. map (\<lambda>n. cell sc n r) ns) (filter p rs), res_isAggregate = False\<rparr>)"
proof -
  from answers_read_all [OF assms(4,1,2)] obtain ds where
    ds: "answers sc rs (read_all ns s) (Ok ds)" "list_all2 (\<lambda>n d. column_cells d = map (cell sc n) rs) ns ds"
    by blast
  have "int (length (filter p rs)) \<le> int (length rs)" by simp
  moreover have "24 * int (length rs) \<le> max_alloc" using assms(1) by (simp add: presents_def)
  ultimately have len: "24 * int (length (filter p rs)) \<le> max_alloc" by linarith
  have alloc: "make_slice 24 (estimateRows (int (length rs)) selection filtered) = Ok ()"
    using assms(1,3) len
    by (auto simp: presents_def estimateRows_def selects_def count_int_filter split: if_splits)
  have "map ((!) rs) [0..<length rs] = rs" by (rule map_nth)
  then have rows: "project_rows ds selection filtered [0..<length rs] =
      Ok (map (\<lambda>r. map (\<lambda>n. cell sc n r) ns) (filter p rs))"
    using project_rows_spec [OF ds(2) assms(3), of "[0..<length rs]"] by simp
  have "answers sc rs (execProject ns selection filtered s) (bind_ok (Ok ds) (\<lambda>ds.
      Ok \<lparr>res_Columns = ns, res_Rows = map (\<lambda>r. map (\<lambda>n. cell sc n r) ns) (filter p rs), res_isAggregate = False\<rparr>))"
    unfolding execProject_def
    by (rule answers_and_then [OF ds(1)]) (auto simp: answers_def presents_def alloc rows)
  then show ?thesis by simp
qed

end
