(* ===== verification/GroupFacts.thy ===== *)
theory GroupFacts
  imports ExecFacts
begin

text \<open>
  GROUP BY: the groups are the equivalence classes of the selected rows under equality of their keys,
  in the order of their first rows, and the aggregate of a group is that of its rows. A NaN key is
  equal to no key, not even to itself.
\<close>

section \<open>Keys\<close>

lemma key_eq_sym: "key_eq a b \<Longrightarrow> key_eq b a"
  by (cases a; cases b) (auto intro: f_eq_sym)

lemma key_eq_trans: "key_eq a b \<Longrightarrow> key_eq b c \<Longrightarrow> key_eq a c"
  by (cases a; cases b; cases c) (auto intro: f_eq_trans)

lemma key_eq_refl_left: "key_eq a b \<Longrightarrow> key_eq a a"
  using key_eq_sym key_eq_trans by blast

text \<open>The distinct keys in the order of discovery.\<close>

definition add_key :: "go_value list \<Rightarrow> go_value \<Rightarrow> go_value list" where
  "add_key ks k = (if \<exists>k' \<in> set ks. key_eq k' k then ks else ks @ [k])"

definition discovered :: "go_value list \<Rightarrow> go_value list" where
  "discovered ks = foldl add_key [] ks"

lemma discovered_snoc: "discovered (ks @ [k]) = add_key (discovered ks) k"
  by (simp add: discovered_def)

lemma discovered_subset: "set (discovered ks) \<subseteq> set ks"
  by (induction ks rule: rev_induct) (auto simp: discovered_snoc add_key_def discovered_def [of "[]"])

lemma discovered_covers: "k \<in> set ks \<Longrightarrow> key_eq k k \<Longrightarrow> \<exists>k' \<in> set (discovered ks). key_eq k' k"
  by (induction ks rule: rev_induct) (auto simp: discovered_snoc add_key_def discovered_def [of "[]"])

lemma discovered_nan: "k \<in> set ks \<Longrightarrow> \<not> key_eq k k \<Longrightarrow> k \<in> set (discovered ks)"
proof (induction ks rule: rev_induct)
  case (snoc j ks)
  show ?case
  proof (cases "k = j")
    case True
    with snoc.prems have "\<not> (\<exists>k' \<in> set (discovered ks). key_eq k' j)"
      using key_eq_sym key_eq_trans by blast
    with True show ?thesis by (simp add: discovered_snoc add_key_def)
  next
    case False
    with snoc show ?thesis by (auto simp: discovered_snoc add_key_def)
  qed
qed simp

lemma discovered_pairwise:
  "sorted_wrt (\<lambda>a b. \<not> key_eq a b) (discovered ks)"
proof (induction ks rule: rev_induct)
  case (snoc k ks)
  then show ?case by (auto simp: discovered_snoc add_key_def sorted_wrt_append)
qed (simp add: discovered_def)

text \<open>Two discovered keys that are equal are the same entry.\<close>

lemma discovered_unique:
  assumes "i < length (discovered ks)" "j < length (discovered ks)"
    and "key_eq (discovered ks ! i) (discovered ks ! j)"
  shows "i = j"
proof (rule ccontr)
  assume "i \<noteq> j"
  then consider "i < j" | "j < i" by linarith
  then show False
    using assms discovered_pairwise [of ks] key_eq_sym
    by cases (auto simp: sorted_wrt_iff_nth_less)
qed

section \<open>The rows of a group and their aggregate\<close>

definition members :: "('r \<Rightarrow> go_value) \<Rightarrow> go_value \<Rightarrow> 'r list \<Rightarrow> 'r list" where
  "members f k rows = filter (\<lambda>r. key_eq k (f r)) rows"

lemma members_snoc: "members f k (rows @ [r]) = members f k rows @ (if key_eq k (f r) then [r] else [])"
  by (simp add: members_def)

lemma members_same: "key_eq k k' \<Longrightarrow> members f k rows = members f k' rows"
  unfolding members_def by (intro filter_cong refl) (blast intro: key_eq_sym key_eq_trans)

definition aggregate_value :: "schema \<Rightarrow> query \<Rightarrow> row list \<Rightarrow> go_value option" where
  "aggregate_value sc q rows =
     (case q_GroupAgg q of
        AggCountStar \<Rightarrow> Some (VUint64 (of_nat (length rows)))
      | AggSumColumn \<Rightarrow>
          (case type_at sc (q_SumColumn q) of
             Int64 \<Rightarrow> map_option VInt64 (add_all 0 (ints_at sc (q_SumColumn q) rows))
           | Float64 \<Rightarrow> Some (VFloat64 (foldl f_add f_zero (floats_at sc (q_SumColumn q) rows)))
           | _ \<Rightarrow> Some VNil)
      | OtherAggregate _ \<Rightarrow> Some VNil)"

lemma add_all_snoc:
  "add_all t (xs @ [x]) =
     (case add_all t xs of
        None \<Rightarrow> None
      | Some u \<Rightarrow> if int64_range (sint u + sint x) then Some (u + x) else None)"
  by (induction xs arbitrary: t) auto

text \<open>The summed column as the executor holds it.\<close>

definition holds_sums :: "schema \<Rightarrow> query \<Rightarrow> row list \<Rightarrow> sum_column \<Rightarrow> bool" where
  "holds_sums sc q rs sums \<longleftrightarrow>
     (if q_GroupAgg q = AggSumColumn
      then type_at sc (q_SumColumn q) = Int64 \<and> sums = IntSum (ints_at sc (q_SumColumn q) rs) \<or>
           type_at sc (q_SumColumn q) = Float64 \<and> sums = FloatSum (floats_at sc (q_SumColumn q) rs)
      else sums = NoSum \<and> q_GroupAgg q = AggCountStar)"

text \<open>An accumulator fits the rows when the cell it would print is their aggregate.\<close>

definition fits :: "schema \<Rightarrow> query \<Rightarrow> sum_column \<Rightarrow> row list \<Rightarrow> group_accumulator \<Rightarrow> bool" where
  "fits sc q sums rows a \<longleftrightarrow>
     (\<exists>v. aggregate_value sc q rows = Some v \<and> aggregate_cell q sums (Some a) = Ok v)"

lemma fits_empty: "holds_sums sc q rs sums \<Longrightarrow> fits sc q sums [] empty_accumulator"
  by (auto simp: holds_sums_def fits_def aggregate_value_def aggregate_cell_def empty_accumulator_def
      split: if_splits)

lemma accumulate_fits:
  assumes "holds_sums sc q rs sums" "fits sc q sums rows a" "i < length rs"
  shows "case aggregate_value sc q (rows @ [rs ! i]) of
      None \<Rightarrow> accumulate q sums i key a = Err (QSumOverflowInGroup (q_SumColumn q) key)
    | Some v \<Rightarrow> \<exists>a'. accumulate q sums i key a = Ok a' \<and> fits sc q sums (rows @ [rs ! i]) a'"
  using assms
  by (auto simp: holds_sums_def fits_def aggregate_value_def aggregate_cell_def accumulate_def
      add_all_snoc addInt64Checked_spec split: if_splits option.splits)

lemma accumulate_fresh:
  assumes "holds_sums sc q rs sums" "i < length rs"
  shows "\<exists>a. accumulate q sums i key empty_accumulator = Ok a \<and> fits sc q sums [rs ! i] a"
  using accumulate_fits [OF assms(1) fits_empty [OF assms(1)] assms(2), of key] assms(1)
  by (auto simp: holds_sums_def aggregate_value_def split: if_splits option.splits)

section \<open>The loop over the rows\<close>

lemma entry_of_Some: "entry_of g k = Some j \<Longrightarrow> j < length g \<and> key_eq (fst (g ! j)) k"
  by (induction g arbitrary: j) (auto split: if_splits)

lemma entry_of_None: "entry_of g k = None \<longleftrightarrow> (\<forall>k' \<in> set (map fst g). \<not> key_eq k' k)"
  by (induction g k rule: entry_of.induct) auto

text \<open>The first row at which the running sum of its group leaves the 64-bit range.\<close>

fun first_overflow :: "schema \<Rightarrow> query \<Rightarrow> (row \<Rightarrow> go_value) \<Rightarrow> row list \<Rightarrow> row list \<Rightarrow> row option" where
  "first_overflow sc q f seen [] = None"
| "first_overflow sc q f seen (r # rest) =
     (if aggregate_value sc q (members f (f r) (seen @ [r])) = None then Some r
      else first_overflow sc q f (seen @ [r]) rest)"

text \<open>The state of the loop after the rows \<open>seen\<close>.\<close>

definition grouped ::
  "schema \<Rightarrow> query \<Rightarrow> sum_column \<Rightarrow> (row \<Rightarrow> go_value) \<Rightarrow> row list \<Rightarrow> go_value list \<Rightarrow> groups \<Rightarrow> bool" where
  "grouped sc q sums f seen keys groups \<longleftrightarrow>
     keys = discovered (map f seen) \<and> map fst groups = keys \<and>
     (\<forall>j < length groups. key_eq (keys ! j) (keys ! j) \<longrightarrow>
        fits sc q sums (members f (keys ! j) seen) (snd (groups ! j)))"

lemma grouped_length: "grouped sc q sums f seen keys groups \<Longrightarrow> length keys = length groups"
  unfolding grouped_def by (metis length_map)

lemma grouped_fst: "grouped sc q sums f seen keys groups \<Longrightarrow> j < length groups \<Longrightarrow> fst (groups ! j) = keys ! j"
  unfolding grouped_def by (metis nth_map)

text \<open>A row whose key has an entry.\<close>

lemma grouped_found:
  assumes "holds_sums sc q rs sums" "grouped sc q sums f seen keys groups" "i < length rs"
    and "entry_of groups (f (rs ! i)) = Some j"
  shows "case aggregate_value sc q (members f (f (rs ! i)) (seen @ [rs ! i])) of
      None \<Rightarrow> accumulate q sums i (f (rs ! i)) (snd (groups ! j)) =
        Err (QSumOverflowInGroup (q_SumColumn q) (f (rs ! i)))
    | Some v \<Rightarrow> \<exists>a. accumulate q sums i (f (rs ! i)) (snd (groups ! j)) = Ok a \<and>
        grouped sc q sums f (seen @ [rs ! i]) keys (groups[j := (fst (groups ! j), a)])"
proof -
  let ?k = "f (rs ! i)"
  have j: "j < length groups" "key_eq (keys ! j) ?k"
    using entry_of_Some [OF assms(4)] grouped_fst [OF assms(2)] by auto
  have keys: "keys = discovered (map f seen)" "map fst groups = keys"
    using assms(2) by (simp_all add: grouped_def)
  have mem: "members f ?k (seen @ [rs ! i]) = members f (keys ! j) seen @ [rs ! i]"
    using j(2) members_same [OF j(2), of f "seen @ [rs ! i]"] by (simp add: members_snoc)
  have fit: "fits sc q sums (members f (keys ! j) seen) (snd (groups ! j))"
    using assms(2) j(1) key_eq_refl_left [OF j(2)] unfolding grouped_def by blast
  have same: "discovered (map f (seen @ [rs ! i])) = keys"
    using j keys grouped_length [OF assms(2)] by (auto simp: discovered_snoc add_key_def)
  have other: "\<not> key_eq (keys ! l) ?k" if "l < length groups" "l \<noteq> j" for l
  proof
    assume "key_eq (keys ! l) ?k"
    then have "key_eq (keys ! l) (keys ! j)" using j(2) key_eq_sym key_eq_trans by blast
    with that j(1) grouped_length [OF assms(2)] show False
      using discovered_unique [of l "map f seen" j] keys(1) by simp
  qed
  have "grouped sc q sums f (seen @ [rs ! i]) keys (groups[j := (fst (groups ! j), a)])"
    if a: "fits sc q sums (members f (keys ! j) seen @ [rs ! i]) a" for a
  proof -
    have "map fst (groups[j := (fst (groups ! j), a)]) = keys"
      using keys(2) grouped_fst [OF assms(2) j(1)] by (simp add: map_update)
    moreover have "fits sc q sums (members f (keys ! l) (seen @ [rs ! i])) (snd (groups[j := (fst (groups ! j), a)] ! l))"
      if "l < length groups" "key_eq (keys ! l) (keys ! l)" for l
      using that a j assms(2) other [of l]
      by (cases "l = j") (auto simp: members_snoc grouped_def)
    ultimately show ?thesis using same by (simp add: grouped_def)
  qed
  then show ?thesis
    using accumulate_fits [OF assms(1) fit assms(3), of ?k] by (auto simp: mem split: option.splits)
qed

text \<open>A row with a new key.\<close>

lemma grouped_new:
  assumes "holds_sums sc q rs sums" "grouped sc q sums f seen keys groups" "i < length rs"
    and "entry_of groups (f (rs ! i)) = None"
  shows "aggregate_value sc q (members f (f (rs ! i)) (seen @ [rs ! i])) \<noteq> None \<and>
    (\<exists>a. accumulate q sums i (f (rs ! i)) empty_accumulator = Ok a \<and>
       grouped sc q sums f (seen @ [rs ! i]) (keys @ [f (rs ! i)])
         (groups @ [(f (rs ! i), a)]))"
proof -
  let ?k = "f (rs ! i)"
  have keys: "keys = discovered (map f seen)" "map fst groups = keys"
    using assms(2) by (simp_all add: grouped_def)
  have none: "\<forall>k' \<in> set keys. \<not> key_eq k' ?k"
    using assms(4) keys(2) by (simp add: entry_of_None)
  have "members f ?k seen = []"
  proof (rule ccontr)
    assume "members f ?k seen \<noteq> []"
    then obtain r where r: "r \<in> set seen" "key_eq ?k (f r)"
      by (auto simp: members_def filter_empty_conv)
    then obtain k' where "k' \<in> set keys" "key_eq k' (f r)"
      using discovered_covers [of "f r" "map f seen"] key_eq_sym key_eq_trans keys(1) by (metis image_eqI list.set_map)
    with r(2) none show False using key_eq_sym key_eq_trans by blast
  qed
  then have mem: "members f ?k (seen @ [rs ! i]) = (if key_eq ?k ?k then [rs ! i] else [])"
    by (simp add: members_snoc)
  obtain a where a: "accumulate q sums i ?k empty_accumulator = Ok a" "fits sc q sums [rs ! i] a"
    using accumulate_fresh [OF assms(1,3)] by blast
  have "aggregate_value sc q (members f ?k (seen @ [rs ! i])) \<noteq> None"
    using a(2) fits_empty [OF assms(1)] mem by (auto simp: fits_def)
  moreover have "grouped sc q sums f (seen @ [rs ! i]) (keys @ [?k]) (groups @ [(?k, a)])"
  proof -
    have "discovered (map f (seen @ [rs ! i])) = keys @ [?k]"
      using none keys(1) by (auto simp: discovered_snoc add_key_def)
    moreover have "fits sc q sums (members f ((keys @ [?k]) ! l) (seen @ [rs ! i])) (snd ((groups @ [(?k, a)]) ! l))"
      if l: "l < Suc (length groups)" "key_eq ((keys @ [?k]) ! l) ((keys @ [?k]) ! l)" for l
    proof (cases "l < length groups")
      case True
      then have "keys ! l \<in> set keys" using grouped_length [OF assms(2)] by simp
      then show ?thesis
        using True l(2) none assms(2) grouped_length [OF assms(2)]
        by (auto simp: nth_append grouped_def members_snoc)
    next
      case False
      with l grouped_length [OF assms(2)] have "l = length groups" "key_eq ?k ?k" by (auto simp: nth_append)
      then show ?thesis using a(2) mem grouped_length [OF assms(2)] by (simp add: nth_append)
    qed
    ultimately show ?thesis using keys(2) by (simp add: grouped_def)
  qed
  ultimately show ?thesis using a(1) by blast
qed

lemma group_rows_spec:
  assumes "holds_sums sc q rs sums" "column_cells gCol = map f rs" "selects selection filtered p rs"
    and "\<forall>i \<in> set is. i < length rs" "grouped sc q sums f seen keys groups"
  shows "case first_overflow sc q f seen (filter p (map ((!) rs) is)) of
      Some r \<Rightarrow> group_rows q sums gCol selection filtered is keys groups =
        Err (QSumOverflowInGroup (q_SumColumn q) (f r))
    | None \<Rightarrow> \<exists>keys' groups'. group_rows q sums gCol selection filtered is keys groups = Ok (keys', groups') \<and>
        grouped sc q sums f (seen @ filter p (map ((!) rs) is)) keys' groups'"
  using assms(4,5)
proof (induction "is" arbitrary: seen keys groups)
  case (Cons i "is")
  then have i: "i < length rs" and is': "\<forall>i \<in> set is. i < length rs" by auto
  note skip = skipped_selects [OF assms(3) i]
  have key: "rowValueAt gCol i = Ok (f (rs ! i))"
    using rowValueAt_cells [of i gCol] assms(2) i by simp
  show ?case
  proof (cases "p (rs ! i)")
    case False
    with Cons.IH [OF is' Cons.prems(2)] show ?thesis by (simp add: skip split: option.splits)
  next
    case True
    show ?thesis
    proof (cases "entry_of groups (f (rs ! i))")
      case None
      from grouped_new [OF assms(1) Cons.prems(2) i None] obtain a where
        "aggregate_value sc q (members f (f (rs ! i)) (seen @ [rs ! i])) \<noteq> None"
        "accumulate q sums i (f (rs ! i)) empty_accumulator = Ok a"
        and g: "grouped sc q sums f (seen @ [rs ! i]) (keys @ [f (rs ! i)]) (groups @ [(f (rs ! i), a)])"
        by blast
      with Cons.IH [OF is' g] True None show ?thesis by (simp add: skip key split: option.splits)
    next
      case (Some j)
      note found = grouped_found [OF assms(1) Cons.prems(2) i Some]
      show ?thesis
      proof (cases "aggregate_value sc q (members f (f (rs ! i)) (seen @ [rs ! i]))")
        case None
        with found True Some show ?thesis by (simp add: skip key)
      next
        case (Some v)
        with found obtain a where "accumulate q sums i (f (rs ! i)) (snd (groups ! j)) = Ok a"
          and g: "grouped sc q sums f (seen @ [rs ! i]) keys (groups[j := (fst (groups ! j), a)])"
          by auto
        with Cons.IH [OF is' g] True Some \<open>entry_of groups (f (rs ! i)) = Some j\<close>
        show ?thesis by (simp add: skip key split: option.splits)
      qed
    qed
  qed
qed simp

section \<open>The emitted rows\<close>

lemma emit_groups_spec:
  assumes "\<forall>k \<in> set ks. (case entry_of groups k of
      None \<Rightarrow> \<not> key_eq k k
    | Some j \<Rightarrow> key_eq k k \<and> aggregate_cell q sums (Some (snd (groups ! j))) = Ok (g k))"
    and "holds_sums sc q rs sums"
  shows "emit_groups q sums groups ks =
    (if \<exists>k \<in> set ks. \<not> key_eq k k then Panic NilDereference else Ok (map (\<lambda>k. [k, g k]) ks))"
  using assms(1)
proof (induction ks)
  case (Cons k ks)
  have nil: "aggregate_cell q sums None = Panic NilDereference"
    using assms(2) by (auto simp: holds_sums_def aggregate_cell_def split: if_splits)
  show ?case
    using Cons nil by (cases "entry_of groups k") auto
qed simp

lemma entry_of_discovered:
  assumes "map fst groups = discovered ks" "j < length groups"
  shows "entry_of groups (discovered ks ! j) =
    (if key_eq (discovered ks ! j) (discovered ks ! j) then Some j else None)"
proof (cases "key_eq (discovered ks ! j) (discovered ks ! j)")
  case True
  have len: "length groups = length (discovered ks)" using assms(1) by (metis length_map)
  have "entry_of groups (discovered ks ! j) \<noteq> None"
    using True assms len by (auto simp: entry_of_None)
  then obtain l where l: "entry_of groups (discovered ks ! j) = Some l" by blast
  from entry_of_Some [OF l] have "l < length groups" "key_eq (discovered ks ! l) (discovered ks ! j)"
    using assms(1) by (metis nth_map)+
  with discovered_unique assms(2) len have "l = j" by metis
  with l True show ?thesis by simp
next
  case False
  then have "\<not> key_eq k' (discovered ks ! j)" for k'
    using key_eq_sym key_eq_refl_left by blast
  with False show ?thesis by (simp add: entry_of_None)
qed

text \<open>The reference semantics of a grouped query over the selected rows.\<close>

definition group_outcome :: "schema \<Rightarrow> query \<Rightarrow> row list \<Rightarrow> (query_error, row list) outcome" where
  "group_outcome sc q rows =
     (let f = cell sc (q_GroupBy q)
      in case first_overflow sc q f [] rows of
           Some r \<Rightarrow> Err (QSumOverflowInGroup (q_SumColumn q) (f r))
         | None \<Rightarrow>
             if \<exists>r \<in> set rows. \<not> key_eq (f r) (f r) then Panic NilDereference
             else Ok (map (\<lambda>k. [k, the (aggregate_value sc q (members f k rows))]) (discovered (map f rows))))"

lemma emit_grouped:
  assumes "grouped sc q sums f seen keys groups" "holds_sums sc q rs sums"
  shows "emit_groups q sums groups keys =
    (if \<exists>r \<in> set seen. \<not> key_eq (f r) (f r) then Panic NilDereference
     else Ok (map (\<lambda>k. [k, the (aggregate_value sc q (members f k seen))]) (discovered (map f seen))))"
proof -
  let ?g = "\<lambda>k. the (aggregate_value sc q (members f k seen))"
  have keys: "keys = discovered (map f seen)" "map fst groups = discovered (map f seen)"
    using assms(1) by (simp_all add: grouped_def)
  have "case entry_of groups k of
      None \<Rightarrow> \<not> key_eq k k
    | Some j \<Rightarrow> key_eq k k \<and> aggregate_cell q sums (Some (snd (groups ! j))) = Ok (?g k)"
    if k: "k \<in> set keys" for k
  proof -
    obtain j where j: "j < length groups" "k = keys ! j"
      using k grouped_length [OF assms(1)] by (metis in_set_conv_nth)
    show ?thesis
    proof (cases "key_eq k k")
      case True
      then have "fits sc q sums (members f k seen) (snd (groups ! j))"
        using assms(1) j unfolding grouped_def by blast
      with True j entry_of_discovered [OF keys(2) j(1)] keys(1) show ?thesis by (auto simp: fits_def)
    next
      case False
      with j entry_of_discovered [OF keys(2) j(1)] keys(1) show ?thesis by simp
    qed
  qed
  then have emit: "emit_groups q sums groups keys =
      (if \<exists>k \<in> set keys. \<not> key_eq k k then Panic NilDereference else Ok (map (\<lambda>k. [k, ?g k]) keys))"
    by (intro emit_groups_spec [OF _ assms(2)]) blast
  have "(\<exists>k \<in> set keys. \<not> key_eq k k) \<longleftrightarrow> (\<exists>r \<in> set seen. \<not> key_eq (f r) (f r))"
    using discovered_subset [of "map f seen"] discovered_nan [of _ "map f seen"] unfolding keys(1) by fastforce
  with emit show ?thesis by (simp add: keys(1))
qed

section \<open>execGrouped\<close>

text \<open>The checks before the loop.\<close>

definition check_grouped :: "schema \<Rightarrow> query \<Rightarrow> (query_error, unit) outcome" where
  "check_grouped sc q =
     (if ColumnIndex sc (q_GroupBy q) = None then Err (QUnknownColumn (q_GroupBy q) InGroupBy)
      else if q_GroupAgg q \<noteq> AggSumColumn then Ok ()
      else if ColumnIndex sc (q_SumColumn q) = None then Err (QUnknownColumn (q_SumColumn q) InSum)
      else if type_at sc (q_SumColumn q) \<noteq> Int64 \<and> type_at sc (q_SumColumn q) \<noteq> Float64
        then Err (QCannotSum (type_at sc (q_SumColumn q)) (q_SumColumn q))
      else Ok ())"

lemma answers_read_sum_column:
  assumes "presents s rs" "seg_schema s = sc" "ColumnIndex sc (q_GroupBy q) \<noteq> None"
    and "\<forall>i. q_GroupAgg q \<noteq> OtherAggregate i"
  shows "\<exists>sums. answers sc rs (read_sum_column sc q s) (bind_ok (check_grouped sc q) (\<lambda>_. Ok sums)) \<and>
    (check_grouped sc q = Ok () \<longrightarrow> holds_sums sc q rs sums)"
proof (cases "q_GroupAgg q = AggSumColumn \<and> ColumnIndex sc (q_SumColumn q) \<noteq> None \<and>
    (type_at sc (q_SumColumn q) = Int64 \<or> type_at sc (q_SumColumn q) = Float64)")
  case False
  then show ?thesis
    using assms answers_pure [OF assms(1,2)]
    by (intro exI [of _ NoSum])
      (cases "q_GroupAgg q"; auto simp: read_sum_column_def check_grouped_def holds_sums_def Let_def)
next
  case True
  let ?c = "q_SumColumn q"
  from True obtain idx where idx: "ColumnIndex sc ?c = Some idx" by blast
  obtain d where d: "answers sc rs (read_column_for SumColumn ?c s) (Ok d)"
    "column_cells d = map (cell sc ?c) rs" "column_data_type d = type_at sc ?c"
    using answers_read [OF assms(1,2) idx, of SumColumn] by (auto simp: cell_def idx)
  have no: "\<not> (col_type (schema_columns sc ! idx) \<noteq> Int64 \<and> col_type (schema_columns sc ! idx) \<noteq> Float64)"
    using True idx by simp
  obtain sums where sums: "(case (type_at sc ?c, d) of
        (Int64, Int64s xs) \<Rightarrow> Ok (IntSum xs)
      | (Float64, Float64s xs) \<Rightarrow> Ok (FloatSum xs)
      | _ \<Rightarrow> Panic TypeAssertion) = (Ok sums :: (query_error, sum_column) outcome)" "holds_sums sc q rs sums"
    using True d(3) typed_cells [OF d(2)] by (auto simp: holds_sums_def)
  have "answers sc rs (read_sum_column sc q s) (bind_ok (Ok d) (\<lambda>v.
      case (type_at sc ?c, v) of
        (Int64, Int64s xs) \<Rightarrow> Ok (IntSum xs)
      | (Float64, Float64s xs) \<Rightarrow> Ok (FloatSum xs)
      | _ \<Rightarrow> Panic TypeAssertion))"
    using True
    by (simp only: read_sum_column_def idx option.case option.sel Let_def if_not_P [OF no] simp_thms if_False)
      (rule answers_and_then [OF d(1)], rule answers_pure)
  with sums have "answers sc rs (read_sum_column sc q s) (Ok sums)" by simp
  moreover have "check_grouped sc q = Ok ()" using True assms(3) by (auto simp: check_grouped_def)
  ultimately show ?thesis using sums(2) by auto
qed

definition grouped_header :: "query \<Rightarrow> string list" where
  "grouped_header q =
     [q_GroupBy q, if q_GroupAgg q = AggSumColumn then sum_header (q_SumColumn q) else ''COUNT(*)'']"

lemma answers_execGrouped:
  assumes "presents s rs" "seg_schema s = sc" "selects selection filtered p rs"
    and "\<forall>i. q_GroupAgg q \<noteq> OtherAggregate i"
  shows "answers sc rs (execGrouped sc q selection filtered s)
    (bind_ok (check_grouped sc q) (\<lambda>_. bind_ok (group_outcome sc q (filter p rs)) (\<lambda>rows.
      Ok \<lparr>res_Columns = grouped_header q, res_Rows = rows, res_isAggregate = False\<rparr>)))"
proof (cases "ColumnIndex sc (q_GroupBy q)")
  case None
  then show ?thesis
    using answers_pure [OF assms(1,2)] by (simp add: execGrouped_def check_grouped_def)
next
  case (Some idx)
  let ?f = "cell sc (q_GroupBy q)"
  obtain d where d: "answers sc rs (read_column_for GroupColumn (q_GroupBy q) s) (Ok d)"
    "column_cells d = map ?f rs"
    using answers_read [OF assms(1,2) Some, of GroupColumn] by (auto simp: cell_def Some)
  let ?loop = "\<lambda>sums. bind_ok (group_rows q sums d selection filtered [0..<length rs] [] []) (\<lambda>(keys, groups).
      bind_ok (emit_groups q sums groups keys) (\<lambda>rows.
        Ok \<lparr>res_Columns = grouped_header q, res_Rows = rows, res_isAggregate = False\<rparr>))"
  have loop: "?loop sums = bind_ok (group_outcome sc q (filter p rs)) (\<lambda>rows.
      Ok \<lparr>res_Columns = grouped_header q, res_Rows = rows, res_isAggregate = False\<rparr>)"
    if sums: "holds_sums sc q rs sums" for sums
  proof -
    have start: "grouped sc q sums ?f [] [] []" by (simp add: grouped_def discovered_def)
    have all: "map ((!) rs) [0..<length rs] = rs" by (rule map_nth)
    note spec = group_rows_spec [OF sums d(2) assms(3) _ start, of "[0..<length rs]", unfolded all]
    show ?thesis
    proof (cases "first_overflow sc q ?f [] (filter p rs)")
      case None
      with spec obtain keys groups where
        "group_rows q sums d selection filtered [0..<length rs] [] [] = Ok (keys, groups)"
        "grouped sc q sums ?f (filter p rs) keys groups"
        by auto
      with None show ?thesis
        using emit_grouped [OF _ sums] by (simp add: group_outcome_def Let_def)
    next
      case (Some r)
      with spec show ?thesis by (simp add: group_outcome_def Let_def)
    qed
  qed
  have "answers sc rs (and_then (read_sum_column sc q s1) (\<lambda>sums s.
      let rowTotal = int_of_uint64 (seg_rowCount s)
      in (s, bind_ok (group_rows q sums d selection filtered [0..<nat rowTotal] [] []) (\<lambda>(keys, groups).
           bind_ok (emit_groups q sums groups keys) (\<lambda>rows.
             Ok \<lparr>res_Columns = grouped_header q, res_Rows = rows, res_isAggregate = False\<rparr>)))))
      (bind_ok (check_grouped sc q) (\<lambda>_. bind_ok (group_outcome sc q (filter p rs)) (\<lambda>rows.
        Ok \<lparr>res_Columns = grouped_header q, res_Rows = rows, res_isAggregate = False\<rparr>)))"
    if s1: "presents s1 rs" "seg_schema s1 = sc" for s1
  proof -
    have "ColumnIndex sc (q_GroupBy q) \<noteq> None" using Some by simp
    from answers_read_sum_column [OF s1 this assms(4)] obtain sums where
      sums: "answers sc rs (read_sum_column sc q s1) (bind_ok (check_grouped sc q) (\<lambda>_. Ok sums))"
        "check_grouped sc q = Ok () \<longrightarrow> holds_sums sc q rs sums"
      by blast
    have "answers sc rs (and_then (read_sum_column sc q s1) (\<lambda>sums s.
        let rowTotal = int_of_uint64 (seg_rowCount s)
        in (s, bind_ok (group_rows q sums d selection filtered [0..<nat rowTotal] [] []) (\<lambda>(keys, groups).
             bind_ok (emit_groups q sums groups keys) (\<lambda>rows.
               Ok \<lparr>res_Columns = grouped_header q, res_Rows = rows, res_isAggregate = False\<rparr>)))))
        (bind_ok (bind_ok (check_grouped sc q) (\<lambda>_. Ok sums)) ?loop)"
      by (rule answers_and_then [OF sums(1)]) (simp add: answers_def presents_def)
    moreover have "bind_ok (bind_ok (check_grouped sc q) (\<lambda>_. Ok sums)) ?loop =
        bind_ok (check_grouped sc q) (\<lambda>_. bind_ok (group_outcome sc q (filter p rs)) (\<lambda>rows.
          Ok \<lparr>res_Columns = grouped_header q, res_Rows = rows, res_isAggregate = False\<rparr>))"
      using sums(2) loop by (cases "check_grouped sc q") simp_all
    ultimately show ?thesis by simp
  qed
  note step = this
  have "answers sc rs (execGrouped sc q selection filtered s) (bind_ok (Ok d) (\<lambda>_.
      bind_ok (check_grouped sc q) (\<lambda>_. bind_ok (group_outcome sc q (filter p rs)) (\<lambda>rows.
        Ok \<lparr>res_Columns = grouped_header q, res_Rows = rows, res_isAggregate = False\<rparr>))))"
    unfolding execGrouped_def Some option.case grouped_header_def [symmetric]
    by (rule answers_and_then [OF d(1)]) (use step in simp)
  then show ?thesis by simp
qed

end
