(* ===== verification/ExecSafety.thy ===== *)
theory ExecSafety
  imports GroupFacts
begin

text \<open>
  Type safety of queries on arbitrary files: whatever bytes were parsed, whatever text was parsed, no
  index, type assertion or dereference of the executor fails, as long as the row count can be
  allocated and no \<open>float64\<close> column is grouped by. Columns may fail to decode, which is an error.
\<close>

section \<open>Safe steps\<close>

text \<open>A segment with \<open>n\<close> rows whose blocks lie in the file and whose cache is coherent.\<close>

definition sound :: "schema \<Rightarrow> nat \<Rightarrow> segment \<Rightarrow> bool" where
  "sound sc n s \<longleftrightarrow>
     wf_segment s \<and> seg_schema s = sc \<and> int_of_uint64 (seg_rowCount s) = int n \<and> 24 * int n \<le> max_alloc"

definition runs :: "schema \<Rightarrow> nat \<Rightarrow> ('a \<Rightarrow> bool) \<Rightarrow> 'a step \<Rightarrow> bool" where
  "runs sc n P m \<longleftrightarrow>
     sound sc n (fst m) \<and> (case snd m of Ok x \<Rightarrow> P x | Err _ \<Rightarrow> True | Panic _ \<Rightarrow> False)"

definition safe :: "('a \<Rightarrow> bool) \<Rightarrow> (query_error, 'a) outcome \<Rightarrow> bool" where
  "safe P r \<longleftrightarrow> (case r of Ok x \<Rightarrow> P x | Err _ \<Rightarrow> True | Panic _ \<Rightarrow> False)"

lemma safe_simps [simp]:
  "safe P (Ok x) = P x"
  "safe P (Err e)"
  "\<not> safe P (Panic p)"
  by (simp_all add: safe_def)

lemma safe_bind: "safe P r \<Longrightarrow> (\<And>x. P x \<Longrightarrow> safe Q (k x)) \<Longrightarrow> safe Q (bind_ok r k)"
  by (cases r) auto

lemma runs_pure: "sound sc n s \<Longrightarrow> safe P r \<Longrightarrow> runs sc n P (s, r)"
  by (simp add: runs_def safe_def)

lemma runs_and_then:
  "runs sc n P m \<Longrightarrow> (\<And>x s. P x \<Longrightarrow> sound sc n s \<Longrightarrow> runs sc n Q (k x s)) \<Longrightarrow> runs sc n Q (and_then m k)"
  by (cases m; cases "snd m") (auto simp: runs_def and_then_def)

text \<open>What a column read yields: a column of the schema's type with all rows.\<close>

definition column_for :: "schema \<Rightarrow> nat \<Rightarrow> string \<Rightarrow> column_data \<Rightarrow> bool" where
  "column_for sc n name d \<longleftrightarrow>
     column_length d = n \<and> ColumnIndex sc name \<noteq> None \<and> column_data_type d = type_at sc name"

lemma runs_read:
  assumes "sound sc n s"
  shows "runs sc n (column_for sc n name) (read_column_for u name s)"
proof -
  obtain s' r where r: "ReadColumn s name = (s', r)" by (cases "ReadColumn s name")
  have wf: "wf_segment s" using assms by (simp add: sound_def)
  then have co: "coherent s" by (simp add: wf_segment_def)
  note facts = ReadColumn_wf [OF wf r] ReadColumn_coherent [OF co r]
  have s': "sound sc n s'" using assms facts by (simp add: sound_def)
  have "rows_allocatable s" using assms by (simp add: sound_def rows_allocatable_def)
  then have "\<not> panics r" using decode_column_no_panic wf facts(2) by (simp add: wf_segment_def)
  moreover have "column_for sc n name d" if "r = Ok d" for d
    using that facts(2) assms by (auto simp: column_for_def sound_def elim!: decode_column_Ok)
  ultimately show ?thesis
    using s' r by (cases r) (auto simp: read_column_for_def runs_def)
qed

section \<open>WHERE\<close>

lemma column_for_cases:
  assumes "column_for sc n name d"
  shows "type_at sc name = Int64 \<Longrightarrow> \<exists>xs. d = Int64s xs \<and> length xs = n"
    and "type_at sc name = Float64 \<Longrightarrow> \<exists>xs. d = Float64s xs \<and> length xs = n"
    and "type_at sc name = String \<Longrightarrow> \<exists>xs. d = Strings xs \<and> length xs = n"
  using assms by (cases d; auto simp: column_for_def)+

lemma runs_evalComparison:
  assumes "sound sc n s"
  shows "runs sc n (\<lambda>sel. length sel = n) (evalComparison sc c s)"
proof (cases "ColumnIndex sc (cmp_Column c)")
  case None
  then show ?thesis by (simp add: evalComparison_def runs_pure assms)
next
  case (Some idx)
  have scan: "safe (\<lambda>sel. length sel = n) (applyComparison d (type_at sc (cmp_Column c)) c)"
    if "column_for sc n (cmp_Column c) d" "has_type (cmp_Value c) (type_at sc (cmp_Column c))" for d
    using that(2) column_for_cases [OF that(1)]
    by (cases "type_at sc (cmp_Column c)")
      (auto simp: applyComparison_def scanInt64_def scanFloat64_def scanString_def)
  have check: "safe (\<lambda>_. has_type (cmp_Value c) t) (checkLiteralType c t)" for t
    by (cases t) (auto simp: checkLiteralType_def)
  show ?thesis
    using scan unfolding evalComparison_def Some option.case option.sel Let_def
    by (intro runs_and_then [OF runs_pure [OF assms check]] runs_and_then [OF runs_read] runs_pure) auto
qed

lemma combine_safe:
  "length acc + i = length next \<Longrightarrow> safe (\<lambda>sel. length sel = length acc) (combine_and i acc next)"
  "length acc + i = length next \<Longrightarrow> safe (\<lambda>sel. length sel = length acc) (combine_or i acc next)"
proof (induction acc arbitrary: i)
  case (Cons a acc)
  { case 1
    then have "safe (\<lambda>sel. length sel = length acc) (combine_and (Suc i) acc next)" using Cons by simp
    then show ?case using 1 by (auto intro: safe_bind) }
  { case 2
    then have "safe (\<lambda>sel. length sel = length acc) (combine_or (Suc i) acc next)" using Cons by simp
    then show ?case using 2 by (auto intro: safe_bind) }
qed simp_all

lemma runs_evaluate_all:
  "walkable e \<and> sound sc n s \<longrightarrow> runs sc n (\<lambda>sel. length sel = n) (evaluate sc e s)"
  "(\<forall>e \<in> set es. walkable e) \<and> sound sc n s \<and> length acc = n \<longrightarrow>
   runs sc n (\<lambda>sel. length sel = n) (evaluate_and sc es acc s)"
  "(\<forall>e \<in> set es. walkable e) \<and> sound sc n s \<and> length acc = n \<longrightarrow>
   runs sc n (\<lambda>sel. length sel = n) (evaluate_or sc es acc s)"
proof (induction sc e s and sc es acc s and sc es acc s rule: evaluate_evaluate_and_evaluate_or.induct)
  case (8 sc e es acc s)
  then show ?case
    using combine_safe(1) [of _ 0]
    by (auto intro!: runs_and_then [where P = "\<lambda>sel. length sel = n"] runs_pure) (metis add_0_right)
next
  case (10 sc e es acc s)
  then show ?case
    using combine_safe(2) [of _ 0]
    by (auto intro!: runs_and_then [where P = "\<lambda>sel. length sel = n"] runs_pure) (metis add_0_right)
qed (auto intro: runs_pure runs_and_then [where P = "\<lambda>sel. length sel = n"] simp: runs_evalComparison)

lemmas runs_evaluate = runs_evaluate_all(1) [rule_format, OF conjI]

section \<open>Aggregates and projections\<close>

text \<open>A selection vector covers all rows.\<close>

definition covers :: "bool list \<Rightarrow> bool \<Rightarrow> nat \<Rightarrow> bool" where
  "covers selection filtered n \<longleftrightarrow> (filtered \<longrightarrow> length selection = n)"

lemma skipped_safe: "covers selection filtered n \<Longrightarrow> i < n \<Longrightarrow> safe (\<lambda>_. True) (skipped selection filtered i)"
  by (auto simp: covers_def skipped_def)

lemma sum_int64_safe:
  "covers selection filtered n \<Longrightarrow> length xs + i = n \<Longrightarrow>
   safe (\<lambda>_. True) (sum_int64 col selection filtered i xs t)"
proof (induction xs arbitrary: i t)
  case (Cons x xs)
  then show ?case
    by (auto intro!: safe_bind [OF skipped_safe [of selection filtered n i]] split: prod.split)
qed simp

lemma sum_float64_safe:
  "covers selection filtered n \<Longrightarrow> length xs + i = n \<Longrightarrow>
   safe (\<lambda>_. True) (sum_float64 selection filtered i xs t)"
proof (induction xs arbitrary: i t)
  case (Cons x xs)
  then show ?case
    by (auto intro!: safe_bind [OF skipped_safe [of selection filtered n i]])
qed simp

lemma runs_execSum:
  assumes "sound sc n s" "covers selection filtered n"
  shows "runs sc n (\<lambda>_. True) (execSum col sc selection filtered s)"
proof (cases "ColumnIndex sc col")
  case None
  then show ?thesis by (simp add: execSum_def runs_pure assms)
next
  case (Some idx)
  show ?thesis
  proof (cases "type_at sc col \<noteq> Int64 \<and> type_at sc col \<noteq> Float64")
    case True
    then show ?thesis using Some by (simp add: execSum_def runs_pure assms)
  next
    case False
    have "safe (\<lambda>_. True) (if type_at sc col = Int64 then
          (case v of
             Int64s vals \<Rightarrow> bind_ok (sum_int64 col selection filtered 0 vals 0) (\<lambda>acc.
               Ok \<lparr>res_Columns = [sum_header col], res_Rows = [[VInt64 acc]], res_isAggregate = True\<rparr>)
           | _ \<Rightarrow> Panic TypeAssertion)
        else if type_at sc col = Float64 then
          (case v of
             Float64s vals \<Rightarrow> bind_ok (sum_float64 selection filtered 0 vals f_zero) (\<lambda>acc.
               Ok \<lparr>res_Columns = [sum_header col], res_Rows = [[VFloat64 acc]], res_isAggregate = True\<rparr>)
           | _ \<Rightarrow> Panic TypeAssertion)
        else Err QUnreachable)"
      if "column_for sc n col v" for v
      using False column_for_cases [OF that]
      by (auto intro!: safe_bind [OF sum_int64_safe [OF assms(2)]]
          safe_bind [OF sum_float64_safe [OF assms(2)]])
    then show ?thesis
      unfolding execSum_def Some option.case option.sel Let_def if_not_P [OF False [unfolded Some option.sel]]
      by (intro runs_and_then [OF runs_read [OF assms(1)]] runs_pure) (auto simp: Some)
  qed
qed

lemma runs_read_all:
  "sound sc n s \<Longrightarrow> runs sc n (\<lambda>ds. \<forall>d \<in> set ds. column_length d = n) (read_all ns s)"
proof (induction ns arbitrary: s)
  case (Cons m ns)
  show ?case
    unfolding read_all.simps
    by (intro runs_and_then [OF runs_read [OF Cons.prems]] runs_and_then [OF Cons.IH] runs_pure)
      (auto simp: column_for_def)
qed (simp add: runs_pure)

lemma rowValueAt_safe: "i < column_length d \<Longrightarrow> rowValueAt d i = Ok (column_cells d ! i)"
  by (cases d) auto

lemma row_values_safe:
  "\<forall>d \<in> set ds. column_length d = n \<Longrightarrow> i < n \<Longrightarrow> safe (\<lambda>_. True) (row_values ds i)"
proof (induction ds)
  case (Cons d ds)
  then have "safe (\<lambda>_. True) (row_values ds i)" by simp
  with Cons.prems show ?case by (auto simp: rowValueAt_safe intro: safe_bind)
qed simp

lemma project_rows_safe:
  assumes "\<forall>d \<in> set ds. column_length d = n" "covers selection filtered n" "\<forall>i \<in> set is. i < n"
  shows "safe (\<lambda>_. True) (project_rows ds selection filtered is)"
  using assms(3)
proof (induction "is")
  case (Cons i "is")
  then have i: "i < n" and rest: "safe (\<lambda>_. True) (project_rows ds selection filtered is)" by auto
  show ?case
    using rest safe_bind [OF rest, of "\<lambda>_. True" "\<lambda>rows. Ok (row # rows)" for row]
    by (auto intro!: safe_bind [OF skipped_safe [OF assms(2) i]] safe_bind [OF row_values_safe [OF assms(1) i]])
qed simp

lemma count_int_bounds: "n \<le> count_int n bs" "count_int n bs \<le> n + int (length bs)"
proof -
  have "count_int n bs = n + int (length (filter id bs))"
    by (induction bs arbitrary: n) auto
  then show "n \<le> count_int n bs" "count_int n bs \<le> n + int (length bs)"
    using length_filter_le [of id bs] by simp_all
qed

lemma runs_execProject:
  assumes "sound sc n s" "covers selection filtered n"
  shows "runs sc n (\<lambda>_. True) (execProject ns selection filtered s)"
proof -
  have n: "24 * int n \<le> max_alloc" using assms(1) by (simp add: sound_def)
  have "0 \<le> estimateRows (int n) selection filtered \<and> estimateRows (int n) selection filtered \<le> int n"
    using assms(2) count_int_bounds [of 0 selection] by (auto simp: estimateRows_def covers_def)
  with n have alloc: "make_slice 24 (estimateRows (int n) selection filtered) = Ok ()"
    by simp
  show ?thesis
    unfolding execProject_def
    by (intro runs_and_then [OF runs_read_all [OF assms(1)]])
      (auto simp: sound_def alloc intro!: runs_pure safe_bind [OF project_rows_safe [OF _ assms(2)]])
qed

section \<open>Groups without floating-point keys\<close>

definition plain_key :: "go_value \<Rightarrow> bool" where
  "plain_key k \<longleftrightarrow> (\<exists>x. k = VInt64 x) \<or> (\<exists>x. k = VString x)"

lemma plain_key_eq: "plain_key k \<Longrightarrow> key_eq k k' \<longleftrightarrow> k = k'"
  by (cases k; cases k') (auto simp: plain_key_def)

definition sums_for :: "nat \<Rightarrow> query \<Rightarrow> sum_column \<Rightarrow> bool" where
  "sums_for n q sums \<longleftrightarrow>
     (case sums of NoSum \<Rightarrow> q_GroupAgg q \<noteq> AggSumColumn | IntSum xs \<Rightarrow> length xs = n | FloatSum xs \<Rightarrow> length xs = n)"

lemma runs_read_sum_column:
  assumes "sound sc n s"
  shows "runs sc n (sums_for n q) (read_sum_column sc q s)"
proof (cases "q_GroupAgg q = AggSumColumn \<and> ColumnIndex sc (q_SumColumn q) \<noteq> None \<and>
    (type_at sc (q_SumColumn q) = Int64 \<or> type_at sc (q_SumColumn q) = Float64)")
  case False
  then show ?thesis
    by (cases "ColumnIndex sc (q_SumColumn q)")
      (auto simp: read_sum_column_def sums_for_def Let_def intro!: runs_pure assms)
next
  case True
  let ?c = "q_SumColumn q"
  from True obtain idx where idx: "ColumnIndex sc ?c = Some idx" by blast
  have no: "\<not> (col_type (schema_columns sc ! idx) \<noteq> Int64 \<and> col_type (schema_columns sc ! idx) \<noteq> Float64)"
    using True idx by simp
  have "safe (sums_for n q) (case (type_at sc ?c, v) of
        (Int64, Int64s xs) \<Rightarrow> Ok (IntSum xs)
      | (Float64, Float64s xs) \<Rightarrow> Ok (FloatSum xs)
      | _ \<Rightarrow> Panic TypeAssertion)" if "column_for sc n ?c v" for v
    using True column_for_cases [OF that] by (auto simp: sums_for_def)
  then have "runs sc n (sums_for n q) (and_then (read_column_for SumColumn ?c s) (\<lambda>v s. (s,
      case (type_at sc ?c, v) of
        (Int64, Int64s xs) \<Rightarrow> Ok (IntSum xs)
      | (Float64, Float64s xs) \<Rightarrow> Ok (FloatSum xs)
      | _ \<Rightarrow> Panic TypeAssertion)))"
    by (intro runs_and_then [OF runs_read [OF assms]] runs_pure)
  then show ?thesis
    using True
    by (simp only: read_sum_column_def idx option.case option.sel Let_def if_not_P [OF no] simp_thms if_False)
qed

lemma accumulate_safe: "sums_for n q sums \<Longrightarrow> i < n \<Longrightarrow> safe (\<lambda>_. True) (accumulate q sums i key acc)"
  by (auto simp: accumulate_def sums_for_def split: aggregate_kind.split sum_column.split prod.split)

text \<open>The keys are those of the map, and each of them can be looked up.\<close>

definition found_again :: "go_value list \<times> groups \<Rightarrow> bool" where
  "found_again kg \<longleftrightarrow> (\<forall>k \<in> set (fst kg). plain_key k \<and> k \<in> set (map fst (snd kg)))"

lemma entry_of_plain: "plain_key k \<Longrightarrow> k \<in> set (map fst g) \<Longrightarrow> \<exists>j. entry_of g k = Some j"
  using entry_of_None [of g k] plain_key_eq [of k k] by (cases "entry_of g k") auto

lemma found_again_update:
  assumes "found_again (keys, groups)" "j < length groups"
  shows "found_again (keys, groups[j := (fst (groups ! j), a)])"
proof -
  have "map fst (groups[j := (fst (groups ! j), a)]) = map fst groups"
    using assms(2) by (metis fst_conv list_update_id map_update nth_map)
  with assms(1) show ?thesis unfolding found_again_def snd_conv fst_conv by simp
qed

lemma group_rows_safe:
  assumes "sums_for n q sums" "column_length gCol = n" "covers selection filtered n"
    and "\<forall>k \<in> set (column_cells gCol). plain_key k"
    and "\<forall>i \<in> set is. i < n" "found_again (keys, groups)"
  shows "safe found_again (group_rows q sums gCol selection filtered is keys groups)"
  using assms(5,6)
proof (induction "is" arbitrary: keys groups)
  case (Cons i "is")
  then have i: "i < n" and is': "\<forall>i \<in> set is. i < n" by auto
  let ?k = "column_cells gCol ! i"
  have key: "rowValueAt gCol i = Ok ?k" "plain_key ?k"
    using i assms(2,4) nth_mem [of i "column_cells gCol"] by (auto simp: rowValueAt_safe)
  have next_rows: "safe found_again (bind_ok (accumulate q sums i ?k (snd (groups' ! j))) (\<lambda>acc.
      group_rows q sums gCol selection filtered is keys' (groups'[j := (fst (groups' ! j), acc)])))"
    if "found_again (keys', groups')" "j < length groups'" for keys' groups' j
    using Cons.IH [OF is' found_again_update [OF that]]
    by (intro safe_bind [OF accumulate_safe [OF assms(1) i]])
  show ?case
  proof (cases "entry_of groups ?k")
    case None
    have "found_again (keys @ [?k], groups @ [(?k, empty_accumulator)])"
      using Cons.prems(2) key(2) by (auto simp: found_again_def)
    from next_rows [OF this, of "length groups"] Cons.IH [OF is' Cons.prems(2)] None
    show ?thesis by (auto simp: key intro!: safe_bind [OF skipped_safe [OF assms(3) i]])
  next
    case (Some j)
    with entry_of_Some [OF Some] next_rows [OF Cons.prems(2), of j] Cons.IH [OF is' Cons.prems(2)]
    show ?thesis by (auto simp: key intro!: safe_bind [OF skipped_safe [OF assms(3) i]])
  qed
qed simp

lemma emit_groups_safe:
  "\<forall>k \<in> set ks. plain_key k \<and> k \<in> set (map fst groups) \<Longrightarrow> safe (\<lambda>_. True) (emit_groups q sums groups ks)"
proof (induction ks)
  case (Cons k ks)
  then obtain j where "entry_of groups k = Some j" using entry_of_plain [of k groups] by auto
  with Cons show ?case
    by (auto simp: aggregate_cell_def intro!: safe_bind [where P = "\<lambda>_. True"]
        split: aggregate_kind.split sum_column.split)
qed simp

lemma runs_execGrouped:
  assumes "sound sc n s" "covers selection filtered n"
    and "\<And>idx. ColumnIndex sc (q_GroupBy q) = Some idx \<Longrightarrow> col_type (schema_columns sc ! idx) \<noteq> Float64"
  shows "runs sc n (\<lambda>_. True) (execGrouped sc q selection filtered s)"
proof (cases "ColumnIndex sc (q_GroupBy q)")
  case None
  then show ?thesis by (simp add: execGrouped_def runs_pure assms)
next
  case (Some idx)
  have plain: "\<forall>k \<in> set (column_cells d). plain_key k" if "column_for sc n (q_GroupBy q) d" for d
    using assms(3) [OF Some] that Some by (cases d) (auto simp: column_for_def plain_key_def)
  have loop: "safe (\<lambda>_. True) (bind_ok (group_rows q sums d selection filtered [0..<n] [] []) (\<lambda>(keys, groups).
      bind_ok (emit_groups q sums groups keys) (\<lambda>rows.
        Ok \<lparr>res_Columns = h, res_Rows = rows, res_isAggregate = False\<rparr>)))"
    if "column_for sc n (q_GroupBy q) d" "sums_for n q sums" for d sums h
    using that plain
    by (intro safe_bind [OF group_rows_safe [OF that(2) _ assms(2)]])
      (auto simp: found_again_def column_for_def intro!: safe_bind [OF emit_groups_safe])
  show ?thesis
    unfolding execGrouped_def Some option.case Let_def
    by (intro runs_and_then [OF runs_read [OF assms(1)]] runs_and_then [OF runs_read_sum_column] runs_pure)
      (use loop in \<open>simp_all add: sound_def\<close>)
qed

section \<open>Execute\<close>

lemma runs_Execute:
  assumes "sound sc n s" "wf_query q"
    and "\<And>idx. q_Projection q = ProjGrouped \<Longrightarrow> ColumnIndex sc (q_GroupBy q) = Some idx \<Longrightarrow>
      col_type (schema_columns sc ! idx) \<noteq> Float64"
  shows "runs sc n (\<lambda>_. True) (Execute s q)"
proof -
  have check: "safe (\<lambda>_. True) (check_projection sc ns)" for ns
    by (induction ns) auto
  have wh: "runs sc n (\<lambda>(selection, filtered). covers selection filtered n)
      (case q_Where q of
         None \<Rightarrow> (s1, Ok ([], False))
       | Some e \<Rightarrow> and_then (evaluate sc e s1) (\<lambda>sel s. (s, Ok (sel, True))))"
    if "sound sc n s1" for s1
  proof (cases "q_Where q")
    case None
    then show ?thesis using that by (simp add: runs_pure covers_def)
  next
    case (Some e)
    then have "walkable e" using assms(2) wf_where_walkable by (simp add: wf_query_def)
    then have "runs sc n (\<lambda>(selection, filtered). covers selection filtered n)
        (and_then (evaluate sc e s1) (\<lambda>sel s. (s, Ok (sel, True))))"
      by (intro runs_and_then [OF runs_evaluate [OF _ that]] runs_pure) (auto simp: covers_def)
    with Some show ?thesis by simp
  qed
  have sc: "seg_schema s = sc" using assms(1) by (simp add: sound_def)
  show ?thesis
    unfolding Execute_def Let_def sc
    by (intro runs_and_then [OF runs_pure [OF assms(1) check]] runs_and_then [OF wh])
      (use assms(3) in \<open>auto intro!: runs_pure runs_execSum runs_execProject runs_execGrouped
        split: projection_kind.split\<close>)
qed

text \<open>
  C5: queries on arbitrary files are type-safe. Take any bytes that parse as a segment and any text
  that parses as a query: if the row count of the header can be allocated and the query does not
  group by a \<open>float64\<close> column, \<open>Execute\<close> does not panic: every assertion on a column's Go type and
  every index into a selection vector, a column or a list of children succeeds, although columns may
  be missing, repeated, mistyped or corrupt.
\<close>

theorem queries_do_not_panic:
  assumes "parseSegment data = Ok s" "Parse input = Ok q"
    and "0 \<le> int_of_uint64 (seg_rowCount s)" "24 * int_of_uint64 (seg_rowCount s) \<le> max_alloc"
    and "\<And>idx. q_Projection q = ProjGrouped \<Longrightarrow> ColumnIndex (seg_schema s) (q_GroupBy q) = Some idx \<Longrightarrow>
      col_type (schema_columns (seg_schema s) ! idx) \<noteq> Float64"
  shows "snd (Execute s q) \<noteq> Panic p"
proof -
  have "sound (seg_schema s) (nat (int_of_uint64 (seg_rowCount s))) s"
    using parseSegment_wf(1) [OF assms(1)] assms(3,4) by (simp add: sound_def)
  from runs_Execute [OF this Parse_wf_query [OF assms(2)] assms(5)] show ?thesis
    by (auto simp: runs_def)
qed

theorem queries_do_not_panic_witness:
  "\<exists>s q. parseSegment (segment_bytes example_schema example_buffer example_opts) = Ok s \<and>
     column_names (seg_schema s) = [''id'', ''name''] \<and> seg_rowCount s = 1 \<and>
     Parse ''SELECT *'' = Ok q \<and> (\<forall>p. snd (Execute s q) \<noteq> Panic p)"
proof -
  obtain s where s: "parseSegment (segment_bytes example_schema example_buffer example_opts) = Ok s"
    "seg_schema s = example_schema" "seg_rowCount s = 1"
    by (rule example_segment)
  have "lex ''SELECT *'' = Ok [tok TkKeyword ''SELECT'' 0, tok TkStar ''*'' 7, tok TkEOF [] 8]"
    by (simp add: lex_eval)
  then have q: "Parse ''SELECT *'' = Ok (empty_query\<lparr>q_Projection := ProjStar\<rparr>)"
    by (simp add: parse_eval)
  have "int_of_uint64 (seg_rowCount s) = 1"
    using int_of_uint64_of_nat [of 1] by (simp add: s(3))
  then have "snd (Execute s (empty_query\<lparr>q_Projection := ProjStar\<rparr>)) \<noteq> Panic p" for p
    by (intro queries_do_not_panic [OF s(1) q]) (simp_all add: max_alloc_def)
  with s q show ?thesis by (auto simp: column_names_def example_schema_def)
qed

end
