(* ===== verification/ParserText.thy ===== *)
theory ParserText
  imports ParserFacts
begin

text \<open>
  Statements as text: an abstract syntax of the supported queries, its printing (tokens separated by
  single spaces), and the proof that the tokenizer and the parser read the printed text back.
\<close>

section \<open>Abstract syntax\<close>

datatype literal =
    IntLiteral int64
  | FloatLiteral bool string string
  | StringLiteral string

record condition =
  cd_column :: string
  cd_op :: filter_op
  cd_literal :: literal

datatype connective = AndAlso | OrElse

datatype projection =
    SelectStar
  | SelectCount
  | SelectSum string
  | SelectColumns string "string list"
  | SelectGroupCount string
  | SelectGroupSum string string

record statement =
  st_projection :: projection
  st_where :: "(condition \<times> (connective \<times> condition) list) option"

fun connective_text :: "connective \<Rightarrow> string" where
  "connective_text AndAlso = ''AND''"
| "connective_text OrElse = ''OR''"

text \<open>Tokens without positions.\<close>

type_synonym shape = "tok_kind \<times> string"

fun literal_shape :: "literal \<Rightarrow> shape" where
  "literal_shape (IntLiteral w) = (TkInt, format_int (sint w))"
| "literal_shape (FloatLiteral neg whole frac) =
     (TkFloat, (if neg then ''-'' else []) @ whole @ ''.'' @ frac)"
| "literal_shape (StringLiteral s) = (TkString, s)"

definition condition_shapes :: "condition \<Rightarrow> shape list" where
  "condition_shapes c =
     [(TkIdent, cd_column c), (TkOp, filter_op_string (cd_op c)), literal_shape (cd_literal c)]"

definition where_shapes :: "condition \<Rightarrow> (connective \<times> condition) list \<Rightarrow> shape list" where
  "where_shapes c cs =
     condition_shapes c @
     concat (map (\<lambda>(k, c). (TkKeyword, connective_text k) # condition_shapes c) cs)"

definition count_shapes :: "shape list" where
  "count_shapes = [(TkKeyword, ''COUNT''), (TkLParen, ''(''), (TkStar, ''*''), (TkRParen, '')'')]"

definition sum_shapes :: "string \<Rightarrow> shape list" where
  "sum_shapes c = [(TkKeyword, ''SUM''), (TkLParen, ''(''), (TkIdent, c), (TkRParen, '')'')]"

fun projection_shapes :: "projection \<Rightarrow> shape list" where
  "projection_shapes SelectStar = [(TkStar, ''*'')]"
| "projection_shapes SelectCount = count_shapes"
| "projection_shapes (SelectSum c) = sum_shapes c"
| "projection_shapes (SelectColumns c cs) =
     (TkIdent, c) # concat (map (\<lambda>d. [(TkComma, '',''), (TkIdent, d)]) cs)"
| "projection_shapes (SelectGroupCount g) = (TkIdent, g) # (TkComma, '','') # count_shapes"
| "projection_shapes (SelectGroupSum g c) = (TkIdent, g) # (TkComma, '','') # sum_shapes c"

fun group_shapes :: "projection \<Rightarrow> shape list" where
  "group_shapes (SelectGroupCount g) = [(TkKeyword, ''GROUP''), (TkKeyword, ''BY''), (TkIdent, g)]"
| "group_shapes (SelectGroupSum g c) = [(TkKeyword, ''GROUP''), (TkKeyword, ''BY''), (TkIdent, g)]"
| "group_shapes _ = []"

definition statement_shapes :: "statement \<Rightarrow> shape list" where
  "statement_shapes st =
     (TkKeyword, ''SELECT'') # projection_shapes (st_projection st) @
     (case st_where st of None \<Rightarrow> [] | Some (c, cs) \<Rightarrow> (TkKeyword, ''WHERE'') # where_shapes c cs) @
     group_shapes (st_projection st)"

section \<open>Printing\<close>

definition shape_text :: "shape \<Rightarrow> string" where
  "shape_text s = (if fst s = TkString then [CHR 0x27] @ snd s @ [CHR 0x27] else snd s)"

definition shapes_text :: "shape list \<Rightarrow> string" where
  "shapes_text ss = concat (map (\<lambda>s. shape_text s @ '' '') ss)"

definition statement_text :: "statement \<Rightarrow> string" where
  "statement_text st = shapes_text (statement_shapes st)"

section \<open>Tokens with the positions of the printed text\<close>

fun place :: "nat \<Rightarrow> shape list \<Rightarrow> token list" where
  "place i [] = [tok TkEOF [] i]"
| "place i (s # ss) = tok (fst s) (snd s) i # place (i + length (shape_text s) + 1) ss"

lemma place_nonempty [simp]: "place i ss \<noteq> []"
  by (cases ss) auto

definition plain_identifier :: "string \<Rightarrow> bool" where
  "plain_identifier s \<longleftrightarrow>
     s \<noteq> [] \<and> isIdentStart (hd s) \<and> list_all isIdentPart s \<and> map to_upper s \<notin> keyword_set"

definition number_text :: "string \<Rightarrow> bool" where
  "number_text s \<longleftrightarrow> s \<noteq> [] \<and> list_all isDigit s"

fun lexable :: "shape \<Rightarrow> bool" where
  "lexable (TkIdent, s) = plain_identifier s"
| "lexable (TkKeyword, s) = (s \<in> keyword_set)"
| "lexable (TkInt, s) = (number_text s \<or> (\<exists>t. s = CHR ''-'' # t \<and> number_text t))"
| "lexable (TkFloat, s) =
     (\<exists>sign w f. s = sign @ w @ ''.'' @ f \<and> (sign = [] \<or> sign = ''-'') \<and> number_text w \<and> list_all isDigit f)"
| "lexable (TkString, s) = (CHR 0x27 \<notin> set s)"
| "lexable (TkOp, s) = (s \<in> {''='', ''!='', ''<'', ''>'', ''<='', ''>=''})"
| "lexable (TkComma, s) = (s = '','')"
| "lexable (TkLParen, s) = (s = ''('')"
| "lexable (TkRParen, s) = (s = '')'')"
| "lexable (TkStar, s) = (s = ''*'')"
| "lexable (TkEOF, s) = False"

section \<open>The tokenizer reads the printed text\<close>

lemma takeWhile_stop: "list_all P xs \<Longrightarrow> \<not> P c \<Longrightarrow> takeWhile P (xs @ c # r) = xs"
  by (induction xs) auto

lemma dropWhile_stop: "list_all P xs \<Longrightarrow> \<not> P c \<Longrightarrow> dropWhile P (xs @ c # r) = c # r"
  by (induction xs) auto

lemma space_classes [simp]:
  "isSpace CHR '' ''" "\<not> isDigit CHR '' ''" "\<not> isIdentPart CHR '' ''" "\<not> isDigit CHR ''.''"
  by (auto simp: isSpace_def isDigit_def isIdentPart_def isIdentStart_def is_digit_char_def)

lemma digit_classes:
  "isDigit c \<Longrightarrow> \<not> isSpace c \<and> c \<noteq> CHR '','' \<and> c \<noteq> CHR ''('' \<and> c \<noteq> CHR '')'' \<and> c \<noteq> CHR ''*'' \<and>
     c \<noteq> CHR ''='' \<and> c \<noteq> CHR ''!'' \<and> c \<noteq> CHR ''<'' \<and> c \<noteq> CHR ''>'' \<and> c \<noteq> CHR 0x27 \<and> c \<noteq> CHR ''-''"
  by (auto simp: isDigit_def is_digit_char_def isSpace_def)

lemma ident_classes:
  "isIdentStart c \<Longrightarrow> \<not> isSpace c \<and> c \<noteq> CHR '','' \<and> c \<noteq> CHR ''('' \<and> c \<noteq> CHR '')'' \<and> c \<noteq> CHR ''*'' \<and>
     c \<noteq> CHR ''='' \<and> c \<noteq> CHR ''!'' \<and> c \<noteq> CHR ''<'' \<and> c \<noteq> CHR ''>'' \<and> c \<noteq> CHR 0x27 \<and> c \<noteq> CHR ''-'' \<and>
     \<not> isDigit c"
  by (auto simp: isDigit_def is_digit_char_def isSpace_def isIdentStart_def)

lemma lex_space: "lex_at i (CHR '' '' # s) = lex_at (i + 1) s"
  by (subst lex_at.simps) simp

lemma lex_word:
  assumes "s \<noteq> []" "isIdentStart (hd s)" "list_all isIdentPart s"
  shows "lex_at i (s @ '' '' @ r) =
    prepend (if map to_upper s \<in> keyword_set then tok TkKeyword (map to_upper s) i else tok TkIdent s i)
      (lex_at (i + length s + 1) r)"
proof -
  obtain c cs where s: "s = c # cs" using assms(1) by (cases s) auto
  note cl = ident_classes [OF assms(2), unfolded s list.sel]
  have tw: "takeWhile isIdentPart (s @ CHR '' '' # r) = s" "dropWhile isIdentPart (s @ CHR '' '' # r) = CHR '' '' # r"
    using assms(3) by (simp_all add: takeWhile_stop dropWhile_stop)
  have "lex_at i (s @ CHR '' '' # r) =
      prepend (if map to_upper s \<in> keyword_set then tok TkKeyword (map to_upper s) i else tok TkIdent s i)
        (lex_at (i + length s) (CHR '' '' # r))"
    by (subst lex_at.simps, simp only: tw Let_def) (use cl assms(2) s in simp)
  then show ?thesis by (simp add: lex_space)
qed

lemma keyword_word:
  "s \<in> keyword_set \<Longrightarrow> s \<noteq> [] \<and> isIdentStart (hd s) \<and> list_all isIdentPart s \<and> map to_upper s = s"
  by (auto simp: keyword_set_def isIdentStart_def isIdentPart_def to_upper_def)

lemma lex_number_int:
  assumes "number_text w"
  shows "lex_number (w @ CHR '' '' # r) = (w, False, CHR '' '' # r)"
    "lex_number (CHR ''-'' # w @ CHR '' '' # r) = (CHR ''-'' # w, False, CHR '' '' # r)"
proof -
  obtain c cs where w: "w = c # cs" "isDigit c" using assms by (cases w) (auto simp: number_text_def)
  have "list_all isDigit w" using assms by (simp add: number_text_def)
  then have "takeWhile isDigit (w @ CHR '' '' # r) = w" "dropWhile isDigit (w @ CHR '' '' # r) = CHR '' '' # r"
    by (simp_all add: takeWhile_stop dropWhile_stop)
  with w digit_classes [OF w(2)] show "lex_number (w @ CHR '' '' # r) = (w, False, CHR '' '' # r)"
    "lex_number (CHR ''-'' # w @ CHR '' '' # r) = (CHR ''-'' # w, False, CHR '' '' # r)"
    by (simp_all add: lex_number_def Let_def)
qed

lemma lex_number_float:
  assumes "number_text w" "list_all isDigit f"
  shows "lex_number (w @ CHR ''.'' # f @ CHR '' '' # r) = (w @ ''.'' @ f, True, CHR '' '' # r)"
    "lex_number (CHR ''-'' # w @ CHR ''.'' # f @ CHR '' '' # r) = (CHR ''-'' # w @ ''.'' @ f, True, CHR '' '' # r)"
proof -
  obtain c cs where w: "w = c # cs" "isDigit c" using assms by (cases w) (auto simp: number_text_def)
  have "list_all isDigit w" using assms by (simp add: number_text_def)
  then have "takeWhile isDigit (w @ CHR ''.'' # x) = w" "dropWhile isDigit (w @ CHR ''.'' # x) = CHR ''.'' # x" for x
    by (simp_all add: takeWhile_stop dropWhile_stop)
  moreover have "takeWhile isDigit (f @ CHR '' '' # r) = f" "dropWhile isDigit (f @ CHR '' '' # r) = CHR '' '' # r"
    using assms(2) by (simp_all add: takeWhile_stop dropWhile_stop)
  ultimately show "lex_number (w @ CHR ''.'' # f @ CHR '' '' # r) = (w @ ''.'' @ f, True, CHR '' '' # r)"
    "lex_number (CHR ''-'' # w @ CHR ''.'' # f @ CHR '' '' # r) = (CHR ''-'' # w @ ''.'' @ f, True, CHR '' '' # r)"
    using w digit_classes [OF w(2)] by (simp_all add: lex_number_def Let_def)
qed

lemma lex_numeric:
  assumes "lex_number (s @ CHR '' '' # r) = (s, fl, CHR '' '' # r)" "s \<noteq> []"
    and "isDigit (hd s) \<or> (hd s = CHR ''-'' \<and> tl s \<noteq> [] \<and> isDigit (hd (tl s)))"
  shows "lex_at i (s @ '' '' @ r) =
    prepend (tok (if fl then TkFloat else TkInt) s i) (lex_at (i + length s + 1) r)"
proof -
  obtain c cs where s: "s = c # cs" using assms(2) by (cases s) auto
  have cl: "\<not> isSpace c \<and> c \<noteq> CHR '','' \<and> c \<noteq> CHR ''('' \<and> c \<noteq> CHR '')'' \<and> c \<noteq> CHR ''*'' \<and>
     c \<noteq> CHR ''='' \<and> c \<noteq> CHR ''!'' \<and> c \<noteq> CHR ''<'' \<and> c \<noteq> CHR ''>'' \<and> c \<noteq> CHR 0x27"
    using assms(3) digit_classes [of c] by (elim disjE) (simp_all add: s isSpace_def)
  have num: "isDigit c \<or> c = CHR ''-'' \<and> cs @ CHR '' '' # r \<noteq> [] \<and> isDigit (hd (cs @ CHR '' '' # r))"
    using assms(3) s by (cases cs) auto
  have "lex_at i (s @ CHR '' '' # r) =
      prepend (tok (if fl then TkFloat else TkInt) s i) (lex_at (i + length s) (CHR '' '' # r))"
    by (subst lex_at.simps, simp only: assms(1) Let_def) (use cl num s in simp)
  then show ?thesis by (simp add: lex_space)
qed

lemma lex_at_shape:
  assumes "lexable s"
  shows "lex_at i (shape_text s @ '' '' @ r) =
    prepend (tok (fst s) (snd s) i) (lex_at (i + length (shape_text s) + 1) r)"
proof -
  have one: "lex_at i (c # '' '' @ r) = prepend (tok k [c] i) (lex_at (i + 1 + 1) r)"
    if "(c, k) \<in> {(CHR '','', TkComma), (CHR ''('', TkLParen), (CHR '')'', TkRParen), (CHR ''*'', TkStar),
      (CHR ''='', TkOp), (CHR ''<'', TkOp), (CHR ''>'', TkOp)}" for c k
    using that by (subst lex_at.simps) (auto simp: isSpace_def lex_space)
  have two: "lex_at i (c # ''= '' @ r) = prepend (tok TkOp [c, CHR ''=''] i) (lex_at (i + 2 + 1) r)"
    if "c \<in> set ''!<>''" for c
    using that by (subst lex_at.simps) (auto simp: isSpace_def lex_space)
  have str: "lex_at i (CHR 0x27 # t @ CHR 0x27 # '' '' @ r) = prepend (tok TkString t i) (lex_at (i + length t + 2 + 1) r)"
    if "CHR 0x27 \<notin> set t" for t
  proof -
    have "takeWhile (\<lambda>d. d \<noteq> CHR 0x27) (t @ CHR 0x27 # '' '' @ r) = t"
      using that by (intro takeWhile_stop) (auto simp: list_all_iff)
    then show ?thesis
      by (subst lex_at.simps) (simp add: isSpace_def lex_space Let_def)
  qed
  have number: "number_text w \<Longrightarrow> w \<noteq> [] \<and> isDigit (hd w)" for w
    by (cases w) (auto simp: number_text_def)
  show ?thesis
    using assms
  proof (cases s rule: lexable.cases)
    case (1 t)
    with assms show ?thesis using lex_word [of t i r] by (simp add: plain_identifier_def shape_text_def)
  next
    case (2 t)
    with assms show ?thesis using lex_word [of t i r] keyword_word [of t] by (simp add: shape_text_def)
  next
    case (3 t)
    with assms have t: "number_text t \<or> (\<exists>u. t = CHR ''-'' # u \<and> number_text u)" by simp
    then have "lex_number (t @ CHR '' '' # r) = (t, False, CHR '' '' # r)"
      using lex_number_int by auto
    moreover have "t \<noteq> [] \<and> (isDigit (hd t) \<or> hd t = CHR ''-'' \<and> tl t \<noteq> [] \<and> isDigit (hd (tl t)))"
      using t number by auto
    ultimately show ?thesis using lex_numeric [of t r False i] 3 by (simp add: shape_text_def)
  next
    case (4 t)
    with assms obtain sign w f where t: "t = sign @ w @ ''.'' @ f" "sign = [] \<or> sign = ''-''" "number_text w" "list_all isDigit f"
      by auto
    have "lex_number (t @ CHR '' '' # r) = (t, True, CHR '' '' # r)"
      using t lex_number_float [OF t(3,4)] by auto
    moreover have "t \<noteq> [] \<and> (isDigit (hd t) \<or> hd t = CHR ''-'' \<and> tl t \<noteq> [] \<and> isDigit (hd (tl t)))"
      using t(1,2) number [OF t(3)] by auto
    ultimately show ?thesis using lex_numeric [of t r True i] 4 by (simp add: shape_text_def)
  next
    case (5 t)
    with assms show ?thesis using str [of t] by (simp add: shape_text_def)
  next
    case (6 t)
    with assms have "t \<in> {''='', ''!='', ''<'', ''>'', ''<='', ''>=''}" by simp
    then show ?thesis
      unfolding 6 shape_text_def
      using one [of "CHR ''=''" TkOp] one [of "CHR ''<''" TkOp] one [of "CHR ''>''" TkOp]
        two [of "CHR ''!''"] two [of "CHR ''<''"] two [of "CHR ''>''"]
      by (elim insertE emptyE) simp_all
  next
    case (7 t)
    with assms one [of "CHR '',''" TkComma] show ?thesis by (simp add: shape_text_def)
  next
    case (8 t)
    with assms one [of "CHR ''(''" TkLParen] show ?thesis by (simp add: shape_text_def)
  next
    case (9 t)
    with assms one [of "CHR '')''" TkRParen] show ?thesis by (simp add: shape_text_def)
  next
    case (10 t)
    with assms one [of "CHR ''*''" TkStar] show ?thesis by (simp add: shape_text_def)
  next
    case (11 t)
    with assms show ?thesis by simp
  qed
qed

lemma lex_shapes_text: "list_all lexable ss \<Longrightarrow> lex_at i (shapes_text ss) = Ok (place i ss)"
proof (induction ss arbitrary: i)
  case Nil
  show ?case by (subst lex_at.simps) (simp add: shapes_text_def)
next
  case (Cons s ss)
  then have "lex_at (i + length (shape_text s) + 1) (shapes_text ss) = Ok (place (i + length (shape_text s) + 1) ss)"
    by simp
  moreover have "shapes_text (s # ss) = shape_text s @ '' '' @ shapes_text ss" by (simp add: shapes_text_def)
  ultimately show ?case using lex_at_shape [of s i "shapes_text ss"] Cons.prems by (simp add: prepend_def)
qed

section \<open>The parser reads the placed tokens\<close>

lemma advance_Cons [simp]: "ts \<noteq> [] \<Longrightarrow> advance (t # ts) = Ok (t, ts)"
  by (cases ts) (auto simp: advance_def)

lemma expectKind_Cons [simp]: "ts \<noteq> [] \<Longrightarrow> tok_kind t = k \<Longrightarrow> expectKind k d (t # ts) = Ok ((), ts)"
  by (simp add: expectKind_def)

text \<open>Printable conditions, and the comparison a condition stands for.\<close>

fun literal_value :: "literal \<Rightarrow> go_value option" where
  "literal_value (IntLiteral w) = Some (VInt64 w)"
| "literal_value (FloatLiteral neg whole frac) =
     (case parse_float (snd (literal_shape (FloatLiteral neg whole frac))) of
        Ok x \<Rightarrow> Some (VFloat64 x) | _ \<Rightarrow> None)"
| "literal_value (StringLiteral s) = Some (VString s)"

definition printable_condition :: "condition \<Rightarrow> bool" where
  "printable_condition c \<longleftrightarrow>
     plain_identifier (cd_column c) \<and> named_op (cd_op c) \<and> lexable (literal_shape (cd_literal c)) \<and>
     literal_value (cd_literal c) \<noteq> None"

definition meant_comparison :: "condition \<Rightarrow> comparison" where
  "meant_comparison c =
     \<lparr>cmp_Column = cd_column c, cmp_Op = cd_op c, cmp_Value = the (literal_value (cd_literal c)), cmp_Pos = 0\<rparr>"

definition unplaced :: "comparison \<Rightarrow> comparison" where
  "unplaced c = c\<lparr>cmp_Pos := 0\<rparr>"

lemma literalValue_shape:
  assumes "literal_value l = Some v"
  shows "literalValue (tok (fst (literal_shape l)) (snd (literal_shape l)) i) = Ok v"
  using assms
  by (cases l) (auto simp: literalValue_def parse_int_format_int split: outcome.splits)

lemma parseOp_string: "named_op p \<Longrightarrow> parseOp (filter_op_string p) = Some p"
  by (cases p) (simp_all add: parseOp_def)

lemma parseComparison_place:
  assumes "printable_condition c"
  shows "\<exists>d j. parseComparison (place i (condition_shapes c @ ss)) = Ok (d, place j ss) \<and>
    unplaced d = meant_comparison c"
proof -
  from assms obtain v where v: "literal_value (cd_literal c) = Some v"
    by (auto simp: printable_condition_def)
  obtain k t where l: "literal_shape (cd_literal c) = (k, t)" by (cases "literal_shape (cd_literal c)")
  have "literalValue (tok k t j) = Ok v" for j
    using literalValue_shape [OF v, of j] l by simp
  moreover have "parseOp (filter_op_string (cd_op c)) = Some (cd_op c)"
    using assms by (simp add: printable_condition_def parseOp_string)
  ultimately show ?thesis
    using v
    by (simp add: parseComparison_def condition_shapes_def l unplaced_def meant_comparison_def
        del: bind_ok_Ok_iff) blast
qed

text \<open>What follows a WHERE clause in a statement.\<close>

definition ends_where :: "shape list \<Rightarrow> bool" where
  "ends_where ss \<longleftrightarrow> ss = [] \<or> fst (hd ss) \<noteq> TkIdent \<and> hd ss \<notin> {(TkKeyword, ''AND''), (TkKeyword, ''OR'')}"

lemma peek_place: "peek (place i ss) = Ok (hd (place i ss))"
  by (simp add: peek_Ok)

lemma parse_conditions_place:
  assumes "\<forall>(k, c) \<in> set cs. printable_condition c" "ends_where ss"
  shows "\<exists>ds j. parse_conditions comps ops
      (place i (concat (map (\<lambda>(k, c). (TkKeyword, connective_text k) # condition_shapes c) cs) @ ss)) =
      Ok ((comps @ ds, ops @ map (\<lambda>(k, c). connective_text k) cs), place j ss) \<and>
    map unplaced ds = map (\<lambda>(k, c). meant_comparison c) cs"
  using assms(1)
proof (induction cs arbitrary: comps ops i)
  case Nil
  have "parse_conditions comps ops (place i ss) = Ok ((comps, ops), place i ss)"
    using assms(2)
    by (subst parse_conditions.simps, cases ss) (auto simp: peek_place ends_where_def)
  then show ?case by (intro exI [of _ "[]"] exI [of _ i]) simp
next
  case (Cons kc cs)
  obtain k c where kc: "kc = (k, c)" by (cases kc)
  let ?rest = "concat (map (\<lambda>(k, c). (TkKeyword, connective_text k) # condition_shapes c) cs) @ ss"
  let ?i = "i + length (shape_text (TkKeyword, connective_text k)) + 1"
  obtain d j where d: "parseComparison (place ?i (condition_shapes c @ ?rest)) = Ok (d, place j ?rest)"
    "unplaced d = meant_comparison c"
    using parseComparison_place [of c ?i ?rest] Cons.prems kc by auto
  obtain ds j' where ds: "parse_conditions (comps @ [d]) (ops @ [connective_text k]) (place j ?rest) =
      Ok (((comps @ [d]) @ ds, (ops @ [connective_text k]) @ map (\<lambda>(k, c). connective_text k) cs), place j' ss)"
    "map unplaced ds = map (\<lambda>(k, c). meant_comparison c) cs"
    using Cons.IH [of "comps @ [d]" "ops @ [connective_text k]" j] Cons.prems by auto
  have "parse_conditions comps ops (place i ((TkKeyword, connective_text k) # condition_shapes c @ ?rest)) =
      parse_conditions (comps @ [d]) (ops @ [connective_text k]) (place j ?rest)"
    using d(1) by (subst parse_conditions.simps) (cases k; simp)
  with d(2) ds show ?case
    by (intro exI [of _ "d # ds"] exI [of _ j']) (simp add: kc)
qed

text \<open>The meaning of a condition list: AND binds tighter than OR.\<close>

definition where_meaning :: "(comparison \<Rightarrow> bool) \<Rightarrow> condition \<Rightarrow> (connective \<times> condition) list \<Rightarrow> bool" where
  "where_meaning v c cs =
     conditions_value v (v (meant_comparison c)) (map (\<lambda>(k, c). (connective_text k, meant_comparison c)) cs)"

lemma conditions_value_map:
  "conditions_value (\<lambda>d. v (g d)) acc (zip ops ds) = conditions_value v acc (zip ops (map g ds))"
  by (induction ops ds arbitrary: acc rule: list_induct2') auto

lemma parseWhere_place:
  assumes "printable_condition c" "\<forall>(k, c) \<in> set cs. printable_condition c" "ends_where ss"
  shows "\<exists>e j. parseWhere (place i (where_shapes c cs @ ss)) = Ok (e, place j ss) \<and>
    (\<forall>v. sat (\<lambda>d. v (unplaced d)) e = where_meaning v c cs)"
proof -
  let ?rest = "concat (map (\<lambda>(k, c). (TkKeyword, connective_text k) # condition_shapes c) cs) @ ss"
  obtain d j where d: "parseComparison (place i (condition_shapes c @ ?rest)) = Ok (d, place j ?rest)"
    "unplaced d = meant_comparison c"
    using parseComparison_place [OF assms(1)] by blast
  obtain ds j' where ds: "parse_conditions [d] [] (place j ?rest) =
      Ok (([d] @ ds, [] @ map (\<lambda>(k, c). connective_text k) cs), place j' ss)"
    "map unplaced ds = map (\<lambda>(k, c). meant_comparison c) cs"
    using parse_conditions_place [OF assms(2,3)] by blast
  let ?conds = "zip (map (\<lambda>(k, c). connective_text k) cs) ds"
  have "sat (\<lambda>d. v (unplaced d)) (lower_groups (group_conditions [] [d] ?conds)) = where_meaning v c cs" for v
  proof -
    have "zip (map (\<lambda>(k, c). connective_text k) cs) (map unplaced ds) =
        map (\<lambda>(k, c). (connective_text k, meant_comparison c)) cs"
      unfolding ds(2) zip_map_map by (induction cs) auto
    then show ?thesis
      by (simp add: sat_conditions conditions_value_map where_meaning_def d(2))
  qed
  then show ?thesis
    using d(1) ds(1) by (auto simp: parseWhere_def where_shapes_def)
qed

section \<open>Statements\<close>

text \<open>The query of a statement without its WHERE tree.\<close>

fun projected_query :: "projection \<Rightarrow> query" where
  "projected_query SelectStar = empty_query\<lparr>q_Projection := ProjStar\<rparr>"
| "projected_query SelectCount = empty_query\<lparr>q_Projection := ProjCountStar\<rparr>"
| "projected_query (SelectSum c) = empty_query\<lparr>q_Projection := ProjSumColumn, q_SumColumn := c\<rparr>"
| "projected_query (SelectColumns c cs) = empty_query\<lparr>q_Columns := c # cs\<rparr>"
| "projected_query (SelectGroupCount g) =
     empty_query\<lparr>q_Projection := ProjGrouped, q_Columns := [g], q_GroupBy := g\<rparr>"
| "projected_query (SelectGroupSum g c) =
     empty_query\<lparr>q_Projection := ProjGrouped, q_Columns := [g], q_GroupAgg := AggSumColumn,
       q_SumColumn := c, q_GroupBy := g\<rparr>"

fun printable_projection :: "projection \<Rightarrow> bool" where
  "printable_projection SelectStar = True"
| "printable_projection SelectCount = True"
| "printable_projection (SelectSum c) = plain_identifier c"
| "printable_projection (SelectColumns c cs) = (plain_identifier c \<and> list_all plain_identifier cs)"
| "printable_projection (SelectGroupCount g) = plain_identifier g"
| "printable_projection (SelectGroupSum g c) = (plain_identifier g \<and> plain_identifier c)"

definition printable :: "statement \<Rightarrow> bool" where
  "printable st \<longleftrightarrow>
     printable_projection (st_projection st) \<and>
     (case st_where st of
        None \<Rightarrow> True
      | Some (c, cs) \<Rightarrow> printable_condition c \<and> (\<forall>(k, c) \<in> set cs. printable_condition c))"

lemma parse_columns_place:
  assumes "ss = [] \<or> fst (hd ss) \<noteq> TkComma"
  shows "\<exists>j. parse_columns_loop q (place i (concat (map (\<lambda>d. [(TkComma, '',''), (TkIdent, d)]) cs) @ ss)) =
    Ok (q\<lparr>q_Columns := q_Columns q @ cs\<rparr>, place j ss)"
proof (induction cs arbitrary: q i)
  case Nil
  have "parse_columns_loop q (place i ss) = Ok (q, place i ss)"
    using assms by (subst parse_columns_loop.simps, cases ss) (auto simp: peek_place)
  then show ?case by auto
next
  case (Cons c cs)
  let ?rest = "concat (map (\<lambda>d. [(TkComma, '',''), (TkIdent, d)]) cs) @ ss"
  have "\<exists>j. parse_columns_loop q (place i ([(TkComma, '',''), (TkIdent, c)] @ ?rest)) =
      parse_columns_loop (q\<lparr>q_Columns := q_Columns q @ [c]\<rparr>) (place j ?rest)"
    by (subst parse_columns_loop.simps) (simp; blast)
  with Cons.IH [of "q\<lparr>q_Columns := q_Columns q @ [c]\<rparr>"] show ?case by fastforce
qed

text \<open>What follows the projection: nothing, WHERE or GROUP.\<close>

definition ends_projection :: "shape list \<Rightarrow> bool" where
  "ends_projection ss \<longleftrightarrow> ss = [] \<or> hd ss \<in> {(TkKeyword, ''WHERE''), (TkKeyword, ''GROUP'')}"

lemma not_comma: "ends_projection ss \<Longrightarrow> ss = [] \<or> fst (hd ss) \<noteq> TkComma"
  by (auto simp: ends_projection_def)

lemma hd_place: "hd (place i ss) = (if ss = [] then tok TkEOF [] i else tok (fst (hd ss)) (snd (hd ss)) i)"
  by (cases ss) auto

lemma parseProjection_place:
  assumes "ends_projection ss"
  shows "\<exists>j. parseProjection empty_query (place i (projection_shapes p @ ss)) =
    Ok ((projected_query p)\<lparr>q_GroupBy := []\<rparr>, place j ss)"
proof (cases p)
  case (SelectColumns c cs)
  have "\<exists>j. parseProjection empty_query (place i (projection_shapes p @ ss)) =
      parse_columns_loop (empty_query\<lparr>q_Columns := [c]\<rparr>)
        (place j (concat (map (\<lambda>d. [(TkComma, '',''), (TkIdent, d)]) cs) @ ss))"
    by (simp add: SelectColumns parseProjection_def empty_query_def is_keyword_def) blast
  with parse_columns_place [OF not_comma [OF assms], of "empty_query\<lparr>q_Columns := [c]\<rparr>"] SelectColumns
  show ?thesis by (fastforce simp: empty_query_def)
next
  case (SelectGroupCount g)
  have "\<exists>j. parseProjection empty_query (place i (projection_shapes p @ ss)) =
      Ok ((projected_query p)\<lparr>q_GroupBy := []\<rparr>, place j ss)"
    using not_comma [OF assms]
    by (simp add: SelectGroupCount parseProjection_def is_keyword_def count_shapes_def
        parse_columns_loop.simps parseGroupedAggregate_def empty_query_def peek_place hd_place
        del: bind_ok_Ok_iff) blast
  then show ?thesis .
next
  case (SelectGroupSum g c)
  have "\<exists>j. parseProjection empty_query (place i (projection_shapes p @ ss)) =
      Ok ((projected_query p)\<lparr>q_GroupBy := []\<rparr>, place j ss)"
    using not_comma [OF assms]
    by (simp add: SelectGroupSum parseProjection_def is_keyword_def sum_shapes_def
        parse_columns_loop.simps parseGroupedAggregate_def empty_query_def peek_place hd_place
        del: bind_ok_Ok_iff) blast
  then show ?thesis .
qed (simp add: parseProjection_def is_keyword_def count_shapes_def sum_shapes_def empty_query_def
      del: bind_ok_Ok_iff, blast)+

lemma lexable_statement:
  assumes "printable st"
  shows "list_all lexable (statement_shapes st)"
proof -
  have kw: "connective_text k \<in> keyword_set" for k
    by (cases k) (simp_all add: keyword_set_def)
  have op: "named_op p \<Longrightarrow> filter_op_string p \<in> {''='', ''!='', ''<'', ''>'', ''<='', ''>=''}" for p
    by (cases p) simp_all
  have cond: "printable_condition c \<Longrightarrow> list_all lexable (condition_shapes c)" for c
    using op [of "cd_op c"] by (auto simp: printable_condition_def condition_shapes_def)
  have wh: "list_all lexable (where_shapes c cs)"
    if "printable_condition c" "\<forall>(k, c) \<in> set cs. printable_condition c" for c cs
    using that(2) cond [OF that(1)] unfolding where_shapes_def
    by (induction cs) (auto simp: cond kw)
  have kws: "{''SELECT'', ''WHERE'', ''COUNT'', ''SUM'', ''GROUP'', ''BY''} \<subseteq> keyword_set"
    by (simp add: keyword_set_def)
  have cols: "list_all plain_identifier cs \<Longrightarrow>
      list_all lexable (concat (map (\<lambda>d. [(TkComma, '',''), (TkIdent, d)]) cs))" for cs
    by (induction cs) auto
  have "list_all lexable (projection_shapes p @ group_shapes p)" if "printable_projection p" for p
    using that kws by (cases p) (auto simp: count_shapes_def sum_shapes_def cols)
  with assms kws wh show ?thesis
    by (auto simp: printable_def statement_shapes_def split: option.splits)
qed

lemma validateGrouped_projected:
  "printable_projection p \<Longrightarrow> validateGrouped ((projected_query p)\<lparr>q_Where := e\<rparr>) = Ok ()"
  by (cases p) (auto simp: validateGrouped_def empty_query_def plain_identifier_def)

text \<open>The clauses after the projection.\<close>

lemma group_clause:
  "\<exists>j. bind_ok (peek (place i (group_shapes p))) (\<lambda>t.
      if is_keyword t ''GROUP'' then parseGroupBy ((projected_query p)\<lparr>q_GroupBy := [], q_Where := e\<rparr>) (place i (group_shapes p))
      else Ok ((projected_query p)\<lparr>q_GroupBy := [], q_Where := e\<rparr>, place i (group_shapes p))) =
    Ok ((projected_query p)\<lparr>q_Where := e\<rparr>, [tok TkEOF [] j])"
  by (cases p) (simp_all add: is_keyword_def parseGroupBy_def empty_query_def del: bind_ok_Ok_iff)

lemma group_shapes_ends: "ends_projection (group_shapes p)" "ends_where (group_shapes p)"
  by (cases p; simp add: ends_projection_def ends_where_def)+

lemma parseQuery_place:
  assumes "printable st"
  shows "\<exists>q j. parseQuery (place i (statement_shapes st)) = Ok (q, [tok TkEOF [] j]) \<and>
    q\<lparr>q_Where := None\<rparr> = projected_query (st_projection st) \<and>
    (case st_where st of
       None \<Rightarrow> q_Where q = None
     | Some (c, cs) \<Rightarrow> \<exists>e. q_Where q = Some e \<and>
         (\<forall>v. sat (\<lambda>d. v (unplaced d)) e = where_meaning v c cs))"
proof -
  let ?p = "st_projection st"
  have valid: "validateGrouped ((projected_query ?p)\<lparr>q_Where := e\<rparr>) = Ok ()" for e
    using assms by (simp add: printable_def validateGrouped_projected)
  have no_where: "(projected_query ?p)\<lparr>q_Where := None\<rparr> = projected_query ?p"
    by (cases ?p) (simp_all add: empty_query_def)
  have no_where_projected: "(projected_query ?p)\<lparr>q_GroupBy := [], q_Where := None\<rparr> = (projected_query ?p)\<lparr>q_GroupBy := []\<rparr>"
    by (cases ?p) (simp_all add: empty_query_def)
  obtain i0 where start: "place i (statement_shapes st) = tok TkKeyword ''SELECT'' i # place i0 (tl (statement_shapes st))"
    by (auto simp: statement_shapes_def)
  show ?thesis
  proof (cases "st_where st")
    case None
    have tail: "tl (statement_shapes st) = projection_shapes ?p @ group_shapes ?p"
      by (simp add: statement_shapes_def None)
    obtain j where j: "parseProjection empty_query (place i0 (projection_shapes ?p @ group_shapes ?p)) =
        Ok ((projected_query ?p)\<lparr>q_GroupBy := []\<rparr>, place j (group_shapes ?p))"
      using parseProjection_place [OF group_shapes_ends(1)] by blast
    have hd: "\<not> is_keyword (hd (place j (group_shapes ?p))) ''FROM''" "\<not> is_keyword (hd (place j (group_shapes ?p))) ''WHERE''"
      by (cases ?p; simp add: is_keyword_def)+
    obtain j' where j': "bind_ok (peek (place j (group_shapes ?p))) (\<lambda>t.
        if is_keyword t ''GROUP'' then parseGroupBy ((projected_query ?p)\<lparr>q_GroupBy := []\<rparr>) (place j (group_shapes ?p))
        else Ok ((projected_query ?p)\<lparr>q_GroupBy := []\<rparr>, place j (group_shapes ?p))) =
      Ok (projected_query ?p, [tok TkEOF [] j'])"
      using group_clause [of j ?p None] unfolding no_where no_where_projected by blast
    have "parseQuery (place i (statement_shapes st)) = Ok (projected_query ?p, [tok TkEOF [] j'])"
      unfolding start tail parseQuery_def
      using j j' hd valid [of None] no_where
      by (simp add: peek_place is_keyword_def [of "tok k s l" for k s l] del: bind_ok_Ok_iff)
    with None no_where show ?thesis by (cases ?p) (auto simp: empty_query_def)
  next
    case (Some w)
    obtain c cs where w: "w = (c, cs)" by (cases w)
    let ?tail = "(TkKeyword, ''WHERE'') # where_shapes c cs @ group_shapes ?p"
    have tail: "tl (statement_shapes st) = projection_shapes ?p @ ?tail"
      by (simp add: statement_shapes_def Some w)
    have "ends_projection ?tail" by (simp add: ends_projection_def)
    then obtain j where j: "parseProjection empty_query (place i0 (projection_shapes ?p @ ?tail)) =
        Ok ((projected_query ?p)\<lparr>q_GroupBy := []\<rparr>, place j ?tail)"
      using parseProjection_place by blast
    obtain j0 where where_at: "place j ?tail = tok TkKeyword ''WHERE'' j # place j0 (where_shapes c cs @ group_shapes ?p)"
      by auto
    obtain e k where e: "parseWhere (place j0 (where_shapes c cs @ group_shapes ?p)) = Ok (e, place k (group_shapes ?p))"
      "\<forall>v. sat (\<lambda>d. v (unplaced d)) e = where_meaning v c cs"
      using parseWhere_place [of c cs "group_shapes ?p" j0] group_shapes_ends(2) assms Some w
      by (auto simp: printable_def)
    obtain j' where j': "bind_ok (peek (place k (group_shapes ?p))) (\<lambda>t.
        if is_keyword t ''GROUP''
        then parseGroupBy ((projected_query ?p)\<lparr>q_GroupBy := [], q_Where := Some e\<rparr>) (place k (group_shapes ?p))
        else Ok ((projected_query ?p)\<lparr>q_GroupBy := [], q_Where := Some e\<rparr>, place k (group_shapes ?p))) =
      Ok ((projected_query ?p)\<lparr>q_Where := Some e\<rparr>, [tok TkEOF [] j'])"
      using group_clause by blast
    have "parseQuery (place i (statement_shapes st)) = Ok ((projected_query ?p)\<lparr>q_Where := Some e\<rparr>, [tok TkEOF [] j'])"
      unfolding start tail parseQuery_def
      using j [unfolded where_at] j' e(1) valid [of "Some e"]
      by (simp add: peek_place is_keyword_def [of "tok k s l" for k s l] del: bind_ok_Ok_iff)
    with Some w no_where e(2) show ?thesis by auto
  qed
qed

section \<open>Round trip\<close>

text \<open>
  C19: every statement of the grammar can be written down and is read back. The text of a printable
  statement (any projection, any list of conditions joined by AND and OR with integer, float or
  string literals, GROUP BY for the grouped projections) parses, and the query has the statement's
  projection, columns and group column; its WHERE tree is true exactly when the condition list is,
  read with AND binding tighter than OR, whatever the truth values of the single comparisons.
\<close>

theorem parse_statement_text:
  assumes "printable st"
  shows "\<exists>q. Parse (statement_text st) = Ok q \<and>
    q\<lparr>q_Where := None\<rparr> = projected_query (st_projection st) \<and>
    (case st_where st of
       None \<Rightarrow> q_Where q = None
     | Some (c, cs) \<Rightarrow> \<exists>e. q_Where q = Some e \<and>
         (\<forall>v. sat (\<lambda>d. v (unplaced d)) e = where_meaning v c cs))"
proof -
  have "lex (statement_text st) = Ok (place 0 (statement_shapes st))"
    using lex_shapes_text [OF lexable_statement [OF assms]] by (simp add: lex_def statement_text_def)
  moreover from parseQuery_place [OF assms, of 0] obtain q j where
    q: "parseQuery (place 0 (statement_shapes st)) = Ok (q, [tok TkEOF [] j])"
      "q\<lparr>q_Where := None\<rparr> = projected_query (st_projection st)"
      "case st_where st of
         None \<Rightarrow> q_Where q = None
       | Some (c, cs) \<Rightarrow> \<exists>e. q_Where q = Some e \<and>
           (\<forall>v. sat (\<lambda>d. v (unplaced d)) e = where_meaning v c cs)"
    by blast
  ultimately have "Parse (statement_text st) = Ok q" by (simp add: Parse_def)
  with q(2,3) show ?thesis by blast
qed

definition example_statement :: statement where
  "example_statement =
     \<lparr>st_projection = SelectGroupCount ''name'',
      st_where = Some
        (\<lparr>cd_column = ''id'', cd_op = OpGte, cd_literal = IntLiteral 7\<rparr>,
         [(OrElse, \<lparr>cd_column = ''name'', cd_op = OpEq, cd_literal = StringLiteral ''x''\<rparr>),
          (AndAlso, \<lparr>cd_column = ''id'', cd_op = OpNeq, cd_literal = IntLiteral 0\<rparr>)])\<rparr>"

lemma printable_example: "printable example_statement"
proof -
  have "plain_identifier ''name''" "plain_identifier ''id''"
    by (auto simp: plain_identifier_def isIdentStart_def isIdentPart_def keyword_set_def to_upper_def char_of_def)
  moreover have "lexable (literal_shape (IntLiteral 7))" "lexable (literal_shape (IntLiteral 0))"
    by (simp_all add: format_int_def format_nat.simps digit_char_def number_text_def isDigit_def is_digit_char_def)
  ultimately show ?thesis
    by (simp add: printable_def example_statement_def printable_condition_def)
qed

theorem parse_statement_text_witness:
  "statement_text example_statement = ''SELECT name , COUNT ( * ) WHERE id >= 7 OR name = '' @ [CHR 0x27] @ ''x'' @
     [CHR 0x27] @ '' AND id != 0 GROUP BY name '' \<and>
   (\<exists>q. Parse (statement_text example_statement) = Ok q \<and> q_GroupBy q = ''name'')"
proof -
  have "statement_text example_statement = ''SELECT name , COUNT ( * ) WHERE id >= 7 OR name = '' @ [CHR 0x27] @ ''x'' @
     [CHR 0x27] @ '' AND id != 0 GROUP BY name ''"
    by (simp add: statement_text_def shapes_text_def statement_shapes_def example_statement_def shape_text_def
        count_shapes_def where_shapes_def condition_shapes_def format_int_def format_nat.simps digit_char_def
        char_of_def bit_iff_odd)
  moreover obtain q where q: "Parse (statement_text example_statement) = Ok q"
    "q\<lparr>q_Where := None\<rparr> = projected_query (st_projection example_statement)"
    using parse_statement_text [OF printable_example] by blast
  moreover have "q_GroupBy q = ''name''"
  proof -
    have "q_GroupBy q = q_GroupBy (q\<lparr>q_Where := None\<rparr>)" by simp
    also have "\<dots> = ''name''" unfolding q(2) by (simp add: example_statement_def)
    finally show ?thesis .
  qed
  ultimately show ?thesis by blast
qed

end
