(* ===== verification/Table.thy ===== *)
theory Table
  imports SegmentSafety
begin

text \<open>
  \<open>storage/table.go\<close>: the write surface. A table owns a buffer and, unless it is disabled, a Bloom
  filter keyed on the primary-key column. The uniqueness argument is made once, in the locale
  \<open>dedup_table\<close>, for any membership filter and any row buffer; \<open>Insert\<close> with a filter is its
  instance.
\<close>

section \<open>State, options and results\<close>

record table_options =
  opt_BloomExpectedItems :: uint64
  opt_BloomTargetFPR :: float64
  opt_BloomDisabled :: bool

datatype pk_error = PKTypeMismatch string string | PKUnsupportedType string

datatype reject_reason =
    NoReason
  | RowLength nat nat
  | PKError string pk_error
  | Duplicate
  | AppendFailed append_error

record insert_result =
  ir_Accepted :: bool
  ir_Reason :: reject_reason

record table_stats =
  st_Accepted :: uint64
  st_Rejected :: uint64
  st_BufferLen :: nat

record table =
  tbl_schema :: schema
  tbl_buf :: write_buffer
  tbl_bloom :: "bloom_filter option"
  tbl_pkIdx :: nat
  tbl_pkType :: column_type
  tbl_accepted :: uint64
  tbl_rejected :: uint64

datatype table_error =
    SchemaInvalid schema_error
  | BloomInvalid bloom_error
  | SegmentUnreadable segment_error
  | IncompatibleVersion "16 word"
  | IncompatibleNoPK
  | IncompatibleNoBloom
  | LoadedSchemaInvalid schema_error

section \<open>Operations\<close>

definition pkBytes :: "go_value \<Rightarrow> column_type \<Rightarrow> (pk_error, byte list) outcome" where
  "pkBytes v t =
     (case t of
        Int64 \<Rightarrow> (case v of VInt64 x \<Rightarrow> Ok (putUint64 x) | _ \<Rightarrow> Err (PKTypeMismatch ''int64'' (go_type_name v)))
      | Float64 \<Rightarrow> (case v of VFloat64 x \<Rightarrow> Ok (putUint64 (float64bits x))
          | _ \<Rightarrow> Err (PKTypeMismatch ''float64'' (go_type_name v)))
      | String \<Rightarrow> (case v of VString str \<Rightarrow> Ok (bytes_of str) | _ \<Rightarrow> Err (PKTypeMismatch ''string'' (go_type_name v)))
      | OtherType b \<Rightarrow> Err (PKUnsupportedType (column_type_string t)))"

text \<open>The construction shared by \<open>CreateTable\<close> and \<open>LoadTable\<close>; \<open>Columns[-1]\<close> would panic.\<close>

definition build_table :: "schema \<Rightarrow> bloom_filter option \<Rightarrow> ('e, table) outcome" where
  "build_table s bf =
     (let pkIdx = PKIndex s
      in if pkIdx < 0 then Panic IndexOutOfRange
         else bind_ok (fetch (schema_columns s) (nat pkIdx)) (\<lambda>c.
           Ok \<lparr>tbl_schema = s, tbl_buf = NewWriteBuffer s, tbl_bloom = bf, tbl_pkIdx = nat pkIdx,
               tbl_pkType = col_type c, tbl_accepted = 0, tbl_rejected = 0\<rparr>))"

definition CreateTable :: "platform \<Rightarrow> schema \<Rightarrow> table_options \<Rightarrow> (table_error, table) outcome" where
  "CreateTable p s opts =
     bind_ok (map_err SchemaInvalid (Validate s)) (\<lambda>_.
     bind_ok (if opt_BloomDisabled opts then Ok None
              else bind_ok (map_err BloomInvalid
                     (New p (opt_BloomExpectedItems opts) (opt_BloomTargetFPR opts))) (\<lambda>f. Ok (Some f)))
       (\<lambda>bf. build_table s bf))"

definition LoadTable :: "(string \<Rightarrow> byte list option) \<Rightarrow> string \<Rightarrow> (table_error, table) outcome" where
  "LoadTable readFile path =
     bind_ok (map_err SegmentUnreadable (OpenSegment readFile path)) (\<lambda>seg.
       if seg_version seg \<noteq> segmentVersionV2 then Err (IncompatibleVersion (seg_version seg))
       else if seg_pkName seg = [] then Err IncompatibleNoPK
       else if seg_bloomFilter seg = None then Err IncompatibleNoBloom
       else bind_ok (map_err LoadedSchemaInvalid (Validate (seg_schema seg))) (\<lambda>_.
         build_table (seg_schema seg) (seg_bloomFilter seg)))"

definition reject :: "table \<Rightarrow> reject_reason \<Rightarrow> table \<times> insert_result" where
  "reject t reason =
     (t\<lparr>tbl_rejected := tbl_rejected t + 1\<rparr>, \<lparr>ir_Accepted = False, ir_Reason = reason\<rparr>)"

definition Insert :: "table \<Rightarrow> row \<Rightarrow> (unit, table \<times> insert_result) outcome" where
  "Insert t row =
     (if length row \<noteq> length (schema_columns (tbl_schema t))
      then Ok (reject t (RowLength (length row) (length (schema_columns (tbl_schema t)))))
      else
        (case tbl_bloom t of
           Some bloom \<Rightarrow>
             bind_ok (fetch row (tbl_pkIdx t)) (\<lambda>v.
               (case pkBytes v (tbl_pkType t) of
                  Err err \<Rightarrow>
                    bind_ok (fetch (schema_columns (tbl_schema t)) (tbl_pkIdx t)) (\<lambda>c.
                      Ok (reject t (PKError (col_name c) err)))
                | Panic p \<Rightarrow> Panic p
                | Ok key \<Rightarrow>
                    bind_ok (Contains bloom key) (\<lambda>dup.
                      if dup then Ok (reject t Duplicate)
                      else
                        (case Append (tbl_buf t) row of
                           (buf, Err err) \<Rightarrow> Ok (reject (t\<lparr>tbl_buf := buf\<rparr>) (AppendFailed err))
                         | (buf, Panic p) \<Rightarrow> Panic p
                         | (buf, Ok _) \<Rightarrow>
                             bind_ok (Add bloom key) (\<lambda>bloom.
                               Ok (t\<lparr>tbl_buf := buf, tbl_bloom := Some bloom,
                                     tbl_accepted := tbl_accepted t + 1\<rparr>,
                                   \<lparr>ir_Accepted = True, ir_Reason = NoReason\<rparr>))))))
         | None \<Rightarrow>
             (case Append (tbl_buf t) row of
                (buf, Err err) \<Rightarrow> Ok (reject (t\<lparr>tbl_buf := buf\<rparr>) (AppendFailed err))
              | (buf, Panic p) \<Rightarrow> Panic p
              | (buf, Ok _) \<Rightarrow>
                  Ok (t\<lparr>tbl_buf := buf, tbl_accepted := tbl_accepted t + 1\<rparr>,
                      \<lparr>ir_Accepted = True, ir_Reason = NoReason\<rparr>))))"

definition Flush :: "'w writer \<Rightarrow> table \<Rightarrow> 'w writing" where
  "Flush wr t =
     WriteSegment wr (tbl_schema t) (tbl_buf t)
       \<lparr>opt_PKName = schema_pk (tbl_schema t), opt_Bloom = tbl_bloom t\<rparr>"

definition Stats :: "table \<Rightarrow> table_stats" where
  "Stats t = \<lparr>st_Accepted = tbl_accepted t, st_Rejected = tbl_rejected t, st_BufferLen = Len (tbl_buf t)\<rparr>"

text \<open>A sequence of inserts and their results.\<close>

fun insert_all :: "table \<Rightarrow> row list \<Rightarrow> (unit, table \<times> insert_result list) outcome" where
  "insert_all t [] = Ok (t, [])"
| "insert_all t (r # rs) =
     bind_ok (Insert t r) (\<lambda>(t, res).
     bind_ok (insert_all t rs) (\<lambda>(t, ress). Ok (t, res # ress)))"

section \<open>Keys\<close>

definition row_key :: "nat \<Rightarrow> column_type \<Rightarrow> row \<Rightarrow> byte list option" where
  "row_key idx t row =
     (if idx < length row then case pkBytes (row ! idx) t of Ok b \<Rightarrow> Some b | _ \<Rightarrow> None else None)"

lemma pkBytes_no_panic [simp]: "pkBytes v t \<noteq> Panic p"
  by (simp add: pkBytes_def split: column_type.split go_value.split)

lemma pkBytes_Ok_iff: "(\<exists>b. pkBytes v t = Ok b) \<longleftrightarrow> has_type v t"
  by (cases t; cases v) (simp_all add: pkBytes_def)

lemma pkBytes_inject:
  assumes "pkBytes v t = Ok b" "pkBytes w t = Ok b"
  shows "v = w"
proof -
  have "has_type v t" "has_type w t"
    using assms pkBytes_Ok_iff by blast+
  with assms show ?thesis
    by (cases t) (auto simp: pkBytes_def float64_eq_iff)
qed

lemma row_key_inject:
  assumes "row_key idx t r = Some k" "row_key idx t q = Some k"
  shows "r ! idx = q ! idx"
  using assms pkBytes_inject by (auto simp: row_key_def split: if_splits outcome.splits)

section \<open>Uniqueness, for any filter and any buffer\<close>

text \<open>
  The key of a row may fail to exist (an ill-typed value); a row the buffer admits has one. A row
  is accepted when the filter does not know its key and the buffer admits it.
\<close>

locale dedup_table =
  membership_filter contains add finv +
  row_buffer append_row clear contents admits binv
  for contains :: "'f \<Rightarrow> 'k \<Rightarrow> (unit, bool) outcome" and add :: "'f \<Rightarrow> 'k \<Rightarrow> (unit, 'f) outcome"
    and finv :: "'f \<Rightarrow> bool" and append_row :: "'b \<Rightarrow> 'r \<Rightarrow> 'b \<times> ('e, unit) outcome"
    and clear :: "'b \<Rightarrow> 'b" and contents :: "'b \<Rightarrow> 'r list" and admits :: "'b \<Rightarrow> 'r \<Rightarrow> bool"
    and binv :: "'b \<Rightarrow> bool" +
  fixes key :: "'r \<Rightarrow> 'k option"
  assumes admitted_key: "binv b \<Longrightarrow> admits b r \<Longrightarrow> \<exists>k. key r = Some k"
begin

definition knows :: "'f \<Rightarrow> 'k \<Rightarrow> bool" where
  "knows f k \<longleftrightarrow> contains f k = Ok True"

definition good :: "'f \<Rightarrow> 'b \<Rightarrow> bool" where
  "good f b \<longleftrightarrow> finv f \<and> binv b \<and> (\<forall>r \<in> set (contents b). \<exists>k. key r = Some k \<and> knows f k) \<and>
     distinct (map key (contents b))"

lemma contains_cases: "finv f \<Longrightarrow> contains f k = Ok (knows f k)"
  using contains_total [of f k] by (auto simp: knows_def)

text \<open>Accepting a row: both structures take it, and the filter keeps what it knew.\<close>

lemma accept:
  assumes "good f b" "key r = Some k" "\<not> knows f k" "append_row b r = (b', Ok ())"
  obtains f' where "add f k = Ok f'" "good f' b'" "contents b' = contents b @ [r]" "admits b' = admits b"
    "knows f' k" "\<And>j. knows f j \<Longrightarrow> knows f' j"
proof -
  from assms(1) have inv: "finv f" "binv b" by (simp_all add: good_def)
  obtain f' where f': "add f k = Ok f'" "finv f'" using add_total [OF inv(1)] by blast
  have k: "knows f' k" using add_self [OF inv(1) f'(1)] by (simp add: knows_def)
  have mono: "knows f' j" if "knows f j" for j
    using add_keeps [OF inv(1) f'(1)] that by (simp add: knows_def)
  note b' = append_Ok [OF inv(2) assms(4)]
  have "key q \<noteq> key r" if "q \<in> set (contents b)" for q
    using that assms(1-3) by (auto simp: good_def)
  then have "key r \<notin> key ` set (contents b)" by force
  then have "good f' b'"
    using assms(1,2) f' b' k mono by (auto simp: good_def)
  then show ?thesis using that f' b' k mono by blast
qed

end

text \<open>The buffers whose schema has a column of type \<open>t\<close> at the primary-key index.\<close>

definition keyed_buffer :: "nat \<Rightarrow> column_type \<Rightarrow> write_buffer \<Rightarrow> bool" where
  "keyed_buffer idx t b \<longleftrightarrow>
     wf_buffer b \<and> idx < length (schema_columns (wb_schema b)) \<and>
     col_type (schema_columns (wb_schema b) ! idx) = t"

lemma conforming_key:
  assumes "keyed_buffer idx t b" "row_conforms (wb_schema b) r"
  shows "\<exists>k. row_key idx t r = Some k"
proof -
  from assms have "idx < length r" "has_type (r ! idx) t"
    by (auto simp: keyed_buffer_def row_conforms_def list_all2_conv_all_nth)
  then show ?thesis
    using pkBytes_Ok_iff [of "r ! idx" t] by (auto simp: row_key_def)
qed

lemma keyed_buffer_row_buffer:
  "row_buffer Append Reset buffer_rows (\<lambda>b. row_conforms (wb_schema b)) (keyed_buffer idx t)"
proof
  fix b r
  assume b: "keyed_buffer idx t b"
  then have wf: "wf_buffer b" by (simp add: keyed_buffer_def)
  show "\<exists>b'. Append b r = (b', Ok ()) \<and> keyed_buffer idx t b' \<and> buffer_rows b' = buffer_rows b @ [r] \<and>
           row_conforms (wb_schema b') = row_conforms (wb_schema b)"
    if row: "row_conforms (wb_schema b) r"
  proof -
    obtain b' where "Append b r = (b', Ok ())" "wf_buffer b'" "wb_schema b' = wb_schema b"
        "buffer_rows b' = buffer_rows b @ [r]"
      using wf row by (rule Append_conforming)
    with b show ?thesis by (simp add: keyed_buffer_def)
  qed
  show "\<not> row_conforms (wb_schema b) r \<Longrightarrow> \<exists>e. Append b r = (b, Err e)"
    by (rule Append_rejects)
  show "keyed_buffer idx t (Reset b) \<and> buffer_rows (Reset b) = [] \<and>
      row_conforms (wb_schema (Reset b)) = row_conforms (wb_schema b)"
    using b by (simp add: Reset_props keyed_buffer_def)
qed

interpretation dedup: dedup_table Contains Add wf_filter Append Reset buffer_rows
  "\<lambda>b. row_conforms (wb_schema b)" "keyed_buffer idx t" "row_key idx t" for idx t
  by (intro dedup_table.intro dedup_table_axioms.intro keyed_buffer_row_buffer
      bloom.membership_filter_axioms conforming_key)

section \<open>The invariant of a table\<close>

definition wf_table :: "table \<Rightarrow> bool" where
  "wf_table t \<longleftrightarrow>
     Validate (tbl_schema t) = Ok () \<and> PKIndex (tbl_schema t) = int (tbl_pkIdx t) \<and>
     wb_schema (tbl_buf t) = tbl_schema t \<and>
     keyed_buffer (tbl_pkIdx t) (tbl_pkType t) (tbl_buf t) \<and>
     (\<forall>f. tbl_bloom t = Some f \<longrightarrow> dedup.good (tbl_pkIdx t) (tbl_pkType t) f (tbl_buf t))"

text \<open>The filter of the table answers yes for the key of the row.\<close>

definition maybe_known :: "table \<Rightarrow> row \<Rightarrow> bool" where
  "maybe_known t row =
     (case tbl_bloom t of
        None \<Rightarrow> False
      | Some f \<Rightarrow>
          (case row_key (tbl_pkIdx t) (tbl_pkType t) row of
             None \<Rightarrow> False
           | Some k \<Rightarrow> Contains f k = Ok True))"

definition same_shape :: "table \<Rightarrow> table \<Rightarrow> bool" where
  "same_shape t t' \<longleftrightarrow>
     tbl_schema t' = tbl_schema t \<and> tbl_pkIdx t' = tbl_pkIdx t \<and> tbl_pkType t' = tbl_pkType t \<and>
     (tbl_bloom t' = None \<longleftrightarrow> tbl_bloom t = None)"

text \<open>One insert, as a step from \<open>t\<close> to \<open>t'\<close> that accepts the row or not.\<close>

definition insert_step :: "table \<Rightarrow> row \<Rightarrow> bool \<Rightarrow> table \<Rightarrow> bool" where
  "insert_step t row acc t' \<longleftrightarrow>
     wf_table t' \<and> same_shape t t' \<and> acc = (row_conforms (tbl_schema t) row \<and> \<not> maybe_known t row) \<and>
     buffer_rows (tbl_buf t') = buffer_rows (tbl_buf t) @ (if acc then [row] else []) \<and>
     tbl_accepted t' = tbl_accepted t + (if acc then 1 else 0) \<and>
     tbl_rejected t' = tbl_rejected t + (if acc then 0 else 1) \<and>
     (\<forall>q. maybe_known t q \<longrightarrow> maybe_known t' q) \<and>
     (acc \<longrightarrow> tbl_bloom t \<noteq> None \<longrightarrow> maybe_known t' row)"

lemma reject_step:
  assumes "wf_table t" "\<not> row_conforms (tbl_schema t) row \<or> maybe_known t row"
  shows "insert_step t row False (fst (reject t reason))" "ir_Accepted (snd (reject t reason)) = False"
proof -
  have "maybe_known (t\<lparr>tbl_rejected := x\<rparr>) q = maybe_known t q" for x q
    by (simp add: maybe_known_def split: option.split)
  then show "insert_step t row False (fst (reject t reason))" "ir_Accepted (snd (reject t reason)) = False"
    using assms by (auto simp: reject_def insert_step_def same_shape_def wf_table_def)
qed

lemma conforms_length: "row_conforms s row \<Longrightarrow> length row = length (schema_columns s)"
  by (auto simp: row_conforms_def dest: list_all2_lengthD)

lemma wf_table_buffer:
  assumes "wf_table t"
  shows "wf_buffer (tbl_buf t)" "wb_schema (tbl_buf t) = tbl_schema t"
    "tbl_pkIdx t < length (schema_columns (tbl_schema t))"
  using assms by (auto simp: wf_table_def keyed_buffer_def)

lemma Insert_spec:
  assumes wf: "wf_table t"
  shows "\<exists>t' res. Insert t row = Ok (t', res) \<and> insert_step t row (ir_Accepted res) t'"
proof (cases "length row = length (schema_columns (tbl_schema t))")
  case False
  then have "\<not> row_conforms (tbl_schema t) row" using conforms_length by blast
  with False show ?thesis
    using reject_step [OF wf] by (simp add: Insert_def) (metis prod.collapse)
next
  case len: True
  have idx: "tbl_pkIdx t < length row" "tbl_pkIdx t < length (schema_columns (tbl_schema t))"
    using wf_table_buffer [OF wf] len by simp_all
  have rejects: "\<exists>t' res. Ok (reject t reason) = (Ok (t', res) :: (unit, _) outcome) \<and>
      insert_step t row (ir_Accepted res) t'"
    if "\<not> row_conforms (tbl_schema t) row \<or> maybe_known t row" for reason
    using reject_step [OF wf that] by (metis prod.collapse)
  show ?thesis
  proof (cases "tbl_bloom t")
    case None
    then have unknown: "\<not> maybe_known u row" if "tbl_bloom u = None" for u row
      using that by (simp add: maybe_known_def)
    show ?thesis
    proof (cases "row_conforms (tbl_schema t) row")
      case True
      with wf_table_buffer [OF wf] obtain b' where
        b': "Append (tbl_buf t) row = (b', Ok ())" "wf_buffer b'" "wb_schema b' = tbl_schema t"
          "buffer_rows b' = buffer_rows (tbl_buf t) @ [row]"
        using Append_conforming [of "tbl_buf t" row] by metis
      let ?t = "t\<lparr>tbl_buf := b', tbl_accepted := tbl_accepted t + 1\<rparr>"
      have "insert_step t row True ?t"
        using wf b' True None unknown
        by (auto simp: insert_step_def same_shape_def wf_table_def keyed_buffer_def)
      with b' len None show ?thesis by (simp add: Insert_def)
    next
      case False
      with wf_table_buffer(2) [OF wf] obtain e where "Append (tbl_buf t) row = (tbl_buf t, Err e)"
        using Append_rejects by metis
      with len None rejects False show ?thesis by (simp add: Insert_def)
    qed
  next
    case (Some f)
    with wf have good: "dedup.good (tbl_pkIdx t) (tbl_pkType t) f (tbl_buf t)"
      by (simp add: wf_table_def)
    then have "wf_filter f" by (simp add: dedup.good_def)
    note contains = dedup.contains_cases [OF this]
    have shape: "Insert t row =
       (case pkBytes (row ! tbl_pkIdx t) (tbl_pkType t) of
          Err err \<Rightarrow> Ok (reject t (PKError (col_name (schema_columns (tbl_schema t) ! tbl_pkIdx t)) err))
        | Panic p \<Rightarrow> Panic p
        | Ok key \<Rightarrow>
            if dedup.knows f key then Ok (reject t Duplicate)
            else (case Append (tbl_buf t) row of
                (buf, Err err) \<Rightarrow> Ok (reject (t\<lparr>tbl_buf := buf\<rparr>) (AppendFailed err))
              | (buf, Panic p) \<Rightarrow> Panic p
              | (buf, Ok _) \<Rightarrow> bind_ok (Add f key) (\<lambda>bloom.
                   Ok (t\<lparr>tbl_buf := buf, tbl_bloom := Some bloom, tbl_accepted := tbl_accepted t + 1\<rparr>,
                       \<lparr>ir_Accepted = True, ir_Reason = NoReason\<rparr>))))"
      using len idx by (cases "pkBytes (row ! tbl_pkIdx t) (tbl_pkType t)") (simp_all add: Insert_def Some contains)
    show ?thesis
    proof (cases "pkBytes (row ! tbl_pkIdx t) (tbl_pkType t)")
      case (Ok key)
      then have key: "row_key (tbl_pkIdx t) (tbl_pkType t) row = Some key"
        using idx by (simp add: row_key_def)
      then have known: "maybe_known t row \<longleftrightarrow> dedup.knows f key"
        using Some by (simp add: maybe_known_def dedup.knows_def)
      show ?thesis
      proof (cases "dedup.knows f key")
        case True
        with known rejects show ?thesis by (simp add: shape Ok)
      next
        case new: False
        show ?thesis
        proof (cases "row_conforms (tbl_schema t) row")
          case True
          with wf_table_buffer [OF wf] obtain b' where
            b': "Append (tbl_buf t) row = (b', Ok ())" "wb_schema b' = tbl_schema t"
            using Append_conforming [of "tbl_buf t" row] by metis
          obtain f' where f': "Add f key = Ok f'" "dedup.good (tbl_pkIdx t) (tbl_pkType t) f' b'"
              "buffer_rows b' = buffer_rows (tbl_buf t) @ [row]" "dedup.knows f' key"
              "\<And>j. dedup.knows f j \<Longrightarrow> dedup.knows f' j"
            using good key new b'(1) by (rule dedup.accept) blast
          let ?t = "t\<lparr>tbl_buf := b', tbl_bloom := Some f', tbl_accepted := tbl_accepted t + 1\<rparr>"
          have kb: "keyed_buffer (tbl_pkIdx t) (tbl_pkType t) b'"
            using f'(2) by (simp add: dedup.good_def)
          have "wf_table ?t"
            using wf b'(2) f'(2) kb by (simp add: wf_table_def)
          moreover have "maybe_known ?t q" if "maybe_known t q" for q
            using that f'(5) Some by (auto simp: maybe_known_def dedup.knows_def split: option.splits)
          moreover have "maybe_known ?t row"
            using f'(4) key by (simp add: maybe_known_def dedup.knows_def)
          ultimately have "insert_step t row True ?t"
            using True known new f'(3) Some by (simp add: insert_step_def same_shape_def)
          with b' f' new show ?thesis by (simp add: shape Ok)
        next
          case False
          with wf_table_buffer(2) [OF wf] obtain e where "Append (tbl_buf t) row = (tbl_buf t, Err e)"
            using Append_rejects by metis
          with new rejects False show ?thesis by (simp add: shape Ok)
        qed
      qed
    next
      case (Err e)
      then have "\<not> has_type (row ! tbl_pkIdx t) (tbl_pkType t)"
        using pkBytes_Ok_iff by (metis outcome.distinct(1))
      then have "\<not> row_conforms (tbl_schema t) row"
        using wf idx by (auto simp: wf_table_def keyed_buffer_def row_conforms_def list_all2_conv_all_nth)
      with rejects show ?thesis by (simp add: shape Err)
    qed simp
  qed
qed

section \<open>Sequences of inserts\<close>

definition accepted_rows :: "row list \<Rightarrow> insert_result list \<Rightarrow> row list" where
  "accepted_rows rows results = map fst (filter (\<lambda>(r, res). ir_Accepted res) (zip rows results))"

lemma accepted_rows_simps [simp]:
  "accepted_rows [] results = []"
  "accepted_rows (r # rs) (res # ress) =
     (if ir_Accepted res then r # accepted_rows rs ress else accepted_rows rs ress)"
  by (simp_all add: accepted_rows_def)

lemma length_accepted_rows: "length (accepted_rows rows results) \<le> length rows"
  unfolding accepted_rows_def
  using length_filter_le [of "\<lambda>(r, res). ir_Accepted res" "zip rows results"] by simp

lemma insert_all_spec:
  assumes "wf_table t"
  obtains t' results where "insert_all t rows = Ok (t', results)" "wf_table t'" "same_shape t t'"
    "length results = length rows"
    "buffer_rows (tbl_buf t') = buffer_rows (tbl_buf t) @ accepted_rows rows results"
    "tbl_accepted t' = tbl_accepted t + of_nat (length (accepted_rows rows results))"
    "tbl_rejected t' = tbl_rejected t + of_nat (length rows - length (accepted_rows rows results))"
    "\<And>q. maybe_known t q \<Longrightarrow> maybe_known t' q"
    "\<And>q. q \<in> set (accepted_rows rows results) \<Longrightarrow> tbl_bloom t \<noteq> None \<Longrightarrow> maybe_known t' q"
  using assms
proof (induction rows arbitrary: t thesis)
  case Nil
  show ?case by (rule Nil(1) [of t "[]"]) (use Nil in \<open>auto simp: same_shape_def\<close>)
next
  case (Cons r rows)
  obtain t1 res where 1: "Insert t r = Ok (t1, res)" "insert_step t r (ir_Accepted res) t1"
    using Insert_spec [OF Cons.prems(2)] by blast
  then have wf1: "wf_table t1" and shape: "same_shape t t1"
    and b1: "buffer_rows (tbl_buf t1) = buffer_rows (tbl_buf t) @ (if ir_Accepted res then [r] else [])"
    and c1: "tbl_accepted t1 = tbl_accepted t + (if ir_Accepted res then 1 else 0)"
      "tbl_rejected t1 = tbl_rejected t + (if ir_Accepted res then 0 else 1)"
    and k1: "\<And>q. maybe_known t q \<Longrightarrow> maybe_known t1 q"
      "ir_Accepted res \<Longrightarrow> tbl_bloom t \<noteq> None \<Longrightarrow> maybe_known t1 r"
    by (auto simp: insert_step_def)
  obtain t' results where 2: "insert_all t1 rows = Ok (t', results)" "wf_table t'" "same_shape t1 t'"
    "length results = length rows"
    "buffer_rows (tbl_buf t') = buffer_rows (tbl_buf t1) @ accepted_rows rows results"
    "tbl_accepted t' = tbl_accepted t1 + of_nat (length (accepted_rows rows results))"
    "tbl_rejected t' = tbl_rejected t1 + of_nat (length rows - length (accepted_rows rows results))"
    "\<And>q. maybe_known t1 q \<Longrightarrow> maybe_known t' q"
    "\<And>q. q \<in> set (accepted_rows rows results) \<Longrightarrow> tbl_bloom t1 \<noteq> None \<Longrightarrow> maybe_known t' q"
    using wf1 by (rule Cons.IH [rotated]) blast
  have sub: "Suc (length rows) - length (accepted_rows rows results) =
      Suc (length rows - length (accepted_rows rows results))"
    using length_accepted_rows [of rows results] by simp
  show ?case
  proof (rule Cons.prems(1) [of t' "res # results"])
    show "insert_all t (r # rows) = Ok (t', res # results)" using 1 2 by simp
    show "same_shape t t'" using shape 2(3) by (simp add: same_shape_def)
    show "maybe_known t' q" if "q \<in> set (accepted_rows (r # rows) (res # results))" "tbl_bloom t \<noteq> None" for q
      using that 2(8,9) k1(2) shape by (auto simp: same_shape_def split: if_splits)
  qed (use 2 b1 c1 k1 sub in auto)
qed

lemma insert_all_ex:
  assumes "wf_table t"
  shows "\<exists>t' results. insert_all t rows = Ok (t', results) \<and> wf_table t' \<and> same_shape t t' \<and>
    length results = length rows \<and>
    buffer_rows (tbl_buf t') = buffer_rows (tbl_buf t) @ accepted_rows rows results \<and>
    tbl_accepted t' = tbl_accepted t + of_nat (length (accepted_rows rows results)) \<and>
    tbl_rejected t' = tbl_rejected t + of_nat (length rows - length (accepted_rows rows results)) \<and>
    (\<forall>q. maybe_known t q \<longrightarrow> maybe_known t' q)"
  using assms by (rule insert_all_spec [where rows = rows]) blast

text \<open>A key that the filter knows is rejected whenever it comes; a conforming row makes its key known.\<close>

lemma insert_all_known:
  "wf_table t \<Longrightarrow> insert_all t rows = Ok (t', results) \<Longrightarrow> i < length rows \<Longrightarrow> maybe_known t (rows ! i) \<Longrightarrow>
   \<not> ir_Accepted (results ! i)"
proof (induction rows arbitrary: t results i)
  case (Cons r rows)
  from Cons.prems(2) obtain u res results' where 1: "Insert t r = Ok (u, res)" "insert_all u rows = Ok (t', results')"
      "results = res # results'"
    by auto
  have step: "insert_step t r (ir_Accepted res) u"
    using Insert_spec [OF Cons.prems(1), of r] 1(1) by auto
  show ?case
  proof (cases i)
    case 0
    with step Cons.prems(4) 1(3) show ?thesis by (simp add: insert_step_def)
  next
    case (Suc k)
    with Cons.prems step have "wf_table u" "k < length rows" "maybe_known u (rows ! k)"
      by (auto simp: insert_step_def)
    from Cons.IH [OF this(1) 1(2) this(2,3)] show ?thesis by (simp add: Suc 1(3))
  qed
qed simp

lemma same_key_known:
  assumes "row_key (tbl_pkIdx t) (tbl_pkType t) q = row_key (tbl_pkIdx t) (tbl_pkType t) r"
  shows "maybe_known t q = maybe_known t r"
  by (simp add: maybe_known_def assms split: option.split)

lemma insert_all_repeated:
  "wf_table t \<Longrightarrow> tbl_bloom t \<noteq> None \<Longrightarrow> insert_all t rows = Ok (t', results) \<Longrightarrow> i < length rows \<Longrightarrow> j < i \<Longrightarrow>
   row_conforms (tbl_schema t) (rows ! j) \<Longrightarrow>
   row_key (tbl_pkIdx t) (tbl_pkType t) (rows ! i) = row_key (tbl_pkIdx t) (tbl_pkType t) (rows ! j) \<Longrightarrow>
   \<not> ir_Accepted (results ! i)"
proof (induction rows arbitrary: t results i j)
  case (Cons r rows)
  from Cons.prems(3) obtain u res results' where 1: "Insert t r = Ok (u, res)" "insert_all u rows = Ok (t', results')"
      "results = res # results'"
    by auto
  have "insert_step t r (ir_Accepted res) u"
    using Insert_spec [OF Cons.prems(1), of r] 1(1) by auto
  then have u: "wf_table u" "same_shape t u" "row_conforms (tbl_schema t) r \<Longrightarrow> maybe_known u r"
    using Cons.prems(2) by (auto simp: insert_step_def)
  obtain k where i: "i = Suc k" "k < length rows" using Cons.prems(4,5) by (cases i) auto
  show ?case
  proof (cases j)
    case 0
    then have "maybe_known u (rows ! k)"
      using Cons.prems(6,7) u(2,3) i same_key_known [of u "rows ! k" r] by (simp add: same_shape_def)
    from insert_all_known [OF u(1) 1(2) i(2) this] show ?thesis by (simp add: i 1(3))
  next
    case (Suc l)
    have "\<not> ir_Accepted (results' ! k)"
      using Cons.prems(2,5-7) u(2) i Suc by (intro Cons.IH [OF u(1) _ 1(2), of k l]) (auto simp: same_shape_def)
    then show ?thesis by (simp add: i 1(3))
  qed
qed simp

text \<open>What every successful append keeps of the buffer, every sequence of inserts keeps.\<close>

lemma Insert_buffer:
  assumes "Insert t r = Ok (t', res)"
  shows "tbl_buf t' = tbl_buf t \<or> Append (tbl_buf t) r = (tbl_buf t', Ok ())"
proof -
  have refused: "buf = b" if "Append b r = (buf, Err e)" for b buf e
    using Append_refused [OF that] .
  show ?thesis
  proof (cases "tbl_bloom t")
    case None
    with assms refused show ?thesis by (auto simp: Insert_def reject_def split: if_splits outcome.splits prod.splits)
  next
    case (Some f)
    show ?thesis
    proof (cases "length r = length (schema_columns (tbl_schema t))")
      case True
      with assms Some obtain v where "fetch r (tbl_pkIdx t) = (Ok v :: (unit, _) outcome)"
        by (auto simp: Insert_def)
      with True assms Some refused show ?thesis
        by (cases "pkBytes v (tbl_pkType t)")
          (auto simp: Insert_def reject_def split: if_splits outcome.splits prod.splits)
    qed (use assms in \<open>auto simp: Insert_def reject_def\<close>)
  qed
qed

lemma insert_all_buffer:
  assumes "insert_all t rows = Ok (t', results)" "P (tbl_buf t)"
    and "\<And>b r b'. r \<in> set rows \<Longrightarrow> P b \<Longrightarrow> Append b r = (b', Ok ()) \<Longrightarrow> P b'"
  shows "P (tbl_buf t')"
  using assms
proof (induction rows arbitrary: t results)
  case (Cons r rows)
  then obtain t1 res ress where 1: "Insert t r = Ok (t1, res)" "insert_all t1 rows = Ok (t', ress)" by auto
  have "P (tbl_buf t1)"
    using Insert_buffer [OF 1(1)] Cons.prems(2,3) by (metis list.set_intros(1))
  with 1(2) show ?case using Cons.IH Cons.prems(3) by (metis list.set_intros(2))
qed simp

text \<open>Without a filter the accepted rows are the conforming ones.\<close>

lemma insert_all_unfiltered:
  assumes "wf_table t" "tbl_bloom t = None" "insert_all t rows = Ok (t', results)"
  shows "accepted_rows rows results = filter (row_conforms (tbl_schema t)) rows"
  using assms
proof (induction rows arbitrary: t results)
  case (Cons r rows)
  from Cons.prems(3) obtain u res results' where 1: "Insert t r = Ok (u, res)"
      "insert_all u rows = Ok (t', results')" "results = res # results'"
    by auto
  with Insert_spec [OF Cons.prems(1), of r] have step: "insert_step t r (ir_Accepted res) u" by auto
  then have "ir_Accepted res = row_conforms (tbl_schema t) r"
    using Cons.prems(2) by (simp add: insert_step_def maybe_known_def)
  moreover have "accepted_rows rows results' = filter (row_conforms (tbl_schema u)) rows"
    using step Cons.prems(2) 1(2) by (intro Cons.IH) (simp_all add: insert_step_def same_shape_def)
  moreover have "tbl_schema u = tbl_schema t"
    using step by (simp add: insert_step_def same_shape_def)
  ultimately show ?case using 1(3) by simp
qed simp

section \<open>Construction\<close>

lemma good_NewWriteBuffer:
  assumes "wf_filter f" "keyed_buffer idx t (NewWriteBuffer s)"
  shows "dedup.good idx t f (NewWriteBuffer s)"
  using assms by (simp add: dedup.good_def NewWriteBuffer_props)

lemma build_table_wf:
  assumes "Validate s = Ok ()" "\<And>f. bf = Some f \<Longrightarrow> wf_filter f"
  obtains t where "build_table s bf = Ok t" "wf_table t" "tbl_schema t = s" "tbl_bloom t = bf"
    "buffer_rows (tbl_buf t) = []" "tbl_accepted t = 0" "tbl_rejected t = 0"
proof -
  obtain i where i: "PKIndex s = int i" "i < length (schema_columns s)"
    using assms(1) by (rule PKIndex_valid)
  let ?t = "\<lparr>tbl_schema = s, tbl_buf = NewWriteBuffer s, tbl_bloom = bf, tbl_pkIdx = i,
      tbl_pkType = col_type (schema_columns s ! i), tbl_accepted = 0, tbl_rejected = 0\<rparr>"
  have kb: "keyed_buffer i (col_type (schema_columns s ! i)) (NewWriteBuffer s)"
    using i by (simp add: keyed_buffer_def NewWriteBuffer_props)
  have "build_table s bf = Ok ?t" using i by (simp add: build_table_def)
  moreover have "wf_table ?t"
    using assms i kb good_NewWriteBuffer by (simp add: wf_table_def NewWriteBuffer_props)
  ultimately show ?thesis using that [of ?t] by (simp add: NewWriteBuffer_props)
qed

lemma CreateTable_wf:
  assumes "CreateTable p s opts = Ok t"
    and "\<not> opt_BloomDisabled opts \<Longrightarrow> \<not> f_is_nan (math_log p (opt_BloomTargetFPR opts))"
  shows "wf_table t" "tbl_schema t = s" "buffer_rows (tbl_buf t) = []" "tbl_accepted t = 0"
    "tbl_rejected t = 0" "tbl_bloom t = None \<longleftrightarrow> opt_BloomDisabled opts"
proof -
  from assms(1) obtain u bf where u: "Validate s = Ok u" and b: "build_table s bf = (Ok t :: (table_error, _) outcome)"
    and choice: "(if opt_BloomDisabled opts then Ok None
              else bind_ok (map_err BloomInvalid
                     (New p (opt_BloomExpectedItems opts) (opt_BloomTargetFPR opts))) (\<lambda>f. Ok (Some f))) = Ok bf"
    unfolding CreateTable_def bind_ok_Ok_iff map_err_Ok_iff by blast
  have v: "Validate s = Ok ()" using u by (cases u) simp
  from choice have bf: "if opt_BloomDisabled opts then bf = None
       else \<exists>f. New p (opt_BloomExpectedItems opts) (opt_BloomTargetFPR opts) = Ok f \<and> bf = Some f"
    by (auto split: if_splits)
  have "wf_filter f" if "bf = Some f" for f
    using that bf assms(2) New_wf by (auto split: if_splits)
  with v obtain t1 where "build_table s bf = (Ok t1 :: (table_error, _) outcome)" "wf_table t1" "tbl_schema t1 = s" "tbl_bloom t1 = bf"
    "buffer_rows (tbl_buf t1) = []" "tbl_accepted t1 = 0" "tbl_rejected t1 = 0"
    by (rule build_table_wf)
  with b have "wf_table t \<and> tbl_schema t = s \<and> tbl_bloom t = bf \<and> buffer_rows (tbl_buf t) = [] \<and>
      tbl_accepted t = 0 \<and> tbl_rejected t = 0"
    by simp
  with bf show "wf_table t" "tbl_schema t = s" "buffer_rows (tbl_buf t) = []" "tbl_accepted t = 0"
    "tbl_rejected t = 0" "tbl_bloom t = None \<longleftrightarrow> opt_BloomDisabled opts"
    by (auto split: if_splits)
qed

text \<open>Keys decide primary-key equality: distinct keys, distinct values.\<close>

lemma wf_table_distinct_pks:
  assumes "wf_table t" "tbl_bloom t \<noteq> None"
  shows "distinct (map (\<lambda>r. r ! tbl_pkIdx t) (buffer_rows (tbl_buf t)))"
proof -
  let ?key = "row_key (tbl_pkIdx t) (tbl_pkType t)"
  from assms have k: "\<forall>r \<in> set (buffer_rows (tbl_buf t)). \<exists>k. ?key r = Some k"
    and d: "distinct (map ?key (buffer_rows (tbl_buf t)))"
    by (auto simp: wf_table_def dedup.good_def)
  have len: "tbl_pkIdx t < length r" if "r \<in> set (buffer_rows (tbl_buf t))" for r
    using k that by (cases "tbl_pkIdx t < length r") (auto simp: row_key_def)
  have eq: "?key r = ?key q" if "r ! tbl_pkIdx t = q ! tbl_pkIdx t" "r \<in> set (buffer_rows (tbl_buf t))"
      "q \<in> set (buffer_rows (tbl_buf t))" for r q
    using that len [of r] len [of q] by (simp add: row_key_def)
  from d have dist: "distinct (buffer_rows (tbl_buf t))" "inj_on ?key (set (buffer_rows (tbl_buf t)))"
    by (simp_all add: distinct_map)
  have "inj_on (\<lambda>r. r ! tbl_pkIdx t) (set (buffer_rows (tbl_buf t)))"
    using eq dist(2) by (intro inj_onI) (blast dest: inj_onD)
  with dist(1) show ?thesis by (simp add: distinct_map)
qed

section \<open>A concrete table\<close>

definition example_table_opts :: table_options where
  "example_table_opts =
     \<lparr>opt_BloomExpectedItems = 1, opt_BloomTargetFPR = float_half, opt_BloomDisabled = False\<rparr>"

definition example_table :: table where
  "example_table =
     \<lparr>tbl_schema = example_schema, tbl_buf = NewWriteBuffer example_schema, tbl_bloom = Some example_filter,
      tbl_pkIdx = 0, tbl_pkType = Int64, tbl_accepted = 0, tbl_rejected = 0\<rparr>"

lemma CreateTable_example: "CreateTable example_platform example_schema example_table_opts = Ok example_table"
  by (simp add: CreateTable_def Validate_def build_table_def PKIndex_def ColumnIndex_def New_example
      example_table_opts_def example_table_def example_schema_def example_filter_def)

lemma example_table_log:
  "\<not> f_is_nan (math_log example_platform (opt_BloomTargetFPR example_table_opts))"
  by (simp add: example_table_opts_def example_log_not_nan)

lemma wf_example_table: "wf_table example_table"
  using CreateTable_wf [OF CreateTable_example example_table_log] by simp

section \<open>Properties\<close>

text \<open>
  C1: write-time uniqueness. On a table created with a filter, any sequence of inserts runs without
  panic; the buffer then holds exactly the accepted rows, in order, and no two of them have the same
  primary-key value (two doubles being the same when their bits are).
\<close>

theorem accepted_primary_keys_are_unique:
  assumes "CreateTable p s opts = Ok t" "\<not> opt_BloomDisabled opts"
    and "\<not> f_is_nan (math_log p (opt_BloomTargetFPR opts))"
  shows "\<exists>t' results. insert_all t rows = Ok (t', results) \<and> length results = length rows \<and>
    buffer_rows (tbl_buf t') = accepted_rows rows results \<and>
    distinct (map (\<lambda>r. r ! tbl_pkIdx t) (accepted_rows rows results))"
proof -
  have t: "wf_table t" "buffer_rows (tbl_buf t) = []" "tbl_bloom t \<noteq> None"
    using CreateTable_wf [OF assms(1)] assms(2,3) by simp_all
  obtain t' results where t': "insert_all t rows = Ok (t', results)" "wf_table t'" "same_shape t t'"
      "length results = length rows"
      "buffer_rows (tbl_buf t') = buffer_rows (tbl_buf t) @ accepted_rows rows results"
    using insert_all_ex [OF t(1), of rows] by blast
  moreover have "distinct (map (\<lambda>r. r ! tbl_pkIdx t') (buffer_rows (tbl_buf t')))"
    using t t' by (intro wf_table_distinct_pks) (auto simp: same_shape_def)
  ultimately show ?thesis using t(2) by (auto simp: same_shape_def)
qed

theorem accepted_primary_keys_are_unique_witness:
  "\<exists>t' results. insert_all example_table [[VInt64 1, VString ''x''], [VInt64 1, VString ''y'']] = Ok (t', results) \<and>
     length results = 2"
  using accepted_primary_keys_are_unique [OF CreateTable_example _ example_table_log,
      of "[[VInt64 1, VString ''x''], [VInt64 1, VString ''y'']]"]
  by (auto simp: example_table_opts_def)

text \<open>
  C12: the decision of \<open>Insert\<close>, exactly. On a well-formed table, with or without a filter, a row is
  accepted when its values have the column types and the filter does not answer yes for its key; the
  accepted row is appended to the buffer, a rejected one changes the rejection counter only, and the
  table stays well-formed.
\<close>

theorem Insert_decision:
  assumes "wf_table t"
  shows "\<exists>t' res. Insert t row = Ok (t', res) \<and> wf_table t' \<and>
    ir_Accepted res = (row_conforms (tbl_schema t) row \<and> \<not> maybe_known t row) \<and>
    buffer_rows (tbl_buf t') = buffer_rows (tbl_buf t) @ (if ir_Accepted res then [row] else []) \<and>
    tbl_accepted t' = tbl_accepted t + (if ir_Accepted res then 1 else 0) \<and>
    tbl_rejected t' = tbl_rejected t + (if ir_Accepted res then 0 else 1)"
  using Insert_spec [OF assms, of row] unfolding insert_step_def by blast

theorem Insert_decision_witness:
  "\<exists>t' res. Insert example_table [VString ''x''] = Ok (t', res) \<and> ir_Accepted res = False"
  using Insert_decision [OF wf_example_table, of "[VString ''x'']"]
  by (auto simp: row_conforms_def example_table_def example_schema_def)

text \<open>
  C20: no duplicate gets in. Once a row has been accepted by a table with a filter, every later row
  with the same primary-key value is rejected, whatever was inserted in between.
\<close>

theorem duplicates_are_rejected:
  assumes "wf_table t" "tbl_bloom t \<noteq> None"
    and "Insert t row = Ok (t1, res)" "ir_Accepted res"
    and "insert_all t1 rows = Ok (t2, results)"
    and "tbl_pkIdx t < length dup" "dup ! tbl_pkIdx t = row ! tbl_pkIdx t"
  shows "\<exists>t3 r. Insert t2 dup = Ok (t3, r) \<and> \<not> ir_Accepted r \<and>
    buffer_rows (tbl_buf t3) = buffer_rows (tbl_buf t2)"
proof -
  have step: "insert_step t row True t1"
    using Insert_spec [OF assms(1), of row] assms(3,4) by auto
  then have t1: "wf_table t1" "same_shape t t1" "maybe_known t1 row" and conf: "row_conforms (tbl_schema t) row"
    using assms(2) by (simp_all add: insert_step_def)
  obtain t' results' where t': "insert_all t1 rows = Ok (t', results')" "wf_table t'" "same_shape t1 t'"
      "\<And>q. maybe_known t1 q \<Longrightarrow> maybe_known t' q"
    using insert_all_ex [OF t1(1), of rows] by blast
  with assms(5) have t2: "wf_table t2" "same_shape t1 t2" "maybe_known t2 row"
    using t1(3) by auto
  have "tbl_pkIdx t < length row"
    using wf_table_buffer(3) [OF assms(1)] conforms_length [OF conf] by simp
  then have "row_key (tbl_pkIdx t) (tbl_pkType t) dup = row_key (tbl_pkIdx t) (tbl_pkType t) row"
    using assms(6,7) by (simp add: row_key_def)
  then have keys: "row_key (tbl_pkIdx t2) (tbl_pkType t2) dup = row_key (tbl_pkIdx t2) (tbl_pkType t2) row"
    using t1(2) t2(2) by (simp add: same_shape_def)
  have "maybe_known t2 dup"
    using t2(3) unfolding maybe_known_def keys .
  then show ?thesis
    using Insert_spec [OF t2(1), of dup] by (auto simp: insert_step_def)
qed

lemma Insert_example:
  "Insert example_table [VInt64 1, VString ''x''] = Ok (example_table\<lparr>tbl_buf := example_buffer,
     tbl_bloom := Some \<lparr>bf_m = 2, bf_k = 1, bf_bits = [1], bf_nAdded = 1\<rparr>, tbl_accepted := 1\<rparr>,
     \<lparr>ir_Accepted = True, ir_Reason = NoReason\<rparr>)"
proof -
  have "pkBytes (VInt64 1) Int64 = Ok [1, 0, 0, 0, 0, 0, 0, 0]"
    by (simp add: pkBytes_def putUint64_def le_bytes_numeral)
  moreover have "Contains example_filter [1, 0, 0, 0, 0, 0, 0, 0] = Ok False"
    "Add example_filter [1, 0, 0, 0, 0, 0, 0, 0] = Ok \<lparr>bf_m = 2, bf_k = 1, bf_bits = [1], bf_nAdded = 1\<rparr>"
    by (simp_all add: bloom_eval example_filter_def)
  ultimately show ?thesis
    using Append_example [unfolded example_row_def]
    by (simp add: Insert_def example_table_def example_schema_def)
qed

theorem duplicates_are_rejected_witness:
  "\<exists>t1 res t3 r. Insert example_table [VInt64 1, VString ''x''] = Ok (t1, res) \<and> ir_Accepted res \<and>
     Insert t1 [VInt64 1, VString ''other''] = Ok (t3, r) \<and> \<not> ir_Accepted r"
  using duplicates_are_rejected [OF wf_example_table _ Insert_example _ insert_all.simps(1),
      of "[VInt64 1, VString ''other'']"] Insert_example
  by (auto simp: example_table_def)

text \<open>
  The counters of \<open>Stats\<close>. After any sequence of inserts into a new table the accepted and
  rejected counts are the numbers of accepted and rejected rows (modulo \<open>2 ^ 64\<close>), and the buffer
  length is the number of accepted rows; with the filter disabled, the accepted rows are exactly the
  conforming ones.
\<close>

theorem stats_count_inserts:
  assumes "CreateTable p s opts = Ok t"
    and "opt_BloomDisabled opts \<or> \<not> f_is_nan (math_log p (opt_BloomTargetFPR opts))"
  shows "\<exists>t' results. insert_all t rows = Ok (t', results) \<and>
    Stats t' = \<lparr>st_Accepted = of_nat (length (accepted_rows rows results)),
      st_Rejected = of_nat (length rows - length (accepted_rows rows results)),
      st_BufferLen = length (accepted_rows rows results)\<rparr> \<and>
    (opt_BloomDisabled opts \<longrightarrow> accepted_rows rows results = filter (row_conforms s) rows)"
proof -
  have t: "wf_table t" "tbl_schema t = s" "buffer_rows (tbl_buf t) = []" "tbl_accepted t = 0" "tbl_rejected t = 0"
    "tbl_bloom t = None \<longleftrightarrow> opt_BloomDisabled opts"
    using CreateTable_wf [OF assms(1)] assms(2) by auto
  obtain t' results where t': "insert_all t rows = Ok (t', results)"
    "buffer_rows (tbl_buf t') = accepted_rows rows results"
    "tbl_accepted t' = of_nat (length (accepted_rows rows results))"
    "tbl_rejected t' = of_nat (length rows - length (accepted_rows rows results))"
    using insert_all_ex [OF t(1), of rows] t by auto
  have disabled: "opt_BloomDisabled opts \<longrightarrow> accepted_rows rows results = filter (row_conforms s) rows"
    using insert_all_unfiltered [OF t(1) _ t'(1)] t(2,6) by simp
  have "wb_rows (tbl_buf t') = length (accepted_rows rows results)"
    using t'(2) length_buffer_rows [of "tbl_buf t'"] by simp
  with t' disabled show ?thesis
    by (intro exI [of _ t'] exI [of _ results]) (simp add: Stats_def Len_def)
qed

theorem stats_count_inserts_witness:
  "\<exists>t' results. insert_all example_table [[VInt64 1, VString ''x''], []] = Ok (t', results) \<and>
     Stats t' = \<lparr>st_Accepted = of_nat (length (accepted_rows [[VInt64 1, VString ''x''], []] results)),
       st_Rejected = of_nat (length [[VInt64 1, VString ''x''], []] -
         length (accepted_rows [[VInt64 1, VString ''x''], []] results)),
       st_BufferLen = length (accepted_rows [[VInt64 1, VString ''x''], []] results)\<rparr>"
proof -
  have "opt_BloomDisabled example_table_opts \<or>
      \<not> f_is_nan (math_log example_platform (opt_BloomTargetFPR example_table_opts))"
    using example_table_log by blast
  from stats_count_inserts [OF CreateTable_example this] show ?thesis by blast
qed

text \<open>
  \<open>CreateTable\<close> reports an invalid schema before it looks at the filter, then an invalid filter;
  the table it returns is empty, carries the schema, and has a filter unless it is disabled.
\<close>

theorem CreateTable_branches:
  assumes "opt_BloomDisabled opts \<or> \<not> f_is_nan (math_log p (opt_BloomTargetFPR opts))"
  shows "(CreateTable p s opts = Err (SchemaInvalid e) \<longleftrightarrow> Validate s = Err e) \<and>
    (CreateTable p s opts = Err (BloomInvalid b) \<longleftrightarrow>
       Validate s = Ok () \<and> \<not> opt_BloomDisabled opts \<and>
       New p (opt_BloomExpectedItems opts) (opt_BloomTargetFPR opts) = Err b) \<and>
    (\<forall>t. CreateTable p s opts = Ok t \<longrightarrow>
       wf_table t \<and> tbl_schema t = s \<and> buffer_rows (tbl_buf t) = [] \<and>
       (tbl_bloom t = None \<longleftrightarrow> opt_BloomDisabled opts))"
proof (intro conjI)
  have no_err: "build_table s bf \<noteq> Err (x :: table_error)" for bf x
    by (simp add: build_table_def Let_def bind_ok_Err_iff fetch_def)
  show "CreateTable p s opts = Err (SchemaInvalid e) \<longleftrightarrow> Validate s = Err e"
    by (auto simp: CreateTable_def bind_ok_Err_iff map_err_Err_iff no_err)
  show "CreateTable p s opts = Err (BloomInvalid b) \<longleftrightarrow>
       Validate s = Ok () \<and> \<not> opt_BloomDisabled opts \<and>
       New p (opt_BloomExpectedItems opts) (opt_BloomTargetFPR opts) = Err b"
    by (auto simp: CreateTable_def bind_ok_Err_iff map_err_Err_iff no_err)
  show "\<forall>t. CreateTable p s opts = Ok t \<longrightarrow>
       wf_table t \<and> tbl_schema t = s \<and> buffer_rows (tbl_buf t) = [] \<and>
       (tbl_bloom t = None \<longleftrightarrow> opt_BloomDisabled opts)"
  proof (intro allI impI)
    fix t assume "CreateTable p s opts = Ok t"
    from CreateTable_wf [OF this] assms
    show "wf_table t \<and> tbl_schema t = s \<and> buffer_rows (tbl_buf t) = [] \<and>
       (tbl_bloom t = None \<longleftrightarrow> opt_BloomDisabled opts)"
      by blast
  qed
qed

theorem CreateTable_branches_witness:
  "CreateTable example_platform \<lparr>schema_pk = [], schema_columns = []\<rparr> example_table_opts =
     Err (SchemaInvalid ErrNoColumns)"
  using CreateTable_branches [of example_table_opts example_platform "\<lparr>schema_pk = [], schema_columns = []\<rparr>"
      ErrNoColumns] example_table_log
  by (simp add: Validate_def)

end
