(* ===== verification/Datagen.thy ===== *)
theory Datagen
  imports Table
begin

text \<open>
  \<open>bench/datagen.go\<close>: the deterministic row generator of the benchmarks. The pseudo-random generator of
  \<open>math/rand\<close> is a parameter: its state, \<open>NewSource\<close>, \<open>Intn\<close> and \<open>Float64\<close>; so is the conversion of a
  double without \<open>int\<close> value. A capacity that cannot be allocated panics in \<open>make\<close>.
\<close>

section \<open>The generator\<close>

record 'g rand =
  rnd_New :: "int64 \<Rightarrow> 'g"
  rnd_Intn :: "'g \<Rightarrow> nat \<Rightarrow> nat \<times> 'g"
  rnd_Float64 :: "'g \<Rightarrow> float64 \<times> 'g"
  rnd_int_unrepresentable :: "float64 \<Rightarrow> int64"

definition BenchCountries :: "string list" where
  "BenchCountries =
     [''TR'', ''US'', ''DE'', ''GB'', ''FR'', ''ES'', ''IT'', ''NL'', ''BE'', ''SE'',
      ''FI'', ''NO'', ''DK'', ''PL'', ''AT'', ''CH'', ''PT'', ''IE'', ''GR'', ''JP'']"

definition BenchSchema :: schema where
  "BenchSchema =
     \<lparr>schema_pk = ''event_id'', schema_columns =
        [\<lparr>col_name = ''event_id'', col_type = Int64\<rparr>, \<lparr>col_name = ''user_id'', col_type = Int64\<rparr>,
         \<lparr>col_name = ''amount'', col_type = Float64\<rparr>, \<lparr>col_name = ''country'', col_type = String\<rparr>]\<rparr>"

text \<open>\<open>math.Floor\<close> and the conversion \<open>int(x)\<close>, which truncates.\<close>

definition f_floor :: "float64 \<Rightarrow> float64" where
  "f_floor x =
     (if \<not> f_finite x then x
      else if f_negative x
           then f_pack True (round_scaled (if f_frac_part x = 0 then f_trunc x else Suc (f_trunc x)) 1 1074)
           else f_of_nat (f_trunc x))"

definition to_int :: "'g rand \<Rightarrow> float64 \<Rightarrow> int64" where
  "to_int rnd x =
     (if \<not> f_finite x \<or> (if f_negative x then 2 ^ 63 < f_trunc x else 2 ^ 63 \<le> f_trunc x)
      then rnd_int_unrepresentable rnd x
      else if f_negative x then - of_nat (f_trunc x) else of_nat (f_trunc x))"

definition roundTo2 :: "float64 \<Rightarrow> float64" where
  "roundTo2 x = f_div (f_round (f_mul x (f_of_nat 100))) (f_of_nat 100)"

text \<open>The fields after the key.\<close>

definition gen_row :: "'g rand \<Rightarrow> go_value \<Rightarrow> 'g \<Rightarrow> (unit, row \<times> 'g) outcome" where
  "gen_row rnd key g =
     (let (u, g) = rnd_Intn rnd g 100000;
          (a, g) = rnd_Float64 rnd g;
          (c, g) = rnd_Intn rnd g (length BenchCountries)
      in bind_ok (fetch BenchCountries c) (\<lambda>country.
           Ok ([key, VInt64 (of_nat (1 + u)), VFloat64 (roundTo2 (f_mul a (f_of_nat 1000))), VString country], g)))"

text \<open>The two loops, \<open>k\<close> rounds each.\<close>

fun gen_uniques :: "'g rand \<Rightarrow> nat \<Rightarrow> nat \<Rightarrow> row list \<Rightarrow> 'g \<Rightarrow> (unit, row list \<times> 'g) outcome" where
  "gen_uniques rnd i 0 rows g = Ok (rows, g)"
| "gen_uniques rnd i (Suc k) rows g =
     bind_ok (gen_row rnd (VInt64 (of_nat (i + 1))) g) (\<lambda>(row, g).
       gen_uniques rnd (i + 1) k (rows @ [row]) g)"

fun gen_duplicates :: "'g rand \<Rightarrow> nat \<Rightarrow> nat \<Rightarrow> row list \<Rightarrow> 'g \<Rightarrow> (unit, row list \<times> 'g) outcome" where
  "gen_duplicates rnd uniques 0 rows g = Ok (rows, g)"
| "gen_duplicates rnd uniques (Suc k) rows g =
     (let (s, g) = rnd_Intn rnd g uniques
      in bind_ok (fetch rows s) (\<lambda>src.
         bind_ok (fetch src 0) (\<lambda>key.
         bind_ok (gen_row rnd key g) (\<lambda>(row, g).
           gen_duplicates rnd uniques k (rows @ [row]) g))))"

definition clamp_fraction :: "float64 \<Rightarrow> float64" where
  "clamp_fraction f =
     (let f = (if f_less f f_zero then f_zero else f)
      in if f_less float_one f then float_one else f)"

definition requested_dups :: "'g rand \<Rightarrow> int64 \<Rightarrow> float64 \<Rightarrow> int64" where
  "requested_dups rnd n dupFraction =
     to_int rnd (f_floor (f_mul (clamp_fraction dupFraction) (f_of_nat (nat (sint n)))))"

definition GenRows :: "'g rand \<Rightarrow> int64 \<Rightarrow> float64 \<Rightarrow> int64 \<Rightarrow> (unit, row list) outcome" where
  "GenRows rnd n dupFraction seed =
     (if sint n \<le> 0 then Ok []
      else
        let d = requested_dups rnd n dupFraction;
            dups = (if sint d < sint (n - 1) then d else n - 1);
            uniques = n - dups
        in bind_ok (make_slice 24 (sint n)) (\<lambda>_.
           bind_ok (gen_uniques rnd 0 (nat (sint uniques)) [] (rnd_New rnd seed)) (\<lambda>(rows, g).
           bind_ok (gen_duplicates rnd (nat (sint uniques)) (nat (sint dups)) rows g) (\<lambda>(rows, g).
             Ok rows))))"

section \<open>Correctness\<close>

text \<open>What \<open>math/rand\<close> documents of \<open>Intn\<close>: a number below its positive argument.\<close>

definition rand_ok :: "'g rand \<Rightarrow> bool" where
  "rand_ok rnd \<longleftrightarrow> (\<forall>g n. 0 < n \<longrightarrow> fst (rnd_Intn rnd g n) < n)"

text \<open>A row of the benchmark schema with event id \<open>i\<close>.\<close>

definition bench_row :: "nat \<Rightarrow> row \<Rightarrow> bool" where
  "bench_row i row \<longleftrightarrow> row_conforms BenchSchema row \<and> row ! 0 = VInt64 (of_nat i)"

lemma gen_row_Ok:
  assumes "rand_ok rnd"
  obtains row g' where "gen_row rnd (VInt64 (of_nat i)) g = Ok (row, g')" "bench_row i row" "row \<noteq> []"
proof -
  obtain u g1 where 1: "rnd_Intn rnd g 100000 = (u, g1)" by (cases "rnd_Intn rnd g 100000")
  obtain a g2 where 2: "rnd_Float64 rnd g1 = (a, g2)" by (cases "rnd_Float64 rnd g1")
  obtain c g3 where 3: "rnd_Intn rnd g2 (length BenchCountries) = (c, g3)"
    by (cases "rnd_Intn rnd g2 (length BenchCountries)")
  have "0 < length BenchCountries" by (simp add: BenchCountries_def)
  then have "c < length BenchCountries" using assms 3 unfolding rand_ok_def by (metis fst_conv)
  then show ?thesis
    using that [of "[VInt64 (of_nat i), VInt64 (of_nat (1 + u)), VFloat64 (roundTo2 (f_mul a (f_of_nat 1000))),
        VString (BenchCountries ! c)]" g3] 1 2 3
    by (simp add: gen_row_def bench_row_def row_conforms_def BenchSchema_def)
qed

lemma gen_uniques_Ok:
  assumes "rand_ok rnd"
  shows "list_all2 bench_row [1..<Suc i] rows \<Longrightarrow>
   \<exists>rows' g'. gen_uniques rnd i k rows g = Ok (rows', g') \<and> list_all2 bench_row [1..<Suc (i + k)] rows'"
proof (induction k arbitrary: i rows g)
  case (Suc k)
  obtain row g1 where row: "gen_row rnd (VInt64 (of_nat (i + 1))) g = Ok (row, g1)" "bench_row (i + 1) row"
    using gen_row_Ok [OF assms] by metis
  have "list_all2 bench_row [1..<Suc (i + 1)] (rows @ [row])"
    using Suc.prems row(2) by (simp add: list_all2_appendI)
  from Suc.IH [OF this, of g1] row(1) show ?case by simp
qed auto

lemma gen_duplicates_Ok:
  assumes "rand_ok rnd" "0 < u"
  shows "list_all2 bench_row ids rows \<Longrightarrow> take u ids = [1..<Suc u] \<Longrightarrow>
   \<exists>rows' g' extra. gen_duplicates rnd u k rows g = Ok (rows', g') \<and> length extra = k \<and>
     set extra \<subseteq> {1..u} \<and> list_all2 bench_row (ids @ extra) rows'"
proof (induction k arbitrary: ids rows g)
  case (Suc k)
  obtain s g1 where s: "rnd_Intn rnd g u = (s, g1)" by (cases "rnd_Intn rnd g u")
  then have su: "s < u" using assms unfolding rand_ok_def by (metis fst_conv)
  have len: "u \<le> length ids" using Suc.prems(2) by (metis diff_Suc_1 length_take length_upt min.absorb_iff2)
  then have sl: "s < length rows" using su list_all2_lengthD [OF Suc.prems(1)] by simp
  have "ids ! s = Suc s" using su Suc.prems(2) by (metis nth_take nth_upt add.commute plus_1_eq_Suc Suc_less_eq)
  then have b: "bench_row (Suc s) (rows ! s)"
    using Suc.prems(1) sl by (metis list_all2_conv_all_nth)
  then have "rows ! s \<noteq> []" by (auto simp: bench_row_def row_conforms_def BenchSchema_def)
  obtain row g2 where row: "gen_row rnd (VInt64 (of_nat (Suc s))) g1 = Ok (row, g2)" "bench_row (Suc s) row"
    using gen_row_Ok [OF assms(1)] by metis
  have "list_all2 bench_row (ids @ [Suc s]) (rows @ [row])"
    using Suc.prems(1) row(2) by (simp add: list_all2_appendI)
  moreover have "take u (ids @ [Suc s]) = [1..<Suc u]" using Suc.prems(2) len by simp
  ultimately obtain rows' g' extra where
    "gen_duplicates rnd u k (rows @ [row]) g2 = Ok (rows', g')" "length extra = k" "set extra \<subseteq> {1..u}"
    "list_all2 bench_row ((ids @ [Suc s]) @ extra) rows'"
    using Suc.IH by blast
  moreover have "gen_duplicates rnd u (Suc k) rows g = gen_duplicates rnd u k (rows @ [row]) g2"
    using s sl b row(1) \<open>rows ! s \<noteq> []\<close> by (simp add: bench_row_def)
  ultimately show ?case using su by (intro exI [of _ rows'] exI [of _ g'] exI [of _ "Suc s # extra"]) simp
qed auto

lemma sint_diff_in_range:
  fixes a b :: int64
  assumes "- (2 ^ 63) \<le> sint a - sint b" "sint a - sint b < 2 ^ 63"
  shows "sint (a - b) = sint a - sint b"
proof -
  have "sint (a - b) = (sint a - sint b + 2 ^ 63) mod 2 ^ 64 - 2 ^ 63"
    by (simp add: sint_word_ariths signed_take_bit_eq_take_bit_shift take_bit_eq_mod)
  also have "(sint a - sint b + 2 ^ 63) mod 2 ^ 64 = sint a - sint b + 2 ^ 63"
    using assms by (intro mod_pos_pos_trivial) auto
  finally show ?thesis by simp
qed

lemma GenRows_Ok:
  assumes "rand_ok rnd" "0 < sint n" "0 \<le> sint (requested_dups rnd n f)" "24 * sint n \<le> max_alloc"
  defines "d \<equiv> min (nat (sint (requested_dups rnd n f))) (nat (sint n) - 1)"
  obtains rows extra where "GenRows rnd n f seed = Ok rows" "length extra = d"
    "set extra \<subseteq> {1..nat (sint n) - d}" "list_all2 bench_row ([1..<Suc (nat (sint n) - d)] @ extra) rows"
proof -
  let ?r = "requested_dups rnd n f"
  define w where "w = (if sint ?r < sint (n - 1) then ?r else n - 1)"
  have n: "sint n < 2 ^ 63" using sint_lt [of n] by simp
  have n1: "sint (n - 1) = sint n - 1"
    using assms(2) n sint_diff_in_range [of n 1] by simp
  have w: "sint w = int d"
  proof (cases "sint ?r < sint (n - 1)")
    case True
    then have "nat (sint ?r) \<le> nat (sint n) - 1" using n1 by linarith
    with True assms(3) show ?thesis by (simp add: w_def d_def)
  next
    case False
    then have "nat (sint n) - 1 \<le> nat (sint ?r)" "int (nat (sint n) - 1) = sint n - 1"
      using n1 assms(2) by linarith+
    with False n1 show ?thesis by (simp add: w_def d_def)
  qed
  have dn: "d < nat (sint n)" using assms(2) by (simp add: d_def)
  have u: "nat (sint (n - w)) = nat (sint n) - d"
    using sint_diff_in_range [of n w] w dn n assms(2) by simp
  let ?u = "nat (sint n) - d"
  obtain rows1 g1 where 1: "gen_uniques rnd 0 ?u [] (rnd_New rnd seed) = Ok (rows1, g1)"
    "list_all2 bench_row [1..<Suc ?u] rows1"
    using gen_uniques_Ok [OF assms(1), of 0 "[]" ?u "rnd_New rnd seed"] by (auto simp del: upt_Suc)
  have "0 < ?u" using dn by simp
  moreover have "take ?u [1..<Suc ?u] = [1..<Suc ?u]" by (simp del: upt_Suc)
  ultimately obtain rows g2 extra where
    2: "gen_duplicates rnd ?u d rows1 g1 = Ok (rows, g2)" "length extra = d" "set extra \<subseteq> {1..?u}"
      "list_all2 bench_row ([1..<Suc ?u] @ extra) rows"
    using gen_duplicates_Ok [OF assms(1) _ 1(2)] by metis
  have "GenRows rnd n f seed = Ok rows"
    unfolding GenRows_def Let_def w_def [symmetric] u w nat_int using 1(1) 2(1) assms(2,4) by simp
  then show ?thesis by (rule that) (use 2 in auto)
qed

text \<open>Rows with the ids \<open>1 .. u\<close> and further ones among them.\<close>

lemma bench_rows:
  assumes "list_all2 bench_row ([1..<Suc u] @ extra) rows" "set extra \<subseteq> {1..u}"
  shows "length rows = u + length extra" "\<forall>row \<in> set rows. row_conforms BenchSchema row"
    "(\<lambda>r. r ! 0) ` set rows \<subseteq> (\<lambda>i. VInt64 (of_nat i)) ` {1..u}"
    "i < length rows \<Longrightarrow> u \<le> i \<Longrightarrow> \<exists>j < i. rows ! i ! 0 = rows ! j ! 0"
proof -
  note upt_Suc [simp del]
  let ?ids = "[1..<Suc u] @ extra"
  show len: "length rows = u + length extra"
    using list_all2_lengthD [OF assms(1)] by (simp del: upt_Suc)
  have b: "bench_row (?ids ! i) (rows ! i)" if "i < length rows" for i
    using assms(1) that by (metis list_all2_conv_all_nth)
  have key: "rows ! i ! 0 = VInt64 (of_nat (?ids ! i))" if "i < length rows" for i
    using b [OF that] by (simp add: bench_row_def)
  show "\<forall>row \<in> set rows. row_conforms BenchSchema row"
    using b by (auto simp: in_set_conv_nth bench_row_def)
  have ids: "?ids ! i \<in> {1..u}" if "i < length rows" for i
  proof -
    have "i < length ?ids" using that len by (simp del: upt_Suc)
    then have "?ids ! i \<in> set ?ids" by (rule nth_mem)
    then show ?thesis using assms(2) by auto
  qed
  then show "(\<lambda>r. r ! 0) ` set rows \<subseteq> (\<lambda>i. VInt64 (of_nat i)) ` {1..u}"
    using key by (auto simp: in_set_conv_nth)
  assume i: "i < length rows" "u \<le> i"
  let ?j = "?ids ! i - 1"
  have m: "1 \<le> ?ids ! i" "?ids ! i \<le> u" using ids [OF i(1)] unfolding atLeastAtMost_iff by blast+
  then have j: "?j < u" by linarith
  then have "?ids ! ?j = [1..<Suc u] ! ?j" by (simp add: nth_append del: upt_Suc)
  also have "\<dots> = ?ids ! i" using j m by (simp del: upt_Suc)
  finally have "rows ! ?j ! 0 = rows ! i ! 0" using key [of ?j] key [OF i(1)] i j by simp
  with i j show "\<exists>j < i. rows ! i ! 0 = rows ! j ! 0" by (intro exI [of _ ?j]) auto
qed

text \<open>Exactly the rows from \<open>u\<close> on have an id that an earlier row has.\<close>

lemma bench_repeats:
  assumes "list_all2 bench_row ([1..<Suc u] @ extra) rows" "set extra \<subseteq> {1..u}" "u < 2 ^ 64"
  shows "\<And>i. i < u \<Longrightarrow> rows ! i ! 0 = VInt64 (of_nat (i + 1))"
    "\<And>i. i < length rows \<Longrightarrow> u \<le> i \<Longrightarrow> \<exists>j < u. rows ! i ! 0 = rows ! j ! 0"
    "{i. i < length rows \<and> (\<exists>j < i. rows ! i ! 0 = rows ! j ! 0)} = {u..<u + length extra}"
proof -
  note upt_Suc [simp del]
  note r = bench_rows [OF assms(1,2)]
  have key: "rows ! i ! 0 = VInt64 (of_nat (i + 1))" if "i < u" for i
    using assms(1) that by (auto simp: list_all2_conv_all_nth bench_row_def nth_append)
  then show "\<And>i. i < u \<Longrightarrow> rows ! i ! 0 = VInt64 (of_nat (i + 1))" .
  show "\<exists>j < u. rows ! i ! 0 = rows ! j ! 0" if i: "i < length rows" "u \<le> i" for i
  proof -
    have "rows ! i ! 0 \<in> (\<lambda>i. VInt64 (of_nat i)) ` {1..u}" using r(3) nth_mem [OF i(1)] by blast
    then obtain m where m: "1 \<le> m" "m \<le> u" "rows ! i ! 0 = VInt64 (of_nat m)" by auto
    then have "rows ! (m - 1) ! 0 = rows ! i ! 0" using key [of "m - 1"] by simp
    with m show ?thesis by (intro exI [of _ "m - 1"]) auto
  qed
  have "rows ! i ! 0 \<noteq> rows ! j ! 0" if "i < u" "j < i" for i j
  proof -
    have "(of_nat (i + 1) :: int64) \<noteq> of_nat (j + 1)"
      using that assms(3) by (simp add: word_of_nat_eq_iff take_bit_nat_eq_self)
    then show ?thesis using key [of i] key [of j] that by simp
  qed
  then show "{i. i < length rows \<and> (\<exists>j < i. rows ! i ! 0 = rows ! j ! 0)} = {u..<u + length extra}"
    using r(1,4) by (force simp: set_eq_iff not_less)
qed

lemma duplicate_bench_rows:
  assumes "wf_table t" "tbl_schema t = BenchSchema" "tbl_bloom t \<noteq> None"
    and "insert_all t rows = Ok (t', results)" "\<forall>row \<in> set rows. row_conforms BenchSchema row"
    and "i < length rows" "j < i" "rows ! i ! 0 = rows ! j ! 0"
  shows "\<not> ir_Accepted (results ! i)"
proof -
  have pk: "tbl_pkIdx t = 0"
    using assms(1,2) by (simp add: wf_table_def PKIndex_def ColumnIndex_def BenchSchema_def)
  have conf: "row_conforms BenchSchema (rows ! i)" "row_conforms BenchSchema (rows ! j)"
    using assms(5-7) by simp_all
  then have "rows ! i \<noteq> []" "rows ! j \<noteq> []" by (auto simp: row_conforms_def BenchSchema_def)
  then have "row_key (tbl_pkIdx t) (tbl_pkType t) (rows ! i) = row_key (tbl_pkIdx t) (tbl_pkType t) (rows ! j)"
    using assms(8) by (simp add: row_key_def pk)
  with insert_all_repeated [OF assms(1,3,4,6,7)] conf(2) assms(2) show ?thesis by simp
qed

lemma accepted_bench_rows:
  assumes "wf_table t" "tbl_schema t = BenchSchema" "tbl_bloom t \<noteq> None" "buffer_rows (tbl_buf t) = []"
    and "insert_all t rows = Ok (t', results)"
    and "(\<lambda>r. r ! 0) ` set rows \<subseteq> (\<lambda>i. VInt64 (of_nat i)) ` {1..u}"
  shows "length (accepted_rows rows results) \<le> u"
proof -
  let ?acc = "accepted_rows rows results"
  have t': "wf_table t'" "same_shape t t'" "buffer_rows (tbl_buf t') = ?acc"
    using insert_all_ex [OF assms(1), of rows] assms(4,5) by auto
  have pk: "tbl_pkIdx t' = 0"
    using t'(1,2) assms(2) by (simp add: wf_table_def same_shape_def PKIndex_def ColumnIndex_def BenchSchema_def)
  have d: "distinct (map (\<lambda>r. r ! 0) ?acc)"
    using wf_table_distinct_pks [OF t'(1)] t'(2,3) assms(3) pk by (simp add: same_shape_def)
  have "set ?acc \<subseteq> set rows"
    by (auto simp: accepted_rows_def dest: set_zip_leftD)
  then have "set (map (\<lambda>r. r ! 0) ?acc) \<subseteq> (\<lambda>i. VInt64 (of_nat i)) ` {1..u}"
    using assms(6) by auto
  then have "card (set (map (\<lambda>r. r ! 0) ?acc)) \<le> card ((\<lambda>i. VInt64 (of_nat i)) ` {1..u})"
    by (intro card_mono) auto
  also have "\<dots> \<le> u" using card_image_le [of "{1..u}"] by simp
  finally show ?thesis using distinct_card [OF d] by simp
qed

section \<open>The number of duplicates\<close>

text \<open>
  A fraction that is a number gives a number of duplicates: its product with the row count is finite, so
  \<open>math.Floor\<close> and the conversion to \<open>int\<close> are defined on it.
\<close>

lemma clamp_fraction_props:
  assumes "\<not> f_is_nan f"
  shows "f_finite (clamp_fraction f)" "f_mag (clamp_fraction f) \<le> f_unit"
    "f_negative (clamp_fraction f) \<Longrightarrow> f_mant (clamp_fraction f) = 0"
proof -
  have one: "f_val float_one = int f_unit" "\<not> f_is_nan float_one" "f_finite float_one" "f_mag float_one = f_unit"
    "\<not> f_negative float_one"
    by (simp_all add: float_one_def f_val_def f_mag_def f_unit_def float_eval)
  have zero: "f_finite f_zero" "f_mag f_zero \<le> f_unit"
    by (simp_all add: f_mag_def) (simp add: f_zero_def f_finite_def f_exponent_def)
  have keep: "f_finite x \<and> f_mag x \<le> f_unit \<and> (f_negative x \<longrightarrow> f_mant x = 0)"
    if "\<not> f_is_nan x" "0 \<le> f_val x" "f_val x \<le> int f_unit" for x
  proof -
    have "f_mag x \<le> f_unit" "f_negative x \<longrightarrow> f_mag x = 0"
      using that(2,3) by (auto simp: f_val_def split: if_splits)
    then have "f_mag x \<le> f_unit" "f_negative x \<longrightarrow> f_mant x = 0"
      by (simp_all add: f_mag_def)
    moreover from this(1) have "f_finite x"
      using infinite_mag [of x] by (cases "f_finite x") (auto simp: f_unit_def)
    ultimately show ?thesis by blast
  qed
  consider (neg) "f_val f < 0" | (big) "int f_unit < f_val f" | (mid) "0 \<le> f_val f" "f_val f \<le> int f_unit"
    by linarith
  then have "f_finite (clamp_fraction f) \<and> f_mag (clamp_fraction f) \<le> f_unit \<and>
      (f_negative (clamp_fraction f) \<longrightarrow> f_mant (clamp_fraction f) = 0)"
  proof cases
    case neg
    with assms zero one show ?thesis by (simp add: clamp_fraction_def f_less_def)
  next
    case big
    with assms one show ?thesis by (simp add: clamp_fraction_def f_less_def)
  next
    case mid
    with keep [OF assms] assms one show ?thesis by (simp add: clamp_fraction_def f_less_def)
  qed
  then show "f_finite (clamp_fraction f)" "f_mag (clamp_fraction f) \<le> f_unit"
    "f_negative (clamp_fraction f) \<Longrightarrow> f_mant (clamp_fraction f) = 0"
    by blast+
qed

text \<open>Natural numbers of at most \<open>k\<close> bits, rounded.\<close>

lemma f_of_nat_small:
  assumes "n < 2 ^ k" "0 < k" "k \<le> 62"
  shows "f_finite (f_of_nat n)" "\<not> f_negative (f_of_nat n)" "f_mag (f_of_nat n) \<le> 2 ^ k * f_unit"
proof -
  have b: "bit_length n \<le> k" using assms(1) by (rule bit_length_le)
  have r: "round_scaled n 1 1074 \<le> (1021 + k + 2) * 2 ^ 52"
    using b by (intro round_scaled_upper) simp
  have i: "(1021 + k + 2) * 2 ^ 52 < inf_bits" using assms(3) by (simp add: inf_bits_def)
  show "f_finite (f_of_nat n)" unfolding f_of_nat_def by (rule f_pack_finite [OF le_less_trans [OF r i]])
  show "\<not> f_negative (f_of_nat n)"
    by (simp add: f_of_nat_def f_pack_fields(1) [OF inf_bits_less [OF round_scaled_le]])
  have "f_mag (f_of_nat n) \<le> 2 ^ (52 + (1022 + k))"
    unfolding f_of_nat_def by (rule f_mag_pack_upper) (use r i in simp_all)
  also have "(2::nat) ^ (52 + (1022 + k)) = 2 ^ (k + 1074)"
    by (rule arg_cong [of _ _ "(^) 2"]) simp
  also have "\<dots> = 2 ^ k * f_unit" by (simp only: f_unit_def power_add)
  finally show "f_mag (f_of_nat n) \<le> 2 ^ k * f_unit" .
qed

lemma bit_length_mant:
  assumes "0 < m" "m * 2 ^ s \<le> 2 ^ k"
  shows "bit_length m + s \<le> Suc k"
proof -
  have "2 ^ (bit_length m - 1 + s) \<le> m * 2 ^ s"
    using bit_length_bounds [OF assms(1)] by (simp only: power_add) (intro mult_le_mono1, simp)
  with assms(2) have "(2::nat) ^ (bit_length m - 1 + s) \<le> 2 ^ k" by linarith
  then have "bit_length m - 1 + s \<le> k" by (simp only: power_increasing_iff)
  then show ?thesis by simp
qed

lemma requested_dups_nonneg:
  assumes "\<not> f_is_nan f" "0 < sint n" "24 * sint n \<le> max_alloc"
  shows "0 \<le> sint (requested_dups rnd n f)"
proof -
  let ?c = "clamp_fraction f" and ?x = "f_of_nat (nat (sint n))"
  let ?neg = "f_negative ?c"
  define b where "b = round_scaled (f_mant ?c * f_mant ?x) 1 (int (f_shift ?c + f_shift ?x) - 1074)"
  note c = clamp_fraction_props [OF assms(1)]
  have "nat (sint n) < 2 ^ 44" using assms(3) by (simp add: max_alloc_def)
  from f_of_nat_small [OF this] have x: "f_finite ?x" "\<not> f_negative ?x" "f_mag ?x \<le> 2 ^ 44 * f_unit" by simp_all
  have y: "f_mul ?c ?x = f_pack ?neg b"
    using c(1) x(1,2) by (simp add: f_mul_def Let_def f_finite_def f_is_nan_def f_is_inf_def b_def)
  have b: "b \<le> (1067 + 1) * 2 ^ 52" "?neg \<Longrightarrow> b = 0"
  proof -
    show "?neg \<Longrightarrow> b = 0" using c(3) by (simp add: b_def round_scaled_def)
    show "b \<le> (1067 + 1) * 2 ^ 52"
    proof (cases "f_mant ?c * f_mant ?x = 0")
      case True
      then show ?thesis by (simp add: b_def round_scaled_def)
    next
      case False
      have "f_mag ?c * f_mag ?x \<le> f_unit * (2 ^ 44 * f_unit)"
        using c(2) x(3) by (rule mult_le_mono)
      also have "\<dots> = 2 ^ 2192" by (simp add: f_unit_def flip: power_add)
      also have "f_mag ?c * f_mag ?x = f_mant ?c * f_mant ?x * 2 ^ (f_shift ?c + f_shift ?x)"
        by (simp only: f_mag_def power_add mult.assoc mult.left_commute)
      finally have "bit_length (f_mant ?c * f_mant ?x) + (f_shift ?c + f_shift ?x) \<le> Suc 2192"
        using False by (intro bit_length_mant) simp_all
      then have "b \<le> (1066 + 2) * 2 ^ 52"
        unfolding b_def by (intro round_scaled_upper) simp
      then show ?thesis by simp
    qed
  qed
  have inf: "(1067 + 1) * 2 ^ 52 < inf_bits" by (simp add: inf_bits_def)
  have fin: "f_finite (f_pack ?neg b)" by (rule f_pack_finite [OF le_less_trans [OF b(1) inf]])
  have sign: "f_negative (f_pack ?neg b) = ?neg"
    unfolding b_def by (rule f_pack_fields(1) [OF inf_bits_less [OF round_scaled_le]])
  have "f_mag (f_pack ?neg b) \<le> 2 ^ (52 + 1067)"
    using b(1) inf by (intro f_mag_pack_upper) simp_all
  also have "(2::nat) ^ (52 + 1067) = 2 ^ 45 * f_unit" by (simp add: f_unit_def flip: power_add)
  finally have "f_trunc (f_pack ?neg b) \<le> 2 ^ 45 * f_unit div f_unit"
    unfolding f_trunc_mag by (rule div_le_mono)
  then have trunc: "f_trunc (f_pack ?neg b) \<le> 2 ^ 45" by (simp add: f_unit_def)
  show ?thesis
  proof (cases ?neg)
    case True
    then have "f_pack ?neg b = f_pack True 0" using b(2) by simp
    moreover have "f_floor (f_pack True 0) = f_pack True 0" "to_int rnd (f_pack True 0) = 0"
      by (simp_all add: f_floor_def to_int_def float_eval)
    ultimately show ?thesis by (simp add: requested_dups_def y)
  next
    case False
    let ?t = "f_trunc (f_pack ?neg b)"
    have floor: "f_floor (f_pack ?neg b) = f_of_nat ?t" using fin sign False by (simp add: f_floor_def)
    have "?t < 2 ^ 46" using trunc by simp
    from f_of_nat_small [OF this] have t: "f_finite (f_of_nat ?t)" "\<not> f_negative (f_of_nat ?t)"
        "f_mag (f_of_nat ?t) \<le> 2 ^ 46 * f_unit" by simp_all
    then have "f_trunc (f_of_nat ?t) \<le> 2 ^ 46 * f_unit div f_unit"
      unfolding f_trunc_mag by (intro div_le_mono)
    then have small: "f_trunc (f_of_nat ?t) \<le> 2 ^ 46" by (simp add: f_unit_def)
    then have "to_int rnd (f_of_nat ?t) = of_nat (f_trunc (f_of_nat ?t))"
      using t by (simp add: to_int_def)
    moreover have "0 \<le> sint (of_nat (f_trunc (f_of_nat ?t)) :: int64)"
      using small by (simp add: signed_of_nat signed_take_bit_int_eq_self)
    ultimately show ?thesis by (simp add: requested_dups_def y floor)
  qed
qed

section \<open>Properties\<close>

text \<open>
  C38: the generated rows. For a fraction that is not NaN, \<open>GenRows\<close> runs without panic and returns \<open>n\<close> rows of the
  benchmark schema. With \<open>d\<close> the requested number of duplicates, at most \<open>n - 1\<close>, the first \<open>n - d\<close> rows have
  the event ids 1, 2, ..., \<open>n - d\<close>, every later row has the id of one of them, and exactly \<open>d\<close> rows have an id
  that an earlier row has. Inserted into a table with a filter, every row that repeats an id is rejected, so at most \<open>n - d\<close>
  rows are accepted.
\<close>

theorem generated_duplicates_are_rejected:
  assumes "rand_ok rnd" "0 < sint n" "24 * sint n \<le> max_alloc" "\<not> f_is_nan f"
    and "CreateTable p BenchSchema opts = Ok t" "\<not> opt_BloomDisabled opts"
    and "\<not> f_is_nan (math_log p (opt_BloomTargetFPR opts))"
  shows "let d = min (nat (sint (requested_dups rnd n f))) (nat (sint n) - 1); u = nat (sint n) - d in
    0 \<le> sint (requested_dups rnd n f) \<and>
    (\<exists>rows t' results. GenRows rnd n f seed = Ok rows \<and> length rows = nat (sint n) \<and>
      (\<forall>row \<in> set rows. row_conforms BenchSchema row) \<and>
      (\<forall>i < u. rows ! i ! 0 = VInt64 (of_nat (i + 1))) \<and>
      (\<forall>i < length rows. u \<le> i \<longrightarrow> (\<exists>j < u. rows ! i ! 0 = rows ! j ! 0)) \<and>
      card {i. i < length rows \<and> (\<exists>j < i. rows ! i ! 0 = rows ! j ! 0)} = d \<and>
      insert_all t rows = Ok (t', results) \<and> length results = length rows \<and>
      (\<forall>i < length rows. (\<exists>j < i. rows ! i ! 0 = rows ! j ! 0) \<longrightarrow> \<not> ir_Accepted (results ! i)) \<and>
      length (accepted_rows rows results) \<le> u)"
proof -
  define d where "d = min (nat (sint (requested_dups rnd n f))) (nat (sint n) - 1)"
  define u where "u = nat (sint n) - d"
  have req: "0 \<le> sint (requested_dups rnd n f)"
    using assms(4,2,3) by (rule requested_dups_nonneg)
  obtain rows extra where g: "GenRows rnd n f seed = Ok rows" "length extra = d" "set extra \<subseteq> {1..u}"
      "list_all2 bench_row ([1..<Suc u] @ extra) rows"
    using assms(1,2) req assms(3) unfolding u_def d_def by (rule GenRows_Ok)
  have "u < 2 ^ 64" using assms(3) by (simp add: u_def max_alloc_def)
  note repeats = bench_repeats [OF g(4,3) this]
  have "d \<le> nat (sint n)" by (simp add: d_def)
  with g(2) bench_rows(1) [OF g(4,3)] have len: "length rows = nat (sint n)" by (simp add: u_def)
  have t: "wf_table t" "buffer_rows (tbl_buf t) = []" "tbl_bloom t \<noteq> None" "tbl_schema t = BenchSchema"
    using CreateTable_wf [OF assms(5)] assms(6,7) by simp_all
  obtain t' results where t': "insert_all t rows = Ok (t', results)" "length results = length rows"
    using insert_all_ex [OF t(1), of rows] by auto
  have "length (accepted_rows rows results) \<le> u"
    using accepted_bench_rows [OF t(1,4,3,2) t'(1) bench_rows(3) [OF g(4,3)]] .
  moreover have "\<forall>i < length rows. (\<exists>j < i. rows ! i ! 0 = rows ! j ! 0) \<longrightarrow> \<not> ir_Accepted (results ! i)"
    using duplicate_bench_rows [OF t(1,4,3) t'(1) bench_rows(2) [OF g(4,3)]] by blast
  moreover have "card {i. i < length rows \<and> (\<exists>j < i. rows ! i ! 0 = rows ! j ! 0)} = d"
    unfolding repeats(3) using g(2) by simp
  ultimately show ?thesis
    unfolding d_def [symmetric] u_def [symmetric] Let_def
    using g(1) len t' bench_rows(2) [OF g(4,3)] repeats(1,2) req by blast
qed

definition counting_rand :: "nat rand" where
  "counting_rand =
     \<lparr>rnd_New = (\<lambda>_. 0), rnd_Intn = (\<lambda>g n. (g mod n, g + 1)), rnd_Float64 = (\<lambda>g. (float_half, g + 1)),
      rnd_int_unrepresentable = (\<lambda>_. 0)\<rparr>"

lemma requested_dups_example: "requested_dups counting_rand 2 float_half = 1"
proof -
  have "clamp_fraction float_half = float_half"
    by (simp add: clamp_fraction_def float_half_def float_one_def f_less_def f_val_def f_mag_def f_zero_def float_eval)
  moreover have "f_of_nat 2 = F64 0x4000000000000000" by (simp add: f_of_nat_def float_eval)
  moreover have "f_mul float_half (F64 0x4000000000000000) = float_one"
    by (simp add: f_mul_def float_half_def float_one_def float_eval cong: let_weak_cong)
  moreover have "f_floor float_one = float_one"
    by (simp add: f_floor_def float_one_def f_of_nat_def float_eval)
  moreover have "to_int counting_rand float_one = 1"
    by (simp add: to_int_def float_one_def float_eval)
  ultimately show ?thesis by (simp add: requested_dups_def)
qed

theorem generated_duplicates_are_rejected_witness:
  "\<exists>rows t t' results. GenRows counting_rand 2 float_half 7 = Ok rows \<and> length rows = 2 \<and>
     rows ! 0 ! 0 = VInt64 1 \<and> rows ! 1 ! 0 = VInt64 1 \<and>
     CreateTable example_platform BenchSchema example_table_opts = Ok t \<and>
     insert_all t rows = Ok (t', results) \<and> \<not> ir_Accepted (results ! 1)"
proof -
  obtain t where t: "CreateTable example_platform BenchSchema example_table_opts = Ok t"
    by (simp add: CreateTable_def Validate_def build_table_def PKIndex_def ColumnIndex_def New_example
        example_table_opts_def BenchSchema_def)
  have "rand_ok counting_rand" by (simp add: rand_ok_def counting_rand_def)
  moreover have "\<not> f_is_nan float_half" by (simp add: float_half_def float_eval)
  moreover have "\<not> opt_BloomDisabled example_table_opts" by (simp add: example_table_opts_def)
  ultimately obtain rows t' results where r: "GenRows counting_rand 2 float_half 7 = Ok rows" "length rows = 2"
      "rows ! 0 ! 0 = VInt64 1" "\<forall>i < length rows. 1 \<le> i \<longrightarrow> (\<exists>j < 1. rows ! i ! 0 = rows ! j ! 0)"
      "insert_all t rows = Ok (t', results)"
      "\<forall>i < length rows. (\<exists>j < i. rows ! i ! 0 = rows ! j ! 0) \<longrightarrow> \<not> ir_Accepted (results ! i)"
    using generated_duplicates_are_rejected [OF _ _ _ _ t _ example_table_log, of counting_rand 2 float_half 7]
    by (auto simp: requested_dups_example max_alloc_def Let_def)
  then have "rows ! 1 ! 0 = rows ! 0 ! 0" by auto
  with r have "rows ! 1 ! 0 = VInt64 1" "\<not> ir_Accepted (results ! 1)" by auto
  with r t show ?thesis by blast
qed

end
