(* ===== verification/Format.thy ===== *)
theory Format
  imports Types
begin

text \<open>
  \<open>cmd/uniqcol/format.go\<close>: thousands separators and human-readable sizes. Fixed-point printing of
  doubles (\<open>%.1f\<close>) rounds the exact value to the nearest multiple of the last digit, ties to even.
\<close>

section \<open>Thousands separators\<close>

text \<open>The loop from byte \<open>i\<close> on: a comma and three digits at a time.\<close>

function comma_groups :: "string \<Rightarrow> nat \<Rightarrow> (unit, string) outcome" where
  "comma_groups s i =
     (if i < length s then
        bind_ok (go_slice s i (i + 3)) (\<lambda>g.
        bind_ok (comma_groups s (i + 3)) (\<lambda>rest. Ok ('','' @ g @ rest)))
      else Ok [])"
  by pat_completeness auto
termination by (relation "measure (\<lambda>(s, i). length s - i)") auto

declare comma_groups.simps [simp del]

definition commaSepUint64 :: "uint64 \<Rightarrow> (unit, string) outcome" where
  "commaSepUint64 n =
     (let s = format_nat (unat n)
      in if length s \<le> 3 then Ok s
         else
           let first = (if length s mod 3 = 0 then 3 else length s mod 3)
           in bind_ok (go_slice s 0 first) (\<lambda>h.
              bind_ok (comma_groups s first) (\<lambda>rest. Ok (h @ rest))))"

definition commaSepInt64 :: "int64 \<Rightarrow> (unit, string) outcome" where
  "commaSepInt64 n =
     (if sint n < 0 then bind_ok (commaSepUint64 (- n)) (\<lambda>s. Ok (''-'' @ s))
      else commaSepUint64 n)"

section \<open>Fixed-point printing\<close>

text \<open>\<open>n\<close> with at least \<open>w\<close> digits.\<close>

definition pad_zeros :: "nat \<Rightarrow> string \<Rightarrow> string" where
  "pad_zeros w s = replicate (w - length s) CHR ''0'' @ s"

definition format_fixed :: "nat \<Rightarrow> float64 \<Rightarrow> string" where
  "format_fixed prec x =
     (if f_is_nan x then ''NaN''
      else if f_is_inf x then (if f_negative x then ''-Inf'' else ''+Inf'')
      else
        let n = round_even (f_mag x * 10 ^ prec) f_unit
        in (if f_negative x then ''-'' else []) @ format_nat (n div 10 ^ prec) @
           (if prec = 0 then [] else ''.'' @ pad_zeros prec (format_nat (n mod 10 ^ prec))))"

definition float_of_int64 :: "int64 \<Rightarrow> float64" where
  "float_of_int64 n =
     (if sint n < 0 then f_neg (f_of_nat (nat (- sint n))) else f_of_nat (nat (sint n)))"

definition in_unit :: "int64 \<Rightarrow> nat \<Rightarrow> string \<Rightarrow> string" where
  "in_unit n k name = format_fixed 1 (f_div (float_of_int64 n) (f_of_nat k)) @ name"

definition humanBytes :: "int64 \<Rightarrow> string" where
  "humanBytes n =
     (if sint n < 1024 then format_int (sint n) @ '' B''
      else if sint n < 1024 ^ 2 then in_unit n 1024 '' KB''
      else if sint n < 1024 ^ 3 then in_unit n (1024 ^ 2) '' MB''
      else if sint n < 1024 ^ 4 then in_unit n (1024 ^ 3) '' GB''
      else in_unit n (1024 ^ 4) '' TB'')"

section \<open>Durations\<close>

text \<open>
  \<open>time.Duration\<close> of a monotonic clock: a number of nanoseconds. \<open>Round\<close> rounds half up, \<open>String\<close> uses
  the largest unit that leaves a number before the point and drops trailing zeros.
\<close>

definition duration_round :: "nat \<Rightarrow> nat \<Rightarrow> nat" where
  "duration_round m d = (if 2 * (d mod m) < m then d - d mod m else d + m - d mod m)"

definition duration_frac :: "nat \<Rightarrow> nat \<Rightarrow> string" where
  "duration_frac prec v =
     (let digits = rev (dropWhile (\<lambda>c. c = CHR ''0'') (rev (pad_zeros prec (format_nat v))))
      in if digits = [] then [] else CHR ''.'' # digits)"

definition in_fraction :: "nat \<Rightarrow> nat \<Rightarrow> string" where
  "in_fraction prec v = format_nat (v div 10 ^ prec) @ duration_frac prec (v mod 10 ^ prec)"

definition duration_string :: "nat \<Rightarrow> string" where
  "duration_string u =
     (if u = 0 then ''0s''
      else if u < 10 ^ 3 then format_nat u @ ''ns''
      else if u < 10 ^ 6 then in_fraction 3 u @ string_of [0xC2, 0xB5] @ ''s''
      else if u < 10 ^ 9 then in_fraction 6 u @ ''ms''
      else
        let sec = u div 10 ^ 9; minutes = sec div 60; hours = minutes div 60
        in (if hours = 0 then [] else format_nat hours @ ''h'') @
           (if minutes = 0 then [] else format_nat (minutes mod 60) @ ''m'') @
           format_nat (sec mod 60) @ duration_frac 9 (u mod 10 ^ 9) @ ''s'')"

definition duration_seconds :: "nat \<Rightarrow> float64" where
  "duration_seconds d = f_add (f_of_nat (d div 10 ^ 9)) (f_div (f_of_nat (d mod 10 ^ 9)) (f_of_nat (10 ^ 9)))"

section \<open>Correctness\<close>

text \<open>The reference: a comma after every third digit, counted from the right.\<close>

fun join_thirds :: "string \<Rightarrow> string" where
  "join_thirds (a # b # c # d # r) = a # b # c # CHR '','' # join_thirds (d # r)"
| "join_thirds s = s"

definition group_digits :: "string \<Rightarrow> string" where
  "group_digits s = rev (join_thirds (rev s))"

lemma join_thirds_cons3: "r \<noteq> [] \<Longrightarrow> join_thirds (a # b # c # r) = a # b # c # CHR '','' # join_thirds r"
  by (cases r) auto

lemma join_thirds_short: "length s \<le> 3 \<Longrightarrow> join_thirds s = s"
  by (cases s rule: join_thirds.cases) auto

lemma group_digits_snoc: "s \<noteq> [] \<Longrightarrow> group_digits (s @ [a, b, c]) = group_digits s @ CHR '','' # [a, b, c]"
  by (simp add: group_digits_def join_thirds_cons3)

lemma join_thirds_nth:
  "i < length (join_thirds s) \<Longrightarrow> CHR '','' \<notin> set s \<Longrightarrow> join_thirds s ! i = CHR '','' \<longleftrightarrow> i mod 4 = 3"
proof (induction s arbitrary: i rule: join_thirds.induct)
  case (1 a b c d r)
  note IH = "1.IH" and comma = "1.prems"(2) and len = "1.prems"(1)
  have new: "a \<noteq> CHR '',''" "b \<noteq> CHR '',''" "c \<noteq> CHR '',''" "CHR '','' \<notin> set (d # r)"
    using comma by auto
  let ?t = "join_thirds (d # r)"
  have e: "join_thirds (a # b # c # d # r) = a # b # c # CHR '','' # ?t" by simp
  show ?case
  proof (cases "i < 4")
    case True
    then have "i \<in> {0, 1, 2, 3}" by auto
    then show ?thesis unfolding e using new(1-3) by (elim insertE emptyE) simp_all
  next
    case False
    then obtain j where i: "i = 4 + j" by (metis le_Suc_ex not_less)
    have "(a # b # c # CHR '','' # ?t) ! i = ?t ! j" by (simp add: i eval_nat_numeral)
    moreover have "j < length ?t" using len unfolding e by (simp add: i)
    ultimately show ?thesis unfolding e using IH [of j] new(4) by (simp add: i)
  qed
qed (auto simp: less_Suc_eq)

lemma filter_join_thirds: "CHR '','' \<notin> set s \<Longrightarrow> filter (\<lambda>x. x \<noteq> CHR '','') (join_thirds s) = s"
  by (induction s rule: join_thirds.induct) (auto intro: filter_True)

lemma filter_group_digits: "CHR '','' \<notin> set s \<Longrightarrow> filter (\<lambda>x. x \<noteq> CHR '','') (group_digits s) = s"
  by (metis group_digits_def rev_filter rev_rev_ident set_rev filter_join_thirds)

lemma go_slice_append: "i \<le> length s \<Longrightarrow> j \<le> length s \<Longrightarrow> go_slice (s @ t) i j = go_slice s i j"
  by (simp add: go_slice_def)

text \<open>The loop is computed from the left; the reference grows to the right by whole groups.\<close>

lemma comma_groups_snoc:
  "i \<le> length s \<Longrightarrow> 3 dvd length s - i \<Longrightarrow> length g = 3 \<Longrightarrow>
   comma_groups (s @ g) i = bind_ok (comma_groups s i) (\<lambda>r. Ok (r @ CHR '','' # g))"
proof (induction s i rule: comma_groups.induct)
  case (1 s i)
  show ?case
  proof (cases "i < length s")
    case True
    with "1.prems" have le: "i + 3 \<le> length s" by (elim dvdE) (case_tac k; simp)
    have dvd: "3 dvd length s - (i + 3)" using "1.prems"(2) le
      by (metis diff_diff_left dvd_diff_nat dvd_refl)
    have g: "go_slice s i (i + 3) = Ok (take 3 (drop i s))" using le by (simp add: go_slice_def)
    have "comma_groups (s @ g) (i + 3) = bind_ok (comma_groups s (i + 3)) (\<lambda>r. Ok (r @ CHR '','' # g))"
      by (rule "1.IH" [OF True le dvd "1.prems"(3)])
    with True le g show ?thesis
      by (subst (1 2) comma_groups.simps) (simp add: go_slice_append bind_ok_assoc)
  next
    case False
    with "1.prems" have "i = length s" by simp
    with "1.prems"(3) show ?thesis
      by (simp add: comma_groups.simps [of "s @ g" i] comma_groups.simps [of "s @ g" "i + 3"]
          comma_groups.simps [of "s @ g" "length s"] comma_groups.simps [of "s @ g" "length s + 3"]
          comma_groups.simps [of s "length s"] go_slice_def)
  qed
qed

lemma comma_groups_group_digits:
  assumes "0 < i" "i \<le> 3"
  shows "length s = i + 3 * k \<Longrightarrow> \<exists>r. comma_groups s i = Ok r \<and> take i s @ r = group_digits s"
proof (induction k arbitrary: s)
  case 0
  then show ?case
    using assms by (subst comma_groups.simps) (simp add: group_digits_def join_thirds_short)
next
  case (Suc k)
  define t g where "t = take (i + 3 * k) s" and "g = drop (i + 3 * k) s"
  have s: "s = t @ g" by (simp add: t_def g_def)
  have t: "length t = i + 3 * k" "t \<noteq> []" and g: "length g = 3"
    using Suc.prems assms by (auto simp: t_def g_def)
  obtain a b c where abc: "g = [a, b, c]"
    using g by (auto simp: length_Suc_conv numeral_3_eq_3)
  obtain r where "comma_groups t i = Ok r" "take i t @ r = group_digits t"
    using Suc.IH [OF t(1)] by blast
  then show ?case
    using comma_groups_snoc [of i t g] g t s group_digits_snoc [OF t(2), of a b c] abc
    by (auto simp flip: append_assoc)
qed

lemma commaSepUint64_group_digits: "commaSepUint64 n = Ok (group_digits (format_nat (unat n)))"
proof -
  let ?s = "format_nat (unat n)"
  define i where "i = (if length ?s mod 3 = 0 then 3 else length ?s mod 3)"
  show ?thesis
  proof (cases "length ?s \<le> 3")
    case True
    then show ?thesis by (simp add: commaSepUint64_def group_digits_def join_thirds_short)
  next
    case False
    have i: "0 < i" "i \<le> 3" "i \<le> length ?s" using False by (auto simp: i_def)
    have "(length ?s - i) mod 3 = 0"
      using i by (auto simp: i_def mod_diff_eq [symmetric] mod_eq_0_iff_dvd dvd_minus_mod split: if_splits)
    then obtain k where "length ?s - i = 3 * k" by auto
    with i(3) have "length ?s = i + 3 * k" by simp
    from comma_groups_group_digits [OF i(1,2) this] obtain r
      where "comma_groups ?s i = Ok r" "take i ?s @ r = group_digits ?s" by blast
    with False i show ?thesis
      by (simp add: commaSepUint64_def Let_def go_slice_def i_def [symmetric])
  qed
qed

lemma comma_not_in_format_nat: "CHR '','' \<notin> set (format_nat n)"
proof -
  have "is_digit_char c" if "c \<in> set (format_nat n)" for c
    using that format_nat_digits [of n] by (simp add: list_all_iff)
  from this [of "CHR '',''"] show ?thesis by (auto simp: is_digit_char_def)
qed

section \<open>Properties\<close>

text \<open>
  C39: thousands separators. The loop of slices never goes out of range; the result has a comma at
  exactly every fourth place from the right, deleting the commas leaves the decimal numeral, and a
  negative number, the smallest one included, is the sign and its magnitude.
\<close>

theorem thousands_separators:
  "\<exists>s. commaSepUint64 n = Ok s \<and> filter (\<lambda>c. c \<noteq> CHR '','') s = format_nat (unat n) \<and>
     {i. i < length s \<and> rev s ! i = CHR '',''} = {i. i < length s \<and> i mod 4 = 3} \<and>
     (\<exists>t. commaSepInt64 m = Ok (if sint m < 0 then CHR ''-'' # t else t) \<and>
        filter (\<lambda>c. c \<noteq> CHR '','') t = format_nat (nat \<bar>sint m\<bar>) \<and>
        t = group_digits (format_nat (nat \<bar>sint m\<bar>)))"
proof -
  let ?d = "format_nat (unat n)"
  have neg: "unat (- m) = nat (- sint m)" if "sint m < 0"
  proof -
    have "- m = of_int (- sint m)" by simp
    also have "\<dots> = of_nat (nat (- sint m))" using that by simp
    finally have "- m = of_nat (nat (- sint m))" .
    moreover have "- (2 ^ 63) \<le> sint m" using sint_ge [of m] by simp
    ultimately show ?thesis by (simp add: unat_of_nat)
  qed
  have pos: "unat m = nat (sint m)" if "\<not> sint m < 0"
  proof -
    have "m = of_int (sint m)" by simp
    also have "\<dots> = of_nat (nat (sint m))" using that by simp
    finally have "m = of_nat (nat (sint m))" .
    moreover have "sint m < 2 ^ 63" using sint_lt [of m] by simp
    ultimately have "unat m = nat (sint m) mod 2 ^ 64" using unat_of_nat [of "nat (sint m)", where ?'a = 64] by simp
    moreover have "nat (sint m) < 2 ^ 64" using \<open>sint m < 2 ^ 63\<close> by simp
    ultimately show ?thesis by simp
  qed
  have "commaSepInt64 m = Ok (if sint m < 0 then CHR ''-'' # group_digits (format_nat (nat \<bar>sint m\<bar>))
      else group_digits (format_nat (nat \<bar>sint m\<bar>)))"
    using neg pos by (simp add: commaSepInt64_def commaSepUint64_group_digits)
  moreover have "{i. i < length (group_digits ?d) \<and> rev (group_digits ?d) ! i = CHR '',''} =
      {i. i < length (group_digits ?d) \<and> i mod 4 = 3}"
    using join_thirds_nth [of _ "rev ?d"] comma_not_in_format_nat by (auto simp: group_digits_def)
  ultimately show ?thesis
    using commaSepUint64_group_digits [of n] filter_group_digits [OF comma_not_in_format_nat] by auto
qed

end
