(* ===== verification/Csv.thy ===== *)
theory Csv
  imports Types
begin

text \<open>
  \<open>encoding/csv\<close> as the command line uses it: \<open>csv.Reader\<close> with the default comma and
  \<open>FieldsPerRecord = -1\<close> (\<open>cmd/uniqcol/load.go\<close>), \<open>csv.Writer\<close> with its defaults
  (\<open>cmd/uniqcol/query.go\<close>). The input is the text that is left and whether the underlying reader ends
  with an error other than EOF, which then recurs on every further read. Parse errors keep their kind,
  not the line and column they print.
\<close>

section \<open>Unicode white space\<close>

text \<open>The UTF-8 encodings of the runes for which \<open>unicode.IsSpace\<close> holds, above ASCII.\<close>

definition ascii_space :: "char \<Rightarrow> bool" where
  "ascii_space c \<longleftrightarrow> (of_char c :: nat) \<in> {9, 10, 11, 12, 13, 32}"

definition wide_spaces :: "string list" where
  "wide_spaces =
     map string_of
       ([[0xC2, 0x85], [0xC2, 0xA0], [0xE1, 0x9A, 0x80]] @
        map (\<lambda>i. [0xE2, 0x80, 0x80 + of_nat i]) [0..<11] @
        [[0xE2, 0x80, 0xA8], [0xE2, 0x80, 0xA9], [0xE2, 0x80, 0xAF], [0xE2, 0x81, 0x9F], [0xE3, 0x80, 0x80]])"

text \<open>The number of bytes of the space a text starts with, given the encodings of the wide spaces.\<close>

definition leading_space :: "string list \<Rightarrow> string \<Rightarrow> nat option" where
  "leading_space wide s =
     (if s \<noteq> [] \<and> ascii_space (hd s) then Some 1
      else map_option length (find (\<lambda>w. take (length w) s = w) wide))"

lemma wide_spaces_nonempty: "w \<in> set wide_spaces \<Longrightarrow> w \<noteq> []"
  by (auto simp: wide_spaces_def string_of_def)

lemma leading_space_pos:
  assumes "leading_space wide s = Some n" "\<forall>w \<in> set wide. w \<noteq> []"
  shows "0 < n" "n \<le> length s"
proof -
  have "0 < n \<and> n \<le> length s"
  proof (cases "s \<noteq> [] \<and> ascii_space (hd s)")
    case True
    with assms(1) show ?thesis by (cases s) (auto simp: leading_space_def)
  next
    case False
    with assms(1) obtain w where w: "find (\<lambda>w. take (length w) s = w) wide = Some w" "n = length w"
      by (auto simp: leading_space_def split: if_splits)
    then have "w \<in> set wide" "take (length w) s = w" by (auto simp: find_Some_iff)
    with assms(2) w(2) show ?thesis by (metis length_greater_0_conv length_take min.cobounded1)
  qed
  then show "0 < n" "n \<le> length s" by auto
qed

text \<open>\<open>strings.TrimSpace\<close>: the spaces on the left, then those on the right.\<close>

function strip :: "string list \<Rightarrow> string \<Rightarrow> string" where
  "strip wide s =
     (case leading_space wide s of
        None \<Rightarrow> s
      | Some n \<Rightarrow> if n = 0 \<or> length s < n then s else strip wide (drop n s))"
  by pat_completeness auto
termination by (relation "measure (\<lambda>(wide, s). length s)") auto

declare strip.simps [simp del]

definition TrimSpace :: "string \<Rightarrow> string" where
  "TrimSpace s = rev (strip (map rev wide_spaces) (rev (strip wide_spaces s)))"

section \<open>Lines\<close>

record csv_source =
  cs_text :: string
  cs_fails :: bool

datatype csv_error = CsvEOF | CsvBareQuote | CsvQuote | CsvReadFailed

datatype read_status = Fine | AtEOF | Faulty

abbreviation newline :: char where "newline \<equiv> CHR 0x0A"
abbreviation return_char :: char where "return_char \<equiv> CHR 0x0D"
abbreviation quote :: char where "quote \<equiv> CHR 0x22"
abbreviation comma :: char where "comma \<equiv> CHR '',''"

text \<open>\<open>\r\n\<close> at the end of a line becomes \<open>\n\<close>; a final \<open>\r\<close> before EOF is dropped.\<close>

definition normalize_line :: "string \<Rightarrow> string" where
  "normalize_line l =
     (let n = length l
      in if 2 \<le> n \<and> l ! (n - 2) = return_char \<and> l ! (n - 1) = newline then take (n - 2) l @ [newline] else l)"

definition readLine :: "csv_source \<Rightarrow> string \<times> read_status \<times> csv_source" where
  "readLine r =
     (let s = cs_text r; line = takeWhile (\<lambda>c. c \<noteq> newline) s
      in if length line < length s
         then (normalize_line (line @ [newline]), Fine, r\<lparr>cs_text := drop (length line + 1) s\<rparr>)
         else if cs_fails r then (line, Faulty, r\<lparr>cs_text := []\<rparr>)
         else if line = [] then ([], AtEOF, r)
         else (if last line = return_char then butlast line else line, Fine, r\<lparr>cs_text := []\<rparr>))"

definition lengthNL :: "string \<Rightarrow> nat" where
  "lengthNL l = (if l \<noteq> [] \<and> last l = newline then 1 else 0)"

lemma length_normalize_line: "length (normalize_line l) \<le> length l"
  by (auto simp: normalize_line_def Let_def)

lemma readLine_consumes:
  assumes "readLine r = (line, st, r')"
  shows "length line + length (cs_text r') \<le> length (cs_text r)" "cs_fails r' = cs_fails r"
    "st = Fine \<Longrightarrow> length (cs_text r') < length (cs_text r)"
proof -
  let ?l = "takeWhile (\<lambda>c. c \<noteq> newline) (cs_text r)"
  have le: "length ?l \<le> length (cs_text r)" by (rule length_takeWhile_le)
  have "length (normalize_line (?l @ [newline])) \<le> length ?l + 1"
    using length_normalize_line [of "?l @ [newline]"] by simp
  then show "length line + length (cs_text r') \<le> length (cs_text r)" "cs_fails r' = cs_fails r"
    "st = Fine \<Longrightarrow> length (cs_text r') < length (cs_text r)"
    using assms le by (auto simp: readLine_def Let_def split: if_splits)
qed

section \<open>Read\<close>

text \<open>Skip empty lines.\<close>

function next_line :: "csv_source \<Rightarrow> string \<times> read_status \<times> csv_source" where
  "next_line r =
     (case readLine r of (line, st, r') \<Rightarrow>
        if st = Fine \<and> length line = lengthNL line then next_line r' else (line, st, r'))"
  by pat_completeness auto
termination
  by (relation "measure (\<lambda>r. length (cs_text r))") (auto dest: readLine_consumes(3) [OF sym])

declare next_line.simps [simp del]

definition status_error :: "read_status \<Rightarrow> csv_error option" where
  "status_error st = (case st of Fine \<Rightarrow> None | AtEOF \<Rightarrow> Some CsvEOF | Faulty \<Rightarrow> Some CsvReadFailed)"

text \<open>
  The fields of a record: \<open>acc\<close> holds the finished fields, \<open>cur\<close> the quoted field under
  construction, which may continue on the next line.
\<close>

function (sequential)
  csv_fields :: "string \<Rightarrow> read_status \<Rightarrow> csv_source \<Rightarrow> string list \<Rightarrow> csv_source \<times> (csv_error, string list) outcome"
and
  csv_quoted :: "string \<Rightarrow> read_status \<Rightarrow> csv_source \<Rightarrow> string list \<Rightarrow> string \<Rightarrow> csv_source \<times> (csv_error, string list) outcome"
where
  "csv_fields line st r acc =
     (if line = [] \<or> hd line \<noteq> quote then
        let field = takeWhile (\<lambda>c. c \<noteq> comma) line
        in if length field < length line then
             if quote \<in> set field then (r, Err CsvBareQuote)
             else csv_fields (drop (length field + 1) line) st r (acc @ [field])
           else
             let field = take (length field - lengthNL field) field
             in if quote \<in> set field then (r, Err CsvBareQuote)
                else (r, case status_error st of None \<Rightarrow> Ok (acc @ [field]) | Some e \<Rightarrow> Err e)
      else csv_quoted (tl line) st r acc [])"
| "csv_quoted line st r acc cur =
     (let pre = takeWhile (\<lambda>c. c \<noteq> quote) line
      in if length pre < length line then
           let rest = drop (length pre + 1) line; cur = cur @ pre
           in if rest \<noteq> [] \<and> hd rest = quote then csv_quoted (tl rest) st r acc (cur @ [quote])
              else if rest \<noteq> [] \<and> hd rest = comma then csv_fields (tl rest) st r (acc @ [cur])
              else if lengthNL rest = length rest then
                (r, case status_error st of None \<Rightarrow> Ok (acc @ [cur]) | Some e \<Rightarrow> Err e)
              else (r, Err CsvQuote)
         else if line \<noteq> [] then
           (case status_error st of
              Some e \<Rightarrow> (r, Err e)
            | None \<Rightarrow>
                (case readLine r of (line', st', r') \<Rightarrow>
                   csv_quoted line' (if st' = AtEOF then Fine else st') r' acc (cur @ line)))
         else
           (case status_error st of
              None \<Rightarrow> (r, Err CsvQuote)
            | Some e \<Rightarrow> (r, Err e)))"
  by pat_completeness auto
termination
  by (relation "measure (case_sum
    (\<lambda>(line, st, r, acc). 2 * (length line + length (cs_text r)) + 1)
    (\<lambda>(line, st, r, acc, cur). 2 * (length line + length (cs_text r))))")
    (auto dest!: readLine_consumes(1) [OF sym] simp: neq_Nil_conv intro: le_less_trans)

declare csv_fields.simps [simp del] csv_quoted.simps [simp del]

definition csv_Read :: "csv_source \<Rightarrow> csv_source \<times> (csv_error, string list) outcome" where
  "csv_Read r =
     (case next_line r of (line, st, r') \<Rightarrow>
        if st = AtEOF then (r', Err CsvEOF) else csv_fields line st r' [])"

text \<open>A reader only moves forward; what it reports besides a record is never a panic.\<close>

lemma csv_fields_step:
  shows "csv_fields line st r acc = (r', x) \<Longrightarrow> st \<noteq> AtEOF \<Longrightarrow>
      length (cs_text r') \<le> length (cs_text r) \<and> cs_fails r' = cs_fails r \<and> \<not> panics x \<and> x \<noteq> Err CsvEOF"
    and "csv_quoted line st r acc cur = (r', x) \<Longrightarrow> st \<noteq> AtEOF \<Longrightarrow>
      length (cs_text r') \<le> length (cs_text r) \<and> cs_fails r' = cs_fails r \<and> \<not> panics x \<and> x \<noteq> Err CsvEOF"
proof (induction line st r acc and line st r acc cur rule: csv_fields_csv_quoted.induct)
  case (1 line st r acc)
  then show ?case
    by (subst (asm) csv_fields.simps)
      (auto simp: Let_def status_error_def split: if_splits read_status.splits)
next
  case (2 line st r acc cur)
  note IH = "2.IH" and eq = "2.prems"(1) [unfolded csv_quoted.simps [of line st r acc cur] Let_def]
  obtain line' st' s where n: "readLine r = (line', st', s)" by (metis prod_cases3)
  from eq n IH(1,2) [OF refl _ refl refl] IH(3) [OF refl _ _ _ n [symmetric] refl] "2.prems"(2)
  show ?case
    using readLine_consumes(1,2) [OF n]
    by (auto simp: status_error_def split: if_splits read_status.splits)
qed

lemma readLine_status:
  assumes "readLine r = (line, st, r')"
  shows "st = AtEOF \<Longrightarrow> \<not> cs_fails r" "st = Faulty \<Longrightarrow> cs_fails r"
  using assms by (auto simp: readLine_def Let_def split: if_splits)

lemma next_line_consumes:
  "next_line r = (line, st, r') \<Longrightarrow>
   length (cs_text r') \<le> length (cs_text r) \<and> cs_fails r' = cs_fails r \<and>
   (st = Fine \<longrightarrow> length (cs_text r') < length (cs_text r)) \<and>
   (st = AtEOF \<longrightarrow> \<not> cs_fails r) \<and> (st = Faulty \<longrightarrow> cs_fails r)"
proof (induction r arbitrary: line st r' rule: next_line.induct)
  case (1 r)
  obtain l s q where n: "readLine r = (l, s, q)" by (metis prod_cases3)
  show ?case
  proof (cases "s = Fine \<and> length l = lengthNL l")
    case True
    with "1.prems" n have "next_line q = (line, st, r')" by (subst (asm) next_line.simps) simp
    with True "1.IH" [OF n [symmetric] refl _ this] readLine_consumes [OF n] show ?thesis by auto
  next
    case False
    with "1.prems" n have "(l, s, q) = (line, st, r')" by (subst (asm) next_line.simps) auto
    with readLine_consumes [OF n] readLine_status [OF n] show ?thesis by auto
  qed
qed

lemma csv_Read_step:
  assumes "csv_Read r = (r', x)"
  shows "cs_fails r' = cs_fails r" "\<not> panics x" "x = Err CsvEOF \<Longrightarrow> \<not> cs_fails r"
    "x \<noteq> Err CsvEOF \<Longrightarrow> \<not> cs_fails r \<Longrightarrow> length (cs_text r') < length (cs_text r)"
proof -
  obtain line st q where n: "next_line r = (line, st, q)" by (metis prod_cases3)
  have "cs_fails r' = cs_fails r \<and> \<not> panics x \<and> (x = Err CsvEOF \<longrightarrow> \<not> cs_fails r) \<and>
      (x \<noteq> Err CsvEOF \<longrightarrow> \<not> cs_fails r \<longrightarrow> length (cs_text r') < length (cs_text r))"
  proof (cases "st = AtEOF")
    case True
    with assms n next_line_consumes [OF n] show ?thesis by (auto simp: csv_Read_def)
  next
    case False
    with assms n have "csv_fields line st q [] = (r', x)" by (simp add: csv_Read_def)
    from csv_fields_step(1) [OF this False] next_line_consumes [OF n] False show ?thesis
      by (cases st) auto
  qed
  then show "cs_fails r' = cs_fails r" "\<not> panics x" "x = Err CsvEOF \<Longrightarrow> \<not> cs_fails r"
    "x \<noteq> Err CsvEOF \<Longrightarrow> \<not> cs_fails r \<Longrightarrow> length (cs_text r') < length (cs_text r)"
    by auto
qed

section \<open>The records of a text\<close>

text \<open>All that successive calls of \<open>Read\<close> return before EOF, for a source that reaches it.\<close>

function csv_records :: "csv_source \<Rightarrow> (csv_error, string list) outcome list" where
  "csv_records r =
     (if cs_fails r then []
      else (case csv_Read r of (r', x) \<Rightarrow> if x = Err CsvEOF then [] else x # csv_records r'))"
  by pat_completeness auto
termination
  by (relation "measure (\<lambda>r. length (cs_text r))") (auto dest: csv_Read_step(4) [OF sym])

declare csv_records.simps [simp del]

section \<open>Write\<close>

definition fieldNeedsQuotes :: "string \<Rightarrow> bool" where
  "fieldNeedsQuotes field \<longleftrightarrow>
     field \<noteq> [] \<and>
     (field = [CHR 0x5C, CHR ''.''] \<or>
      (\<exists>c \<in> set field. c = newline \<or> c = return_char \<or> c = quote \<or> c = comma) \<or>
      leading_space wide_spaces field \<noteq> None)"

definition quote_field :: "string \<Rightarrow> string" where
  "quote_field field =
     [quote] @ concat (map (\<lambda>c. if c = quote then [quote, quote] else [c]) field) @ [quote]"

definition csv_field :: "string \<Rightarrow> string" where
  "csv_field field = (if fieldNeedsQuotes field then quote_field field else field)"

fun csv_record :: "string list \<Rightarrow> string" where
  "csv_record [] = []"
| "csv_record [f] = csv_field f"
| "csv_record (f # fs) = csv_field f @ comma # csv_record fs"

text \<open>The text one \<open>Write\<close> appends.\<close>

definition csv_Write :: "string list \<Rightarrow> string" where
  "csv_Write rec = csv_record rec @ [newline]"

end
