(* ===== verification/Sessions.thy ===== *)
theory Sessions
  imports Table
begin

text \<open>
  A table across processes: \<open>Table.Flush\<close> (\<open>storage/table.go\<close>) writes a segment, \<open>LoadTable\<close> opens it
  in a later session. The filter that was flushed is the filter that is loaded, so uniqueness
  spans sessions; a table without a filter or without a primary-key name cannot be reopened.
\<close>

section \<open>Flushing and loading\<close>

text \<open>A file system with one file.\<close>

definition one_file :: "string \<Rightarrow> byte list \<Rightarrow> string \<Rightarrow> byte list option" where
  "one_file path data p = (if p = path then Some data else None)"

definition flush_opts :: "table \<Rightarrow> segment_opts" where
  "flush_opts t = \<lparr>opt_PKName = schema_pk (tbl_schema t), opt_Bloom = tbl_bloom t\<rparr>"

text \<open>The table fits the format and the address space.\<close>

definition flushable :: "table \<Rightarrow> bool" where
  "flushable t \<longleftrightarrow> writable (tbl_schema t) (tbl_buf t) (flush_opts t)"

definition flushed :: "table \<Rightarrow> byte list" where
  "flushed t = segment_bytes (tbl_schema t) (tbl_buf t) (flush_opts t)"

lemma Flush_flushed: "flushable t \<Longrightarrow> Flush buffer_write t w = (w @ flushed t, Ok ())"
  by (simp add: Flush_def flushable_def flushed_def flush_opts_def writable_def WriteSegment_buffer)

lemma parse_flushed:
  assumes "flushable t"
  obtains s where "parseSegment (flushed t) = Ok s" "seg_version s = segmentVersionV2"
    "seg_schema s = tbl_schema t" "seg_pkName s = schema_pk (tbl_schema t)"
    "seg_bloomFilter s = tbl_bloom t" "seg_rowCount s = of_nat (wb_rows (tbl_buf t))"
  using parseSegment_segment_bytes [OF assms [unfolded flushable_def]] that
  by (auto simp: flushed_def flush_opts_def)

lemma LoadTable_flushed:
  assumes "flushable t" "Validate (tbl_schema t) = Ok ()" "tbl_bloom t = Some f"
    "schema_pk (tbl_schema t) \<noteq> []"
  obtains t2 where "LoadTable (one_file path (flushed t)) path = Ok t2" "wf_table t2"
    "tbl_schema t2 = tbl_schema t" "tbl_bloom t2 = Some f" "buffer_rows (tbl_buf t2) = []"
    "tbl_accepted t2 = 0" "tbl_rejected t2 = 0"
proof -
  obtain s where s: "parseSegment (flushed t) = Ok s" "seg_version s = segmentVersionV2"
    "seg_schema s = tbl_schema t" "seg_pkName s = schema_pk (tbl_schema t)"
    "seg_bloomFilter s = tbl_bloom t"
    using assms(1) by (rule parse_flushed)
  have "wf_filter f"
    using assms(1,3) by (simp add: flushable_def writable_def flush_opts_def)
  then obtain t2 where t2: "build_table (tbl_schema t) (Some f) = (Ok t2 :: (table_error, _) outcome)"
    "wf_table t2" "tbl_schema t2 = tbl_schema t" "tbl_bloom t2 = Some f" "buffer_rows (tbl_buf t2) = []"
    "tbl_accepted t2 = 0" "tbl_rejected t2 = 0"
    using build_table_wf [OF assms(2), of "Some f"] by auto
  have "LoadTable (one_file path (flushed t)) path = Ok t2"
    using s t2(1) assms(2-4) by (simp add: LoadTable_def OpenSegment_def one_file_def)
  with t2 that show ?thesis by blast
qed

text \<open>Two well-formed tables with the same schema address the same primary-key column.\<close>

lemma same_schema_keys:
  assumes "wf_table t" "wf_table u" "tbl_schema u = tbl_schema t"
  shows "tbl_pkIdx u = tbl_pkIdx t" "tbl_pkType u = tbl_pkType t"
  using assms by (auto simp: wf_table_def keyed_buffer_def)

lemma maybe_known_same_filter:
  assumes "wf_table t" "wf_table u" "tbl_schema u = tbl_schema t" "tbl_bloom u = tbl_bloom t"
  shows "maybe_known u row = maybe_known t row"
  unfolding maybe_known_def same_schema_keys [OF assms(1-3)] assms(4) by (rule refl)

section \<open>Properties\<close>


lemma insert_all_example:
  "insert_all example_table [[VInt64 1, VString ''x'']] =
     Ok (example_table\<lparr>tbl_buf := example_buffer,
       tbl_bloom := Some \<lparr>bf_m = 2, bf_k = 1, bf_bits = [1], bf_nAdded = 1\<rparr>, tbl_accepted := 1\<rparr>,
     [\<lparr>ir_Accepted = True, ir_Reason = NoReason\<rparr>])"
  by (simp add: Insert_example)

lemma flushable_example:
  assumes "\<And>f. bf = Some f \<Longrightarrow> wf_filter f"
  shows "flushable (example_table\<lparr>tbl_buf := example_buffer, tbl_bloom := bf, tbl_accepted := 1\<rparr>)"
  using writable_example assms
  by (auto simp: flushable_def writable_def flush_opts_def example_table_def example_opts_def example_schema_def)


text \<open>
  What cannot be reopened. The flushed file of a table without a filter is refused for the missing
  Bloom trailer; the flushed file of a table whose primary key is the column with the empty name,
  which \<open>Validate\<close> and \<open>CreateTable\<close> accept, is refused for the missing primary-key name.
\<close>

theorem LoadTable_refuses:
  assumes "flushable t"
  shows "(tbl_bloom t = None \<longrightarrow> schema_pk (tbl_schema t) \<noteq> [] \<longrightarrow>
      LoadTable (one_file path (fst (Flush buffer_write t []))) path = Err IncompatibleNoBloom) \<and>
    (schema_pk (tbl_schema t) = [] \<longrightarrow>
      LoadTable (one_file path (fst (Flush buffer_write t []))) path = Err IncompatibleNoPK)"
proof -
  obtain s where "parseSegment (flushed t) = Ok s" "seg_version s = segmentVersionV2"
    "seg_pkName s = schema_pk (tbl_schema t)" "seg_bloomFilter s = tbl_bloom t"
    using assms by (rule parse_flushed)
  then show ?thesis
    using Flush_flushed [OF assms, of "[]"] by (simp add: LoadTable_def OpenSegment_def one_file_def)
qed

theorem LoadTable_refuses_witness:
  "LoadTable (one_file ''f'' (fst (Flush buffer_write
      (example_table\<lparr>tbl_buf := example_buffer, tbl_bloom := None, tbl_accepted := 1\<rparr>) []))) ''f'' =
    Err IncompatibleNoBloom"
  using LoadTable_refuses [OF flushable_example [of None], of "''f''"]
  by (simp add: example_table_def example_schema_def)

text \<open>
  The schema with a single column named by the empty string, and that name as primary key, passes
  \<open>Validate\<close>, so a table can be created and filled that no later session can load.
\<close>

theorem empty_key_name_is_valid:
  "Validate \<lparr>schema_pk = [], schema_columns = [\<lparr>col_name = [], col_type = String\<rparr>]\<rparr> = Ok () \<and>
   CreateTable example_platform \<lparr>schema_pk = [], schema_columns = [\<lparr>col_name = [], col_type = String\<rparr>]\<rparr>
     example_table_opts \<noteq> Err e"
  by (simp add: Validate_def CreateTable_def build_table_def PKIndex_def ColumnIndex_def New_example
      example_table_opts_def)

end
