(* ===== verification/Load.thy ===== *)
theory Load
  imports Format Csv Sessions FloatText
begin

text \<open>
  \<open>cmd/uniqcol/load.go\<close>: the ingestion of a CSV file into a segment. The schema specification, the
  conversion of fields, the loop over the records with its counters and capped warnings, and the
  command with its early exits. The state of the loop is a record; the loop itself may run for ever, so it
  is a partial function whose value \<open>None\<close> means that it does not return. Files, the clock and the float64
  to int64 conversion of out-of-range values are parameters, collected in an environment.
\<close>

section \<open>The schema specification\<close>

record col_spec =
  spec_name :: string
  spec_typ :: column_type

datatype spec_error =
    EmptySchema
  | ExpectedNameType nat string
  | EmptyColumnName nat
  | DuplicateColumnName nat string
  | UnknownTypeName nat string string

text \<open>\<open>strings.Split\<close> and \<open>strings.SplitN\<close> with limit two, for a separator of one byte.\<close>

fun split_on :: "char \<Rightarrow> string \<Rightarrow> string list" where
  "split_on sep [] = [[]]"
| "split_on sep (c # cs) =
     (if c = sep then [] # split_on sep cs
      else (case split_on sep cs of [] \<Rightarrow> [[c]] | p # ps \<Rightarrow> (c # p) # ps))"

definition split_two :: "char \<Rightarrow> string \<Rightarrow> string list" where
  "split_two sep s =
     (let l = takeWhile (\<lambda>c. c \<noteq> sep) s
      in if length l < length s then [l, drop (length l + 1) s] else [s])"

definition named_type :: "string \<Rightarrow> column_type option" where
  "named_type typ =
     (if typ = ''int64'' then Some Int64
      else if typ = ''float64'' then Some Float64
      else if typ = ''string'' then Some String
      else None)"

fun parse_specs :: "nat \<Rightarrow> string set \<Rightarrow> string list \<Rightarrow> (spec_error, col_spec list) outcome" where
  "parse_specs i seen [] = Ok []"
| "parse_specs i seen (part # parts) =
     (let p = TrimSpace part
      in case split_two CHR '':'' p of
           [n, t] \<Rightarrow>
             (let name = TrimSpace n; typ = TrimSpace t
              in if name = [] then Err (EmptyColumnName (i + 1))
                 else if name \<in> seen then Err (DuplicateColumnName (i + 1) name)
                 else
                   (case named_type typ of
                      None \<Rightarrow> Err (UnknownTypeName (i + 1) name typ)
                    | Some ct \<Rightarrow>
                        bind_ok (parse_specs (i + 1) (insert name seen) parts) (\<lambda>specs.
                          Ok (\<lparr>spec_name = name, spec_typ = ct\<rparr> # specs))))
         | _ \<Rightarrow> Err (ExpectedNameType (i + 1) p))"

definition parseSchemaSpec :: "string \<Rightarrow> (spec_error, col_spec list) outcome" where
  "parseSchemaSpec spec = (if spec = [] then Err EmptySchema else parse_specs 0 {} (split_on comma spec))"

section \<open>Fields\<close>

datatype field_error = EmptyValue string | BadNumber num_error | UnsupportedFieldType string

definition parseFieldByType :: "string \<Rightarrow> column_type \<Rightarrow> (field_error, go_value) outcome" where
  "parseFieldByType field typ =
     (case typ of
        Int64 \<Rightarrow>
          if field = [] then Err (EmptyValue ''int64'')
          else bind_ok (map_err BadNumber (parse_int field)) (\<lambda>v. Ok (VInt64 v))
      | Float64 \<Rightarrow>
          if field = [] then Err (EmptyValue ''float64'')
          else bind_ok (map_err BadNumber (parse_float field)) (\<lambda>v. Ok (VFloat64 v))
      | String \<Rightarrow> Ok (VString field)
      | OtherType b \<Rightarrow> Err (UnsupportedFieldType (column_type_string typ)))"

section \<open>The loop over the records\<close>

text \<open>What the command writes to standard error.\<close>

datatype load_message =
    RequiredFlags
  | SmallFilter uint64
  | BadSchema spec_error
  | KeyNotInSchema string
  | CreateTableFailed table_error
  | OpenCsvFailed
  | HeaderUnreadable csv_error
  | MissingColumn string
  | UnreadableRow uint64 csv_error
  | MissingField uint64 string nat nat
  | BadField uint64 string field_error
  | SuppressedErrors uint64
  | CreateOutputFailed
  | FlushFailed segment_error
  | CloseOutputFailed
  | SaturatedFilter float64 float64

definition maxLoadWarnings :: nat where "maxLoadWarnings = 10"

record load_state =
  ls_source :: csv_source
  ls_table :: table
  ls_row :: row
  ls_rowsRead :: uint64
  ls_parseErrors :: uint64
  ls_warningsEmit :: nat
  ls_stderr :: "load_message list"

definition emitWarning :: "load_message \<Rightarrow> load_state \<Rightarrow> load_state" where
  "emitWarning m st =
     (if maxLoadWarnings \<le> ls_warningsEmit st then st
      else st\<lparr>ls_stderr := ls_stderr st @ [m], ls_warningsEmit := ls_warningsEmit st + 1\<rparr>)"

definition parse_failure :: "load_message \<Rightarrow> load_state \<Rightarrow> load_state" where
  "parse_failure m st = emitWarning m (st\<lparr>ls_parseErrors := ls_parseErrors st + 1\<rparr>)"

text \<open>The inner loop from column \<open>i\<close> on; the flag says that every field was stored in the row.\<close>

fun parse_fields ::
  "nat \<Rightarrow> col_spec list \<Rightarrow> nat list \<Rightarrow> string list \<Rightarrow> uint64 \<Rightarrow> load_state \<Rightarrow> (unit, load_state \<times> bool) outcome"
where
  "parse_fields i [] csvIdx rec rowNum st = Ok (st, True)"
| "parse_fields i (c # cols) csvIdx rec rowNum st =
     bind_ok (fetch csvIdx i) (\<lambda>j.
       if length rec \<le> j
       then Ok (parse_failure (MissingField rowNum (spec_name c) (length rec) j) st, False)
       else
         bind_ok (fetch rec j) (\<lambda>field.
           (case parseFieldByType field (spec_typ c) of
              Err perr \<Rightarrow> Ok (parse_failure (BadField rowNum (spec_name c) perr) st, False)
            | Panic p \<Rightarrow> Panic p
            | Ok v \<Rightarrow>
                if i < length (ls_row st)
                then parse_fields (Suc i) cols csvIdx rec rowNum (st\<lparr>ls_row := (ls_row st)[i := v]\<rparr>)
                else Panic IndexOutOfRange)))"

text \<open>One round of the loop; the flag says whether there is another one.\<close>

definition load_step :: "col_spec list \<Rightarrow> nat list \<Rightarrow> load_state \<Rightarrow> (unit, load_state \<times> bool) outcome" where
  "load_step cols csvIdx st =
     (case csv_Read (ls_source st) of (src, x) \<Rightarrow>
        let st = st\<lparr>ls_source := src\<rparr>
        in if x = Err CsvEOF then Ok (st, False)
           else
             let st = st\<lparr>ls_rowsRead := ls_rowsRead st + 1\<rparr>; rowNum = ls_rowsRead st + 1
             in (case x of
                   Err err \<Rightarrow> Ok (parse_failure (UnreadableRow rowNum err) st, True)
                 | Panic p \<Rightarrow> Panic p
                 | Ok rec \<Rightarrow>
                     bind_ok (parse_fields 0 cols csvIdx rec rowNum st) (\<lambda>(st, good).
                       if good
                       then bind_ok (Insert (ls_table st) (ls_row st)) (\<lambda>(tbl, _).
                              Ok (st\<lparr>ls_table := tbl\<rparr>, True))
                       else Ok (st, True))))"

partial_function (option) load_loop ::
  "col_spec list \<Rightarrow> nat list \<Rightarrow> load_state \<Rightarrow> (unit, load_state) outcome option"
where
  "load_loop cols csvIdx st =
     (case load_step cols csvIdx st of
        Ok (st', again) \<Rightarrow> if again then load_loop cols csvIdx st' else Some (Ok st')
      | Err err \<Rightarrow> Some (Err err)
      | Panic p \<Rightarrow> Some (Panic p))"

section \<open>The CSV header\<close>

text \<open>The last column with a name wins, as in the map the code builds.\<close>

fun index_header :: "nat \<Rightarrow> string list \<Rightarrow> (string \<rightharpoonup> nat) \<Rightarrow> (string \<rightharpoonup> nat)" where
  "index_header i [] m = m"
| "index_header i (h # hs) m = index_header (Suc i) hs (m(TrimSpace h \<mapsto> i))"

fun column_positions :: "(string \<rightharpoonup> nat) \<Rightarrow> col_spec list \<Rightarrow> (load_message, nat list) outcome" where
  "column_positions headerIdx [] = Ok []"
| "column_positions headerIdx (c # cols) =
     (case headerIdx (spec_name c) of
        None \<Rightarrow> Err (MissingColumn (spec_name c))
      | Some j \<Rightarrow> bind_ok (column_positions headerIdx cols) (\<lambda>js. Ok (j # js)))"

section \<open>The summary\<close>

record load_summary =
  sum_rowsRead :: uint64
  sum_accepted :: uint64
  sum_rejected :: uint64
  sum_parseErrors :: uint64
  sum_elapsed :: nat
  sum_bloomDisabled :: bool
  sum_estimatedFPR :: float64
  sum_segmentBytes :: int64

definition dash :: string where
  "dash = string_of [0xE2, 0x80, 0x94]"

definition output_line :: "string \<Rightarrow> string \<Rightarrow> string" where
  "output_line label value = label @ value @ [newline]"

definition rejected_annotation :: "load_summary \<Rightarrow> string" where
  "rejected_annotation s =
     (if \<not> sum_bloomDisabled s \<and> 0 < sum_rowsRead s
      then
        let pct = f_div (f_mul (f_of_nat 100) (f_of_nat (unat (sum_rejected s)))) (f_of_nat (unat (sum_rowsRead s)))
        in ''   ('' @ format_fixed 2 pct @ ''% '' @ dash @ '' probably duplicate)''
      else [])"

definition throughput_text :: "(float64 \<Rightarrow> int64) \<Rightarrow> load_summary \<Rightarrow> (unit, string) outcome" where
  "throughput_text toInt64 s =
     (if 0 < sum_elapsed s \<and> 0 < sum_rowsRead s
      then
        let rps = f_div (f_of_nat (unat (sum_rowsRead s))) (duration_seconds (sum_elapsed s))
        in bind_ok (commaSepInt64 (toInt64 rps)) (\<lambda>t. Ok (t @ '' rows/sec''))
      else Ok dash)"

definition printLoadSummary :: "(float64 \<Rightarrow> int64) \<Rightarrow> load_summary \<Rightarrow> (unit, string) outcome" where
  "printLoadSummary toInt64 s =
     bind_ok (commaSepUint64 (sum_rejected s)) (\<lambda>rejectedField.
     bind_ok (throughput_text toInt64 s) (\<lambda>throughput.
     bind_ok (commaSepUint64 (sum_rowsRead s)) (\<lambda>rowsRead.
     bind_ok (commaSepUint64 (sum_accepted s)) (\<lambda>accepted.
     bind_ok (commaSepUint64 (sum_parseErrors s)) (\<lambda>parseErrors.
       Ok (output_line ''rows read:        '' rowsRead @
           output_line ''accepted:         '' accepted @
           output_line ''rejected (BF):    ''
             (if sum_bloomDisabled s then dash else rejectedField @ rejected_annotation s) @
           output_line ''parse errors:     '' parseErrors @
           output_line ''wall time:        '' (duration_string (duration_round (10 ^ 6) (sum_elapsed s))) @
           output_line ''throughput:       '' throughput @
           output_line ''bloom est. FPR:   ''
             (if sum_bloomDisabled s then dash else format_fixed 5 (sum_estimatedFPR s)) @
           output_line ''segment size:     '' (humanBytes (sum_segmentBytes s))))))))"

section \<open>The command\<close>

text \<open>The parsed flags; flag parsing itself is the standard library's.\<close>

record load_flags =
  lf_csv :: string
  lf_out :: string
  lf_pk :: string
  lf_schema :: string
  lf_expectedItems :: uint64
  lf_targetFPR :: float64
  lf_noBloom :: bool

text \<open>
  The environment: \<open>os.Open\<close>, \<open>os.Create\<close>, the writes to the created file and its \<open>Close\<close>, the size that
  \<open>os.Stat\<close> reports (nothing when it fails), the wall time of the loop, the conversion to \<open>int64\<close>.
\<close>

record 'w load_env =
  le_platform :: platform
  le_open :: "string \<Rightarrow> csv_source option"
  le_create :: "string \<Rightarrow> 'w option"
  le_write :: "'w writer"
  le_close :: "'w \<Rightarrow> bool"
  le_stat :: "'w \<Rightarrow> int64 option"
  le_elapsed :: nat
  le_toInt64 :: "float64 \<Rightarrow> int64"

record 'w load_result =
  lr_code :: nat
  lr_stderr :: "load_message list"
  lr_stdout :: string
  lr_file :: "'w option"

definition load_exit :: "nat \<Rightarrow> load_message list \<Rightarrow> 'w option \<Rightarrow> 'w load_result" where
  "load_exit code msgs f = \<lparr>lr_code = code, lr_stderr = msgs, lr_stdout = [], lr_file = f\<rparr>"

definition flag_warnings :: "load_flags \<Rightarrow> load_message list" where
  "flag_warnings fl =
     (if \<not> lf_noBloom fl \<and> lf_expectedItems fl < 1000 then [SmallFilter (lf_expectedItems fl)] else [])"

definition load_schema :: "load_flags \<Rightarrow> col_spec list \<Rightarrow> schema" where
  "load_schema fl cols =
     \<lparr>schema_pk = lf_pk fl, schema_columns = map (\<lambda>c. \<lparr>col_name = spec_name c, col_type = spec_typ c\<rparr>) cols\<rparr>"

definition load_options :: "load_flags \<Rightarrow> table_options" where
  "load_options fl =
     \<lparr>opt_BloomExpectedItems = lf_expectedItems fl, opt_BloomTargetFPR = lf_targetFPR fl,
      opt_BloomDisabled = lf_noBloom fl\<rparr>"

text \<open>Up to the loop: an error is the message of the early exit.\<close>

definition prepare_table :: "platform \<Rightarrow> load_flags \<Rightarrow> (load_message, col_spec list \<times> table) outcome" where
  "prepare_table p fl =
     bind_ok (map_err BadSchema (parseSchemaSpec (lf_schema fl))) (\<lambda>cols.
       if lf_pk fl \<notin> set (map spec_name cols) then Err (KeyNotInSchema (lf_pk fl))
       else bind_ok (map_err CreateTableFailed (CreateTable p (load_schema fl cols) (load_options fl))) (\<lambda>tbl.
         Ok (cols, tbl)))"

definition read_header :: "csv_source \<Rightarrow> col_spec list \<Rightarrow> (load_message, csv_source \<times> nat list) outcome" where
  "read_header src cols =
     (case csv_Read src of
        (_, Err err) \<Rightarrow> Err (HeaderUnreadable err)
      | (_, Panic p) \<Rightarrow> Panic p
      | (src, Ok header) \<Rightarrow>
          bind_ok (column_positions (index_header 0 header Map.empty) cols) (\<lambda>csvIdx. Ok (src, csvIdx)))"

definition start_load :: "'w load_env \<Rightarrow> load_flags \<Rightarrow> (load_message, col_spec list \<times> nat list \<times> load_state) outcome" where
  "start_load env fl =
     bind_ok (prepare_table (le_platform env) fl) (\<lambda>(cols, tbl).
       (case le_open env (lf_csv fl) of
          None \<Rightarrow> Err OpenCsvFailed
        | Some f \<Rightarrow>
            bind_ok (read_header f cols) (\<lambda>(src, csvIdx).
              Ok (cols, csvIdx,
                \<lparr>ls_source = src, ls_table = tbl, ls_row = replicate (length cols) VNil, ls_rowsRead = 0,
                 ls_parseErrors = 0, ls_warningsEmit = 0, ls_stderr = flag_warnings fl\<rparr>))))"

text \<open>After the loop.\<close>

definition estimatedFPR :: "platform \<Rightarrow> table \<Rightarrow> float64" where
  "estimatedFPR p tbl = (case tbl_bloom tbl of Some bf \<Rightarrow> EstimatedFPR p bf | None \<Rightarrow> f_zero)"

definition loop_messages :: "load_state \<Rightarrow> load_message list" where
  "loop_messages st =
     ls_stderr st @
     (if of_nat (ls_warningsEmit st) < ls_parseErrors st
      then [SuppressedErrors (ls_parseErrors st - of_nat (ls_warningsEmit st))] else [])"

definition summarize :: "'w load_env \<Rightarrow> load_flags \<Rightarrow> load_state \<Rightarrow> 'w \<Rightarrow> load_summary" where
  "summarize env fl st w =
     (let stats = Stats (ls_table st)
      in \<lparr>sum_rowsRead = ls_rowsRead st, sum_accepted = st_Accepted stats, sum_rejected = st_Rejected stats,
          sum_parseErrors = ls_parseErrors st, sum_elapsed = le_elapsed env, sum_bloomDisabled = lf_noBloom fl,
          sum_estimatedFPR = estimatedFPR (le_platform env) (ls_table st),
          sum_segmentBytes = (case le_stat env w of Some n \<Rightarrow> n | None \<Rightarrow> 0)\<rparr>)"

definition finish_load :: "'w load_env \<Rightarrow> load_flags \<Rightarrow> load_state \<Rightarrow> (unit, 'w load_result) outcome" where
  "finish_load env fl st =
     (let msgs = loop_messages st
      in case le_create env (lf_out fl) of
           None \<Rightarrow> Ok (load_exit 1 (msgs @ [CreateOutputFailed]) None)
         | Some w0 \<Rightarrow>
             (case Flush (le_write env) (ls_table st) w0 of
                (w, Err err) \<Rightarrow> Ok (load_exit 1 (msgs @ [FlushFailed err]) (Some w))
              | (w, Panic p) \<Rightarrow> Panic p
              | (w, Ok _) \<Rightarrow>
                  if \<not> le_close env w then Ok (load_exit 1 (msgs @ [CloseOutputFailed]) (Some w))
                  else
                    let estFPR = estimatedFPR (le_platform env) (ls_table st);
                        saturated = (if \<not> lf_noBloom fl \<and> f_less (f_mul (f_of_nat 2) (lf_targetFPR fl)) estFPR
                                     then [SaturatedFilter estFPR (lf_targetFPR fl)] else [])
                    in bind_ok (printLoadSummary (le_toInt64 env) (summarize env fl st w)) (\<lambda>out.
                         Ok \<lparr>lr_code = 0, lr_stderr = msgs @ saturated, lr_stdout = out, lr_file = Some w\<rparr>)))"

definition runLoad :: "'w load_env \<Rightarrow> load_flags option \<Rightarrow> (unit, 'w load_result) outcome option" where
  "runLoad env flags =
     (case flags of
        None \<Rightarrow> Some (Ok (load_exit 2 [] None))
      | Some fl \<Rightarrow>
          if lf_csv fl = [] \<or> lf_out fl = [] \<or> lf_pk fl = [] \<or> lf_schema fl = []
          then Some (Ok (load_exit 1 [RequiredFlags] None))
          else
            (case start_load env fl of
               Err m \<Rightarrow> Some (Ok (load_exit 1 (flag_warnings fl @ [m]) None))
             | Panic p \<Rightarrow> Some (Panic p)
             | Ok (cols, csvIdx, st) \<Rightarrow>
                 (case load_loop cols csvIdx st of
                    None \<Rightarrow> None
                  | Some (Ok st) \<Rightarrow> Some (finish_load env fl st)
                  | Some (Err err) \<Rightarrow> Some (Err err)
                  | Some (Panic p) \<Rightarrow> Some (Panic p))))"

end
