(* ===== verification/LoadFacts.thy ===== *)
theory LoadFacts
  imports Load ParserFacts
begin

text \<open>
  Correctness of \<open>load\<close>: what the schema specification accepts, and the loop as the insertion, in order,
  of the rows that parse, with counters that add up and a bounded number of warnings. The loop returns
  exactly when the CSV source reaches its end.
\<close>

section \<open>The schema specification\<close>

lemma named_type_Some_iff:
  "named_type t = Some ct \<longleftrightarrow>
   t = ''int64'' \<and> ct = Int64 \<or> t = ''float64'' \<and> ct = Float64 \<or> t = ''string'' \<and> ct = String"
  by (auto simp: named_type_def)

lemma parse_specs_no_panic: "parse_specs i seen parts \<noteq> Panic p"
  by (induction parts arbitrary: i seen)
    (auto simp: Let_def bind_ok_Panic_iff split: list.splits option.splits)

lemma parse_specs_Ok:
  "parse_specs i seen parts = Ok cols \<Longrightarrow>
   length cols = length parts \<and> distinct (map spec_name cols) \<and> set (map spec_name cols) \<inter> seen = {} \<and>
   [] \<notin> set (map spec_name cols) \<and> set (map spec_typ cols) \<subseteq> {Int64, Float64, String}"
proof (induction parts arbitrary: i seen cols)
  case (Cons part parts)
  let ?p = "TrimSpace part"
  obtain n t where nt: "split_two CHR '':'' ?p = [n, t]"
    using Cons.prems by (auto simp: Let_def split: list.splits)
  with Cons.prems obtain ct rest where
    "TrimSpace n \<noteq> []" "TrimSpace n \<notin> seen" "named_type (TrimSpace t) = Some ct"
    "parse_specs (i + 1) (insert (TrimSpace n) seen) parts = Ok rest"
    "cols = \<lparr>spec_name = TrimSpace n, spec_typ = ct\<rparr> # rest"
    by (auto simp: Let_def split: if_splits option.splits)
  with Cons.IH [of "i + 1" "insert (TrimSpace n) seen" rest] show ?case
    by (auto simp: named_type_Some_iff)
qed simp

lemma split_on_nonempty [simp]: "split_on sep s \<noteq> []"
  by (cases s) (auto split: list.split)

lemma parseSchemaSpec_Ok:
  assumes "parseSchemaSpec spec = Ok cols"
  shows "cols \<noteq> []" "distinct (map spec_name cols)" "[] \<notin> set (map spec_name cols)"
    "set (map spec_typ cols) \<subseteq> {Int64, Float64, String}"
  using assms parse_specs_Ok [of 0 "{}" "split_on comma spec" cols] split_on_nonempty [of comma spec]
  by (auto simp: parseSchemaSpec_def split: if_splits simp del: split_on_nonempty)

lemma load_schema_columns:
  "column_names (load_schema fl cols) = map spec_name cols" "length (schema_columns (load_schema fl cols)) = length cols"
  "schema_pk (load_schema fl cols) = lf_pk fl"
  by (simp_all add: column_names_def load_schema_def)

text \<open>Trimmed text: no space at either end.\<close>

lemma strip_id_iff:
  assumes "\<forall>w \<in> set wide. w \<noteq> []"
  shows "strip wide s = s \<longleftrightarrow> leading_space wide s = None"
proof -
  have le: "length (strip wide s) \<le> length s" for s
    by (induction wide s rule: strip.induct) (subst strip.simps, auto split: option.split)
  show ?thesis
  proof (cases "leading_space wide s")
    case (Some n)
    with leading_space_pos [OF Some assms] le [of "drop n s"] have "length (strip wide s) < length s"
      by (subst strip.simps) simp
    with Some show ?thesis by auto
  qed (subst strip.simps, simp)
qed

lemma length_strip_le: "length (strip wide s) \<le> length s"
  by (induction wide s rule: strip.induct) (subst strip.simps, auto split: option.split)

lemma TrimSpace_id_iff:
  "TrimSpace s = s \<longleftrightarrow>
   leading_space wide_spaces s = None \<and> leading_space (map rev wide_spaces) (rev s) = None"
proof -
  let ?t = "strip wide_spaces s" and ?r = "map rev wide_spaces"
  have w: "\<forall>w \<in> set wide_spaces. w \<noteq> []" "\<forall>w \<in> set ?r. w \<noteq> []"
    using wide_spaces_nonempty by auto
  have "TrimSpace s = s \<longleftrightarrow> ?t = s \<and> strip ?r (rev s) = rev s"
  proof
    assume t: "TrimSpace s = s"
    then have "length s \<le> length ?t"
      using length_strip_le [of ?r "rev ?t"] by (metis TrimSpace_def length_rev)
    moreover have "\<exists>n. ?t = drop n s"
      by (induction wide_spaces s rule: strip.induct)
        (subst strip.simps, auto split: option.split intro: exI [of _ 0])
    ultimately have "?t = s" by (metis drop_0 length_drop diff_is_0_eq' diff_diff_cancel drop_all le_cases length_0_conv length_strip_le le_antisym)
    with t show "?t = s \<and> strip ?r (rev s) = rev s" by (metis TrimSpace_def rev_rev_ident)
  qed (simp add: TrimSpace_def)
  then show ?thesis using w by (simp add: strip_id_iff)
qed

lemma wide_spaces_high:
  "\<forall>w \<in> set wide_spaces. w \<noteq> [] \<and> (\<forall>c \<in> set w. 128 \<le> (of_char c :: nat))"
  "\<forall>w \<in> set (map rev wide_spaces). w \<noteq> [] \<and> (\<forall>c \<in> set w. 128 \<le> (of_char c :: nat))"
proof -
  show high: "\<forall>w \<in> set wide_spaces. w \<noteq> [] \<and> (\<forall>c \<in> set w. 128 \<le> (of_char c :: nat))"
    by (simp add: wide_spaces_def string_of_def char_of_byte_def upt_rec [of 0] upt_rec)
  then show "\<forall>w \<in> set (map rev wide_spaces). w \<noteq> [] \<and> (\<forall>c \<in> set w. 128 \<le> (of_char c :: nat))"
    by simp
qed

lemma leading_space_ascii:
  assumes "\<forall>w \<in> set wide. w \<noteq> [] \<and> (\<forall>c \<in> set w. 128 \<le> (of_char c :: nat))"
    and "(of_char c :: nat) < 128" "\<not> ascii_space c"
  shows "leading_space wide (c # s) = None"
proof -
  have "take (length w) (c # s) \<noteq> w" if "w \<in> set wide" for w
    using assms(1,2) that by (cases w) force+
  then show ?thesis using assms(3) by (simp add: leading_space_def find_None_iff)
qed

lemma leading_space_before_ascii:
  assumes "\<forall>w \<in> set wide. w \<noteq> [] \<and> (\<forall>c \<in> set w. 128 \<le> (of_char c :: nat))"
    and "(of_char c :: nat) < 128" "leading_space wide n = None" "n \<noteq> []"
  shows "leading_space wide (n @ c # s) = None"
proof -
  have "take (length w) (n @ c # s) \<noteq> w" if w: "w \<in> set wide" for w
  proof (cases "length w \<le> length n")
    case True
    then show ?thesis using assms(3) w by (auto simp: leading_space_def find_None_iff split: if_splits)
  next
    case False
    then have "0 < length w - length n" by simp
    then have "c \<in> set (take (length w) (n @ c # s))" by (cases "length w - length n") auto
    moreover have "c \<notin> set w" using assms(1,2) w by fastforce
    ultimately show ?thesis by metis
  qed
  then show ?thesis using assms(3,4) by (auto simp: leading_space_def find_None_iff split: if_splits)
qed

text \<open>The text of a list of specifications with plain names parses to it.\<close>

definition plain_name :: "string \<Rightarrow> bool" where
  "plain_name n \<longleftrightarrow> n \<noteq> [] \<and> TrimSpace n = n \<and> comma \<notin> set n \<and> CHR '':'' \<notin> set n"

definition spec_item :: "col_spec \<Rightarrow> string" where
  "spec_item c = spec_name c @ CHR '':'' # column_type_string (spec_typ c)"

fun spec_text :: "col_spec list \<Rightarrow> string" where
  "spec_text [] = []"
| "spec_text [c] = spec_item c"
| "spec_text (c # cs) = spec_item c @ comma # spec_text cs"

lemma split_on_plain: "sep \<notin> set s \<Longrightarrow> split_on sep s = [s]"
  by (induction s) auto

lemma split_on_app: "sep \<notin> set s \<Longrightarrow> split_on sep (s @ sep # t) = s # split_on sep t"
  by (induction s) auto

lemma named_type_string: "t \<in> {Int64, Float64, String} \<Longrightarrow> named_type (column_type_string t) = Some t"
  by (auto simp: named_type_def)

lemma trim_ascii_ends:
  assumes "s \<noteq> []" "(of_char (hd s) :: nat) < 128" "\<not> ascii_space (hd s)"
    and "(of_char (last s) :: nat) < 128" "\<not> ascii_space (last s)"
  shows "TrimSpace s = s"
proof -
  have "s = hd s # tl s" "rev s = last s # rev (butlast s)"
    using assms(1) by (simp_all add: rev_eq_Cons_iff)
  then show ?thesis
    using leading_space_ascii [OF wide_spaces_high(1) assms(2,3)] leading_space_ascii [OF wide_spaces_high(2) assms(4,5)]
    by (metis TrimSpace_id_iff)
qed

lemma TrimSpace_type: "t \<in> {Int64, Float64, String} \<Longrightarrow> TrimSpace (column_type_string t) = column_type_string t"
  by (rule trim_ascii_ends) (auto simp: ascii_space_def)

lemma TrimSpace_item:
  assumes "plain_name (spec_name c)" "spec_typ c \<in> {Int64, Float64, String}"
  shows "TrimSpace (spec_item c) = spec_item c"
proof -
  let ?n = "spec_name c" and ?t = "column_type_string (spec_typ c)"
  have n: "?n \<noteq> []" "leading_space wide_spaces ?n = None"
    using assms(1) by (simp_all add: plain_name_def TrimSpace_id_iff)
  have "leading_space wide_spaces (spec_item c) = None"
    unfolding spec_item_def by (rule leading_space_before_ascii [OF wide_spaces_high(1) _ n(2,1)]) simp
  moreover have "\<exists>x xs. rev (spec_item c) = x # xs \<and> (of_char x :: nat) < 128 \<and> \<not> ascii_space x"
    using assms(2) by (auto simp: spec_item_def ascii_space_def)
  then have "leading_space (map rev wide_spaces) (rev (spec_item c)) = None"
    using leading_space_ascii [OF wide_spaces_high(2)] by auto
  ultimately show ?thesis by (simp add: TrimSpace_id_iff)
qed

lemma parse_specs_item:
  assumes "plain_name (spec_name c)" "spec_typ c \<in> {Int64, Float64, String}" "spec_name c \<notin> seen"
  shows "parse_specs i seen (spec_item c # parts) =
    bind_ok (parse_specs (i + 1) (insert (spec_name c) seen) parts) (\<lambda>specs. Ok (c # specs))"
proof -
  have "split_two CHR '':'' (spec_item c) = [spec_name c, column_type_string (spec_typ c)]"
    using assms(1) by (auto simp: split_two_def spec_item_def plain_name_def Let_def takeWhile_append)
  with assms TrimSpace_item [OF assms(1,2)] TrimSpace_type [OF assms(2)] named_type_string [OF assms(2)]
  show ?thesis by (cases c) (simp add: plain_name_def Let_def)
qed

lemma comma_not_in_item:
  "plain_name (spec_name c) \<Longrightarrow> spec_typ c \<in> {Int64, Float64, String} \<Longrightarrow> comma \<notin> set (spec_item c)"
  by (auto simp: spec_item_def plain_name_def)

lemma parse_specs_text:
  "cols \<noteq> [] \<Longrightarrow> \<forall>c \<in> set cols. plain_name (spec_name c) \<and> spec_typ c \<in> {Int64, Float64, String} \<Longrightarrow>
   distinct (map spec_name cols) \<Longrightarrow> set (map spec_name cols) \<inter> seen = {} \<Longrightarrow>
   parse_specs i seen (split_on comma (spec_text cols)) = Ok cols"
proof (induction cols arbitrary: i seen rule: spec_text.induct)
  case (2 c)
  then show ?case using parse_specs_item [of c seen i "[]"] comma_not_in_item [of c]
    by (simp add: split_on_plain)
next
  case (3 c d cs)
  have "split_on comma (spec_text (c # d # cs)) = spec_item c # split_on comma (spec_text (d # cs))"
    using comma_not_in_item [of c] "3.prems" by (simp add: split_on_app)
  moreover have "parse_specs (i + 1) (insert (spec_name c) seen) (split_on comma (spec_text (d # cs))) = Ok (d # cs)"
    by (rule "3.IH") (use "3.prems" in auto)
  ultimately show ?case using parse_specs_item [of c seen i] "3.prems" by simp
qed simp

lemma spec_text_nonempty: "cols \<noteq> [] \<Longrightarrow> spec_text cols \<noteq> []"
  by (cases cols rule: spec_text.cases) (auto simp: spec_item_def)

section \<open>Fields and rows\<close>

text \<open>The row of a record, when every column has a field and every field parses.\<close>

definition field_value :: "string list \<Rightarrow> col_spec \<Rightarrow> nat \<Rightarrow> go_value option" where
  "field_value rec c j =
     (if j < length rec
      then case parseFieldByType (rec ! j) (spec_typ c) of Ok v \<Rightarrow> Some v | _ \<Rightarrow> None
      else None)"

definition row_of_record :: "col_spec list \<Rightarrow> nat list \<Rightarrow> string list \<Rightarrow> row option" where
  "row_of_record cols csvIdx rec = those (map2 (field_value rec) cols csvIdx)"

definition row_of_read :: "col_spec list \<Rightarrow> nat list \<Rightarrow> (csv_error, string list) outcome \<Rightarrow> row option" where
  "row_of_read cols csvIdx x = (case x of Ok rec \<Rightarrow> row_of_record cols csvIdx rec | _ \<Rightarrow> None)"

definition parsed_rows :: "col_spec list \<Rightarrow> nat list \<Rightarrow> csv_source \<Rightarrow> row list" where
  "parsed_rows cols csvIdx src = List.map_filter (row_of_read cols csvIdx) (csv_records src)"

definition bad_reads :: "col_spec list \<Rightarrow> nat list \<Rightarrow> csv_source \<Rightarrow> nat" where
  "bad_reads cols csvIdx src = length (filter (\<lambda>x. row_of_read cols csvIdx x = None) (csv_records src))"

lemma parseFieldByType_no_panic [simp]: "parseFieldByType field t \<noteq> Panic p"
  by (auto simp: parseFieldByType_def bind_ok_Panic_iff split: column_type.split)

lemma parseFieldByType_type: "parseFieldByType field t = Ok v \<Longrightarrow> has_type v t"
  by (auto simp: parseFieldByType_def split: column_type.splits if_splits)

lemma parse_fields_spec:
  "i + length cols = length csvIdx \<Longrightarrow> length (ls_row st) = length csvIdx \<Longrightarrow>
   (case those (map2 (field_value rec) cols (drop i csvIdx)) of
      Some vs \<Rightarrow>
        parse_fields i cols csvIdx rec n st = Ok (st\<lparr>ls_row := take i (ls_row st) @ vs\<rparr>, True) \<and>
        length vs = length cols
    | None \<Rightarrow>
        \<exists>m row. parse_fields i cols csvIdx rec n st = Ok (parse_failure m (st\<lparr>ls_row := row\<rparr>), False) \<and>
          length row = length (ls_row st))"
proof (induction cols arbitrary: i st)
  case Nil
  then show ?case by simp
next
  case (Cons c cols)
  let ?j = "csvIdx ! i"
  from Cons.prems have i: "i < length csvIdx" "drop i csvIdx = ?j # drop (Suc i) csvIdx"
    by (simp_all add: Cons_nth_drop_Suc)
  show ?case
  proof (cases "field_value rec c ?j")
    case None
    then have "\<exists>m. parse_fields i (c # cols) csvIdx rec n st = Ok (parse_failure m st, False)"
      using i(1) by (auto simp: field_value_def split: if_splits outcome.splits)
    then obtain m where "parse_fields i (c # cols) csvIdx rec n st = Ok (parse_failure m st, False)" by blast
    moreover have "st = st\<lparr>ls_row := ls_row st\<rparr>" by simp
    ultimately have "\<exists>m row. parse_fields i (c # cols) csvIdx rec n st = Ok (parse_failure m (st\<lparr>ls_row := row\<rparr>), False) \<and>
        length row = length (ls_row st)" by metis
    with None i(2) show ?thesis by (simp del: parse_fields.simps)
  next
    case (Some v)
    let ?st = "st\<lparr>ls_row := (ls_row st)[i := v]\<rparr>"
    from Some have v: "?j < length rec" "parseFieldByType (rec ! ?j) (spec_typ c) = Ok v"
      by (auto simp: field_value_def split: if_splits outcome.splits)
    have step: "parse_fields i (c # cols) csvIdx rec n st = parse_fields (Suc i) cols csvIdx rec n ?st"
      using i(1) v Cons.prems by simp
    have t: "take (Suc i) ((ls_row st)[i := v]) = take i (ls_row st) @ [v]"
      using i(1) Cons.prems by (simp add: take_Suc_conv_app_nth)
    show ?thesis
      using Cons.IH [of "Suc i" ?st] Cons.prems Some i(2) step t
      by (cases "those (map2 (field_value rec) cols (drop (Suc i) csvIdx))") (auto simp del: parse_fields.simps)
  qed
qed

section \<open>The loop\<close>

text \<open>What the loop keeps: a well-formed table and a row of the right length.\<close>

definition load_ready :: "col_spec list \<Rightarrow> nat list \<Rightarrow> load_state \<Rightarrow> bool" where
  "load_ready cols csvIdx st \<longleftrightarrow>
     wf_table (ls_table st) \<and> length csvIdx = length cols \<and> length (ls_row st) = length cols"

lemma parse_failure_simps [simp]:
  "ls_source (parse_failure m st) = ls_source st" "ls_table (parse_failure m st) = ls_table st"
  "ls_row (parse_failure m st) = ls_row st" "ls_rowsRead (parse_failure m st) = ls_rowsRead st"
  "ls_parseErrors (parse_failure m st) = ls_parseErrors st + 1"
  "ls_warningsEmit st \<le> maxLoadWarnings \<Longrightarrow>
     ls_warningsEmit (parse_failure m st) = min maxLoadWarnings (ls_warningsEmit st + 1)"
  "length (ls_stderr (parse_failure m st)) + ls_warningsEmit st = length (ls_stderr st) + ls_warningsEmit (parse_failure m st)"
  by (simp_all add: parse_failure_def emitWarning_def)

lemma load_step_EOF:
  "csv_Read (ls_source st) = (src, Err CsvEOF) \<Longrightarrow>
   load_step cols csvIdx st = Ok (st\<lparr>ls_source := src\<rparr>, False)"
  by (simp add: load_step_def)

lemma load_step_bad:
  assumes "load_ready cols csvIdx st" "csv_Read (ls_source st) = (src, x)" "x \<noteq> Err CsvEOF"
    and "row_of_read cols csvIdx x = None"
  shows "\<exists>m row. length row = length cols \<and> load_step cols csvIdx st =
       Ok (parse_failure m (st\<lparr>ls_source := src, ls_rowsRead := ls_rowsRead st + 1, ls_row := row\<rparr>), True)"
proof (cases x)
  case (Ok rec)
  let ?st = "st\<lparr>ls_source := src, ls_rowsRead := ls_rowsRead st + 1\<rparr>"
  have "those (map2 (field_value rec) cols (drop 0 csvIdx)) = None"
    using assms(4) Ok by (simp add: row_of_read_def row_of_record_def)
  with parse_fields_spec [of 0 cols csvIdx ?st rec "ls_rowsRead st + 1 + 1"] assms(1) obtain m row where
    "parse_fields 0 cols csvIdx rec (ls_rowsRead st + 1 + 1) ?st = Ok (parse_failure m (?st\<lparr>ls_row := row\<rparr>), False)"
    "length row = length cols"
    by (auto simp: load_ready_def)
  with Ok assms(2) have "load_step cols csvIdx st = Ok (parse_failure m (?st\<lparr>ls_row := row\<rparr>), True)"
    by (simp add: load_step_def)
  with \<open>length row = length cols\<close> show ?thesis by auto
next
  case (Err e)
  have "load_step cols csvIdx st = Ok (parse_failure (UnreadableRow (ls_rowsRead st + 1 + 1) e)
      (st\<lparr>ls_source := src, ls_rowsRead := ls_rowsRead st + 1, ls_row := ls_row st\<rparr>), True)"
    using assms(2,3) Err by (simp add: load_step_def)
  moreover have "length (ls_row st) = length cols" using assms(1) by (simp add: load_ready_def)
  ultimately show ?thesis by blast
next
  case (Panic p)
  with csv_Read_step(2) [OF assms(2)] show ?thesis by simp
qed

lemma load_step_good:
  assumes "load_ready cols csvIdx st" "csv_Read (ls_source st) = (src, x)"
    and "row_of_read cols csvIdx x = Some vs" "Insert (ls_table st) vs = Ok (t, res)"
  shows "load_step cols csvIdx st =
      Ok (st\<lparr>ls_source := src, ls_rowsRead := ls_rowsRead st + 1, ls_row := vs, ls_table := t\<rparr>, True)"
    "length vs = length cols"
proof -
  obtain rec where x: "x = Ok rec" using assms(3) by (auto simp: row_of_read_def split: outcome.splits)
  let ?st = "st\<lparr>ls_source := src, ls_rowsRead := ls_rowsRead st + 1\<rparr>"
  have "those (map2 (field_value rec) cols (drop 0 csvIdx)) = Some vs"
    using assms(3) x by (simp add: row_of_read_def row_of_record_def)
  with parse_fields_spec [of 0 cols csvIdx ?st rec "ls_rowsRead st + 1 + 1"] assms(1) have
    "parse_fields 0 cols csvIdx rec (ls_rowsRead st + 1 + 1) ?st = Ok (?st\<lparr>ls_row := vs\<rparr>, True)"
    and len: "length vs = length cols"
    by (auto simp: load_ready_def)
  with x assms(2,4) show "load_step cols csvIdx st =
      Ok (st\<lparr>ls_source := src, ls_rowsRead := ls_rowsRead st + 1, ls_row := vs, ls_table := t\<rparr>, True)"
    by (simp add: load_step_def)
  show "length vs = length cols" by (rule len)
qed

text \<open>A round on a source that does not fail: the end, a bad record, or an insertion.\<close>

lemma load_step_cases:
  assumes "load_ready cols csvIdx st" "csv_Read (ls_source st) = (src, x)"
  obtains (EOF) "x = Err CsvEOF" "load_step cols csvIdx st = Ok (st\<lparr>ls_source := src\<rparr>, False)"
  | (bad) st' m row where "x \<noteq> Err CsvEOF" "row_of_read cols csvIdx x = None"
      "load_step cols csvIdx st = Ok (st', True)" "load_ready cols csvIdx st'"
      "st' = parse_failure m (st\<lparr>ls_source := src, ls_rowsRead := ls_rowsRead st + 1, ls_row := row\<rparr>)"
  | (good) st' t res vs where "x \<noteq> Err CsvEOF" "row_of_read cols csvIdx x = Some vs"
      "Insert (ls_table st) vs = Ok (t, res)" "insert_step (ls_table st) vs (ir_Accepted res) t"
      "load_step cols csvIdx st = Ok (st', True)" "load_ready cols csvIdx st'"
      "st' = st\<lparr>ls_source := src, ls_rowsRead := ls_rowsRead st + 1, ls_row := vs, ls_table := t\<rparr>"
proof (cases "x = Err CsvEOF")
  case True
  with EOF load_step_EOF assms(2) show ?thesis by blast
next
  case False
  show ?thesis
  proof (cases "row_of_read cols csvIdx x")
    case None
    from load_step_bad [OF assms False None] obtain m row where step: "length row = length cols"
      "load_step cols csvIdx st =
         Ok (parse_failure m (st\<lparr>ls_source := src, ls_rowsRead := ls_rowsRead st + 1, ls_row := row\<rparr>), True)"
      by blast
    have "load_ready cols csvIdx
        (parse_failure m (st\<lparr>ls_source := src, ls_rowsRead := ls_rowsRead st + 1, ls_row := row\<rparr>))"
      using assms(1) step(1) by (simp add: load_ready_def)
    from bad [OF False None step(2) this refl] show ?thesis .
  next
    case (Some vs)
    obtain t res where ins: "Insert (ls_table st) vs = Ok (t, res)" "insert_step (ls_table st) vs (ir_Accepted res) t"
      using Insert_spec assms(1) unfolding load_ready_def by blast
    note step = load_step_good [OF assms Some ins(1)]
    have "load_ready cols csvIdx (st\<lparr>ls_source := src, ls_rowsRead := ls_rowsRead st + 1, ls_row := vs, ls_table := t\<rparr>)"
      using assms(1) ins(2) step(2) by (simp add: load_ready_def insert_step_def)
    with good [OF False Some ins step(1)] show ?thesis by blast
  qed
qed

lemma load_loop_reads:
  assumes "load_ready cols csvIdx st" "\<not> cs_fails (ls_source st)"
  shows "\<exists>st' results. load_loop cols csvIdx st = Some (Ok st') \<and> load_ready cols csvIdx st' \<and>
    insert_all (ls_table st) (parsed_rows cols csvIdx (ls_source st)) = Ok (ls_table st', results) \<and>
    ls_rowsRead st' = ls_rowsRead st + of_nat (length (csv_records (ls_source st))) \<and>
    ls_parseErrors st' = ls_parseErrors st + of_nat (bad_reads cols csvIdx (ls_source st)) \<and>
    (ls_warningsEmit st \<le> maxLoadWarnings \<longrightarrow>
       ls_warningsEmit st' = min maxLoadWarnings (ls_warningsEmit st + bad_reads cols csvIdx (ls_source st)) \<and>
       length (ls_stderr st') + ls_warningsEmit st = length (ls_stderr st) + ls_warningsEmit st')"
    (is "?P st")
  using assms
proof (induction "length (cs_text (ls_source st))" arbitrary: st rule: less_induct)
  case less
  let ?src = "ls_source st"
  obtain src x where read: "csv_Read ?src = (src, x)" by (cases "csv_Read ?src")
  note facts = csv_Read_step [OF read]
  note prem = less.prems and IH = less.hyps
  have recs: "csv_records ?src = (if x = Err CsvEOF then [] else x # csv_records src)"
    using prem(2) read by (subst csv_records.simps) simp
  from prem(1) read show ?case
  proof (cases rule: load_step_cases)
    case EOF
    with recs prem(1) show ?thesis
      by (intro exI [of _ "st\<lparr>ls_source := src\<rparr>"] exI [of _ "[]"], subst load_loop.simps)
        (simp add: parsed_rows_def bad_reads_def map_filter_simps load_ready_def)
  next
    case (bad st' m row)
    have "ls_source st' = src" using bad(5) by simp
    with IH [of st'] bad(1,4) facts(1,4) prem(2) have "?P st'" by simp
    moreover have "load_loop cols csvIdx st = load_loop cols csvIdx st'"
      using bad(3) by (subst load_loop.simps) simp
    moreover have "parsed_rows cols csvIdx ?src = parsed_rows cols csvIdx src"
      "bad_reads cols csvIdx ?src = Suc (bad_reads cols csvIdx src)"
      using recs bad(1,2) by (simp_all add: parsed_rows_def bad_reads_def map_filter_simps)
    ultimately show ?thesis using recs bad(1) \<open>ls_source st' = src\<close>
      parse_failure_simps(7) [of m "st\<lparr>ls_source := src, ls_rowsRead := ls_rowsRead st + 1, ls_row := row\<rparr>"]
      by (auto simp: bad(5) algebra_simps)
  next
    case (good st' t res vs)
    have "ls_source st' = src" using good(7) by simp
    with IH [of st'] good(1,6) facts(1,4) prem(2) have "?P st'" by simp
    moreover have "load_loop cols csvIdx st = load_loop cols csvIdx st'"
      using good(5) by (subst load_loop.simps) simp
    moreover have "parsed_rows cols csvIdx ?src = vs # parsed_rows cols csvIdx src"
      "bad_reads cols csvIdx ?src = bad_reads cols csvIdx src"
      using recs good(1,2) by (simp_all add: parsed_rows_def bad_reads_def map_filter_simps)
    ultimately show ?thesis using recs good(1,3) by (auto simp: good(7) algebra_simps)
  qed
qed

text \<open>A source that fails never ends: every round reports the error again and goes on.\<close>

lemma load_loop_fails:
  assumes "load_ready cols csvIdx st" "cs_fails (ls_source st)"
  shows "load_loop cols csvIdx st = None"
proof -
  have "load_ready cols csvIdx st \<longrightarrow> \<not> cs_fails (ls_source st)" if "load_loop cols csvIdx st = Some r" for r
  proof (rule load_loop.raw_induct [OF _ that,
        where P = "\<lambda>cols csvIdx st r. load_ready cols csvIdx st \<longrightarrow> \<not> cs_fails (ls_source st)"])
    fix loop cols csvIdx st r
    assume IH: "\<And>c i s y. loop c i s = Some y \<Longrightarrow> load_ready c i s \<longrightarrow> \<not> cs_fails (ls_source s)"
      and body: "(case load_step cols csvIdx st of
          Ok (st', again) \<Rightarrow> if again then loop cols csvIdx st' else Some (Ok st')
        | Err err \<Rightarrow> Some (Err err) | Panic p \<Rightarrow> Some (Panic p)) = Some r"
    show "load_ready cols csvIdx st \<longrightarrow> \<not> cs_fails (ls_source st)"
    proof (intro impI notI)
      assume ready: "load_ready cols csvIdx st" and fails: "cs_fails (ls_source st)"
      obtain src x where read: "csv_Read (ls_source st) = (src, x)" by (cases "csv_Read (ls_source st)")
      note facts = csv_Read_step [OF read]
      have "\<exists>st'. load_step cols csvIdx st = Ok (st', True) \<and> load_ready cols csvIdx st' \<and> cs_fails (ls_source st')"
        using ready read by (cases rule: load_step_cases) (use facts fails in auto)
      then obtain st' where st': "load_step cols csvIdx st = Ok (st', True)" "load_ready cols csvIdx st'"
        "cs_fails (ls_source st')" by blast
      with body have "loop cols csvIdx st' = Some r" by simp
      with IH st'(2,3) show False by blast
    qed
  qed
  with assms show ?thesis by (cases "load_loop cols csvIdx st") auto
qed

section \<open>The command\<close>

lemma column_positions_Ok: "column_positions m cols = Ok js \<Longrightarrow> length js = length cols"
  by (induction cols arbitrary: js) (auto split: option.splits)

lemma read_header_Ok:
  assumes "read_header f cols = Ok (src, csvIdx)"
  shows "length csvIdx = length cols" "cs_fails src = cs_fails f"
proof -
  obtain s x where r: "csv_Read f = (s, x)" by (cases "csv_Read f")
  with assms column_positions_Ok csv_Read_step(1) [OF r]
  show "length csvIdx = length cols" "cs_fails src = cs_fails f"
    by (auto simp: read_header_def split: outcome.splits)
qed

lemma start_load_ready:
  assumes "start_load env fl = Ok (cols, csvIdx, st)"
    and "lf_noBloom fl \<or> \<not> f_is_nan (math_log (le_platform env) (lf_targetFPR fl))"
  shows "load_ready cols csvIdx st" "tbl_schema (ls_table st) = load_schema fl cols"
    "buffer_rows (tbl_buf (ls_table st)) = []" "tbl_accepted (ls_table st) = 0" "tbl_rejected (ls_table st) = 0"
    "tbl_bloom (ls_table st) = None \<longleftrightarrow> lf_noBloom fl" "ls_rowsRead st = 0" "ls_parseErrors st = 0"
    "ls_warningsEmit st = 0" "ls_stderr st = flag_warnings fl" "parseSchemaSpec (lf_schema fl) = Ok cols"
proof -
  from assms(1) obtain f src where st:
    "st = \<lparr>ls_source = src, ls_table = ls_table st, ls_row = replicate (length cols) VNil, ls_rowsRead = 0,
       ls_parseErrors = 0, ls_warningsEmit = 0, ls_stderr = flag_warnings fl\<rparr>"
    "read_header f cols = Ok (src, csvIdx)" "prepare_table (le_platform env) fl = Ok (cols, ls_table st)"
    by (auto simp: start_load_def split: option.splits)
  from st(3) have cols: "parseSchemaSpec (lf_schema fl) = Ok cols"
    and create: "CreateTable (le_platform env) (load_schema fl cols) (load_options fl) = Ok (ls_table st)"
    by (auto simp: prepare_table_def split: if_splits)
  have opts: "opt_BloomDisabled (load_options fl) = lf_noBloom fl" "opt_BloomTargetFPR (load_options fl) = lf_targetFPR fl"
    by (simp_all add: load_options_def)
  have "\<not> opt_BloomDisabled (load_options fl) \<Longrightarrow>
      \<not> f_is_nan (math_log (le_platform env) (opt_BloomTargetFPR (load_options fl)))"
    using assms(2) opts by simp
  note t = CreateTable_wf [OF create this]
  have fields: "ls_source st = src" "ls_row st = replicate (length cols) VNil" "ls_rowsRead st = 0" "ls_parseErrors st = 0"
    "ls_warningsEmit st = 0" "ls_stderr st = flag_warnings fl"
    by (subst st(1), simp)+
  show "load_ready cols csvIdx st"
    using t(1) read_header_Ok(1) [OF st(2)] fields by (simp add: load_ready_def)
  show "tbl_schema (ls_table st) = load_schema fl cols" "buffer_rows (tbl_buf (ls_table st)) = []"
    "tbl_accepted (ls_table st) = 0" "tbl_rejected (ls_table st) = 0"
    "tbl_bloom (ls_table st) = None \<longleftrightarrow> lf_noBloom fl" "ls_rowsRead st = 0" "ls_parseErrors st = 0"
    "ls_warningsEmit st = 0" "ls_stderr st = flag_warnings fl" "parseSchemaSpec (lf_schema fl) = Ok cols"
    using t(2-6) opts fields cols by simp_all
qed

lemma length_csv_records:
  "length (csv_records src) = length (parsed_rows cols csvIdx src) + bad_reads cols csvIdx src"
proof -
  have "length xs = length (List.map_filter f xs) + length (filter (\<lambda>x. f x = None) xs)" for f :: "'x \<Rightarrow> 'y option" and xs
    by (induction xs) (auto simp: map_filter_simps split: option.split)
  then show ?thesis by (simp add: parsed_rows_def bad_reads_def)
qed

text \<open>The outcome of the loop of a fresh load.\<close>

lemma load_loop_fresh:
  assumes "start_load env fl = Ok (cols, csvIdx, st)"
    and "lf_noBloom fl \<or> \<not> f_is_nan (math_log (le_platform env) (lf_targetFPR fl))"
    and "\<not> cs_fails (ls_source st)"
  obtains st' results where "load_loop cols csvIdx st = Some (Ok st')"
    "insert_all (ls_table st) (parsed_rows cols csvIdx (ls_source st)) = Ok (ls_table st', results)"
    "wf_table (ls_table st')" "tbl_schema (ls_table st') = load_schema fl cols"
    "buffer_rows (tbl_buf (ls_table st')) = accepted_rows (parsed_rows cols csvIdx (ls_source st)) results"
    "ls_rowsRead st' = of_nat (length (csv_records (ls_source st)))"
    "ls_parseErrors st' = of_nat (bad_reads cols csvIdx (ls_source st))"
    "tbl_accepted (ls_table st') + tbl_rejected (ls_table st') = of_nat (length (parsed_rows cols csvIdx (ls_source st)))"
    "tbl_accepted (ls_table st') = of_nat (length (accepted_rows (parsed_rows cols csvIdx (ls_source st)) results))"
    "length (ls_stderr st') = length (flag_warnings fl) + min maxLoadWarnings (bad_reads cols csvIdx (ls_source st))"
    "ls_warningsEmit st' = min maxLoadWarnings (bad_reads cols csvIdx (ls_source st))"
proof -
  let ?rows = "parsed_rows cols csvIdx (ls_source st)"
  note s = start_load_ready [OF assms(1,2)]
  from load_loop_reads [OF s(1) assms(3)] s(7-10) obtain st' results where l:
    "load_loop cols csvIdx st = Some (Ok st')" "insert_all (ls_table st) ?rows = Ok (ls_table st', results)"
    "ls_rowsRead st' = of_nat (length (csv_records (ls_source st)))"
    "ls_parseErrors st' = of_nat (bad_reads cols csvIdx (ls_source st))"
    "ls_warningsEmit st' = min maxLoadWarnings (bad_reads cols csvIdx (ls_source st))"
    "length (ls_stderr st') = length (flag_warnings fl) + ls_warningsEmit st'"
    by auto
  have wf: "wf_table (ls_table st)" using s(1) by (simp add: load_ready_def)
  from insert_all_ex [OF wf, of ?rows] l(2) s(2-5) have t:
    "wf_table (ls_table st')" "same_shape (ls_table st) (ls_table st')"
    "buffer_rows (tbl_buf (ls_table st')) = accepted_rows ?rows results"
    "tbl_accepted (ls_table st') = of_nat (length (accepted_rows ?rows results))"
    "tbl_rejected (ls_table st') = of_nat (length ?rows - length (accepted_rows ?rows results))"
    by auto
  then have "tbl_accepted (ls_table st') + tbl_rejected (ls_table st') = of_nat (length ?rows)"
    using length_accepted_rows [of ?rows results] by (simp flip: of_nat_add)
  with that l t s(2) show ?thesis by (simp add: same_shape_def)
qed

lemma group_digits_total [simp]: "\<exists>s. commaSepUint64 n = Ok s" "\<exists>s. commaSepInt64 n = Ok s"
  by (simp_all add: commaSepInt64_def commaSepUint64_group_digits)

lemma printLoadSummary_total: "\<exists>out. printLoadSummary toInt64 s = Ok out"
proof -
  have "\<exists>t. throughput_text toInt64 s = Ok t"
    using group_digits_total(2) by (auto simp: throughput_text_def Let_def)
  then show ?thesis
    using group_digits_total(1) by (fastforce simp: printLoadSummary_def commaSepUint64_group_digits)
qed

section \<open>Properties\<close>

text \<open>
  C37: the schema specification. \<open>parseSchemaSpec\<close> never panics; what it accepts is a non-empty list of
  columns with distinct, non-empty names and supported types, which with any of its names as primary key is
  a valid schema; and the text of every such list with plain names is accepted and read back.
\<close>

theorem parseSchemaSpec_correct:
  "(case parseSchemaSpec spec of
      Ok cols \<Rightarrow> cols \<noteq> [] \<and> distinct (map spec_name cols) \<and> [] \<notin> set (map spec_name cols) \<and>
        set (map spec_typ cols) \<subseteq> {Int64, Float64, String} \<and>
        (lf_pk fl \<in> set (map spec_name cols) \<longrightarrow> Validate (load_schema fl cols) = Ok ())
    | Err e \<Rightarrow> True
    | Panic p \<Rightarrow> False) \<and>
   (cs \<noteq> [] \<longrightarrow> distinct (map spec_name cs) \<longrightarrow>
    (\<forall>c \<in> set cs. plain_name (spec_name c) \<and> spec_typ c \<in> {Int64, Float64, String}) \<longrightarrow>
    parseSchemaSpec (spec_text cs) = Ok cs)"
proof (intro conjI impI)
  show "case parseSchemaSpec spec of
      Ok cols \<Rightarrow> cols \<noteq> [] \<and> distinct (map spec_name cols) \<and> [] \<notin> set (map spec_name cols) \<and>
        set (map spec_typ cols) \<subseteq> {Int64, Float64, String} \<and>
        (lf_pk fl \<in> set (map spec_name cols) \<longrightarrow> Validate (load_schema fl cols) = Ok ())
    | Err e \<Rightarrow> True | Panic p \<Rightarrow> False"
  proof (cases "parseSchemaSpec spec")
    case (Ok cols)
    with parseSchemaSpec_Ok [OF Ok] show ?thesis
      by (auto simp: Validate_Ok_iff load_schema_columns) (auto simp: load_schema_def)
  next
    case (Panic p)
    then show ?thesis by (auto simp: parseSchemaSpec_def parse_specs_no_panic split: if_splits)
  qed simp
  show "parseSchemaSpec (spec_text cs) = Ok cs"
    if "cs \<noteq> []" "distinct (map spec_name cs)"
      "\<forall>c \<in> set cs. plain_name (spec_name c) \<and> spec_typ c \<in> {Int64, Float64, String}"
    using parse_specs_text [OF that(1,3,2), of "{}" 0] spec_text_nonempty [OF that(1)]
    by (simp add: parseSchemaSpec_def)
qed

text \<open>
  C15: \<open>load\<close> is the insertion, in order, of the rows that parse. On a source that reaches its end the loop
  returns without panic; the buffer holds the accepted rows; every record is accepted, rejected or counted as a
  parse error; and at most ten warnings are written.
\<close>

theorem load_inserts_parsed_rows:
  assumes "start_load env fl = Ok (cols, csvIdx, st)"
    and "lf_noBloom fl \<or> \<not> f_is_nan (math_log (le_platform env) (lf_targetFPR fl))"
    and "\<not> cs_fails (ls_source st)"
  shows "\<exists>st' results. load_loop cols csvIdx st = Some (Ok st') \<and>
    insert_all (ls_table st) (parsed_rows cols csvIdx (ls_source st)) = Ok (ls_table st', results) \<and>
    buffer_rows (tbl_buf (ls_table st')) = accepted_rows (parsed_rows cols csvIdx (ls_source st)) results \<and>
    ls_rowsRead st' = of_nat (length (csv_records (ls_source st))) \<and>
    ls_parseErrors st' = of_nat (bad_reads cols csvIdx (ls_source st)) \<and>
    ls_rowsRead st' = tbl_accepted (ls_table st') + tbl_rejected (ls_table st') + ls_parseErrors st' \<and>
    length (ls_stderr st') = length (flag_warnings fl) + min 10 (bad_reads cols csvIdx (ls_source st))"
  using assms
proof (rule load_loop_fresh)
  fix st' results
  assume "load_loop cols csvIdx st = Some (Ok st')"
    "insert_all (ls_table st) (parsed_rows cols csvIdx (ls_source st)) = Ok (ls_table st', results)"
    "buffer_rows (tbl_buf (ls_table st')) = accepted_rows (parsed_rows cols csvIdx (ls_source st)) results"
    "ls_rowsRead st' = of_nat (length (csv_records (ls_source st)))"
    "ls_parseErrors st' = of_nat (bad_reads cols csvIdx (ls_source st))"
    "tbl_accepted (ls_table st') + tbl_rejected (ls_table st') = of_nat (length (parsed_rows cols csvIdx (ls_source st)))"
    "length (ls_stderr st') = length (flag_warnings fl) + min maxLoadWarnings (bad_reads cols csvIdx (ls_source st))"
  then show ?thesis
    using length_csv_records [of "ls_source st" cols csvIdx]
    by (intro exI [of _ st'] exI [of _ results]) (simp add: maxLoadWarnings_def)
qed

text \<open>
  C16: \<open>load\<close> returns exactly when its input ends. A read error that persists is reported by every further
  \<open>Read\<close>; the loop counts it as one more row with a parse error and continues for ever.
\<close>

theorem runLoad_hangs_iff:
  assumes "lf_noBloom fl \<or> \<not> f_is_nan (math_log (le_platform env) (lf_targetFPR fl))"
  shows "runLoad env (Some fl) = None \<longleftrightarrow>
    lf_csv fl \<noteq> [] \<and> lf_out fl \<noteq> [] \<and> lf_pk fl \<noteq> [] \<and> lf_schema fl \<noteq> [] \<and>
    (\<exists>cols csvIdx st. start_load env fl = Ok (cols, csvIdx, st) \<and> cs_fails (ls_source st))"
proof (cases "start_load env fl")
  case (Ok x)
  then obtain cols csvIdx st where s: "start_load env fl = Ok (cols, csvIdx, st)" by (cases x) auto
  show ?thesis
  proof (cases "cs_fails (ls_source st)")
    case True
    with load_loop_fails [OF start_load_ready(1) [OF s assms]] s show ?thesis
      by (auto simp: runLoad_def)
  next
    case False
    from s assms False obtain st' where "load_loop cols csvIdx st = Some (Ok st')" by (rule load_loop_fresh)
    with s False show ?thesis by (auto simp: runLoad_def)
  qed
qed (auto simp: runLoad_def)

section \<open>A concrete load\<close>

definition example_flags :: load_flags where
  "example_flags =
     \<lparr>lf_csv = ''in'', lf_out = ''out'', lf_pk = ''id'', lf_schema = ''id:int64,name:string'',
      lf_expectedItems = 1, lf_targetFPR = float_half, lf_noBloom = False\<rparr>"

definition example_csv :: csv_source where
  "example_csv = \<lparr>cs_text = ''name,id'' @ [newline] @ ''x,1'' @ [newline] @ ''y,q'' @ [newline], cs_fails = False\<rparr>"

definition example_env :: "csv_source \<Rightarrow> byte list load_env" where
  "example_env src =
     \<lparr>le_platform = example_platform, le_open = (\<lambda>_. Some src), le_create = (\<lambda>_. Some []),
      le_write = buffer_write, le_close = (\<lambda>_. True), le_stat = (\<lambda>w. Some (of_nat (length w))),
      le_elapsed = 1000, le_toInt64 = (\<lambda>_. 0)\<rparr>"

definition example_cols :: "col_spec list" where
  "example_cols = [\<lparr>spec_name = ''id'', spec_typ = Int64\<rparr>, \<lparr>spec_name = ''name'', spec_typ = String\<rparr>]"

lemmas csv_eval =
  csv_Read_def readLine_def next_line.simps csv_fields.simps csv_quoted.simps lengthNL_def normalize_line_def
  status_error_def

lemma TrimSpace_examples [simp]:
  "TrimSpace ''id'' = ''id''" "TrimSpace ''name'' = ''name''"
  by (rule trim_ascii_ends; simp add: ascii_space_def)+

lemma plain_examples: "plain_name ''id''" "plain_name ''name''"
  by (simp_all add: plain_name_def)

lemma parse_example_schema: "parseSchemaSpec ''id:int64,name:string'' = Ok example_cols"
proof -
  have "spec_text example_cols = ''id:int64,name:string''"
    by (simp add: example_cols_def spec_item_def)
  with parse_specs_text [of example_cols "{}" 0] plain_examples show ?thesis
    by (simp add: parseSchemaSpec_def example_cols_def)
qed

lemma load_schema_example: "load_schema example_flags example_cols = example_schema"
  by (simp add: load_schema_def example_flags_def example_cols_def example_schema_def)

definition example_start :: load_state where
  "example_start =
     \<lparr>ls_source = \<lparr>cs_text = ''x,1'' @ [newline] @ ''y,q'' @ [newline], cs_fails = False\<rparr>,
      ls_table = example_table, ls_row = [VNil, VNil], ls_rowsRead = 0, ls_parseErrors = 0, ls_warningsEmit = 0,
      ls_stderr = [SmallFilter 1]\<rparr>"

lemma read_header_example:
  "read_header example_csv example_cols =
     Ok (\<lparr>cs_text = ''x,1'' @ [newline] @ ''y,q'' @ [newline], cs_fails = False\<rparr>, [1, 0])"
  by (simp add: read_header_def example_csv_def example_cols_def csv_eval)

lemma start_load_example:
  "start_load (example_env example_csv) example_flags = Ok (example_cols, [1, 0], example_start)"
proof -
  have "prepare_table example_platform example_flags = Ok (example_cols, example_table)"
  proof -
    have "load_options example_flags = example_table_opts" "lf_pk example_flags \<in> set (map spec_name example_cols)"
      "lf_schema example_flags = ''id:int64,name:string''"
      by (simp_all add: load_options_def example_flags_def example_table_opts_def example_cols_def)
    then show ?thesis
      by (simp add: prepare_table_def parse_example_schema load_schema_example CreateTable_example)
  qed
  moreover have "flag_warnings example_flags = [SmallFilter 1]" "length example_cols = 2"
    by (simp_all add: flag_warnings_def example_flags_def example_cols_def)
  ultimately show ?thesis
    using read_header_example
    by (simp add: start_load_def example_env_def example_start_def numeral_2_eq_2)
qed

lemma records_example:
  "csv_records (ls_source example_start) = [Ok [''x'', ''1''], Ok [''y'', ''q'']]"
  by (simp add: example_start_def csv_records.simps csv_eval)

lemma rows_example:
  "parsed_rows example_cols [1, 0] (ls_source example_start) = [[VInt64 1, VString ''x'']]"
  "bad_reads example_cols [1, 0] (ls_source example_start) = 1"
  by (simp_all add: parsed_rows_def bad_reads_def records_example row_of_read_def row_of_record_def field_value_def
      example_cols_def parseFieldByType_def parse_int_def parse_uint_def is_digit_char_def digit_val_def map_filter_simps)

theorem load_inserts_parsed_rows_witness:
  "\<exists>st' results. load_loop example_cols [1, 0] example_start = Some (Ok st') \<and>
     buffer_rows (tbl_buf (ls_table st')) = accepted_rows [[VInt64 1, VString ''x'']] results \<and>
     ls_rowsRead st' = 2 \<and> ls_parseErrors st' = 1"
proof -
  have "lf_noBloom example_flags \<or> \<not> f_is_nan (math_log (le_platform (example_env example_csv)) (lf_targetFPR example_flags))"
    "\<not> cs_fails (ls_source example_start)"
    by (simp_all add: example_flags_def example_env_def example_log_not_nan example_start_def)
  from load_inserts_parsed_rows [OF start_load_example this] show ?thesis
    unfolding rows_example records_example by auto
qed

theorem parseSchemaSpec_correct_witness:
  "parseSchemaSpec (spec_text example_cols) = Ok example_cols"
  using parseSchemaSpec_correct [THEN conjunct2, of example_cols] plain_examples
  by (simp add: example_cols_def)

theorem runLoad_hangs_iff_witness:
  "runLoad (example_env (example_csv\<lparr>cs_fails := True\<rparr>)) (Some example_flags) = None"
proof -
  have "start_load (example_env (example_csv\<lparr>cs_fails := True\<rparr>)) example_flags =
      Ok (example_cols, [1, 0], example_start\<lparr>ls_source := \<lparr>cs_text = ''x,1'' @ [newline] @ ''y,q'' @ [newline], cs_fails = True\<rparr>\<rparr>)"
  proof -
    have "read_header (example_csv\<lparr>cs_fails := True\<rparr>) example_cols =
       Ok (\<lparr>cs_text = ''x,1'' @ [newline] @ ''y,q'' @ [newline], cs_fails = True\<rparr>, [1, 0])"
      by (simp add: read_header_def example_csv_def example_cols_def csv_eval)
    with start_load_example show ?thesis
      by (auto simp: start_load_def example_env_def read_header_example example_start_def)
  qed
  then show ?thesis
    using runLoad_hangs_iff [of example_flags "example_env (example_csv\<lparr>cs_fails := True\<rparr>)"]
    by (auto simp: example_flags_def example_env_def example_log_not_nan)
qed

end
