(* ===== verification/QueryFacts.thy ===== *)
theory QueryFacts
  imports GroupFacts Sessions
begin

text \<open>
  \<open>Execute\<close> against the reference semantics of a query over the rows of its segment, and the
  properties that follow for the aggregates, the groups and the files the write path produces.
\<close>

section \<open>The reference semantics\<close>

definition check_where :: "schema \<Rightarrow> query \<Rightarrow> (query_error, unit) outcome" where
  "check_where sc q = (case q_Where q of None \<Rightarrow> Ok () | Some e \<Rightarrow> check_comparisons sc (leaves e))"

definition selected_rows :: "schema \<Rightarrow> query \<Rightarrow> row list \<Rightarrow> row list" where
  "selected_rows sc q rs =
     filter (\<lambda>r. case q_Where q of None \<Rightarrow> True | Some e \<Rightarrow> where_holds sc e r) rs"

definition select_outcome :: "schema \<Rightarrow> query \<Rightarrow> row list \<Rightarrow> (query_error, result) outcome" where
  "select_outcome sc q rows =
     (case q_Projection q of
        ProjCountStar \<Rightarrow>
          Ok \<lparr>res_Columns = [''COUNT(*)''], res_Rows = [[VUint64 (of_nat (length rows))]], res_isAggregate = True\<rparr>
      | ProjSumColumn \<Rightarrow>
          bind_ok (sum_outcome sc (q_SumColumn q) rows) (\<lambda>v.
            Ok \<lparr>res_Columns = [sum_header (q_SumColumn q)], res_Rows = [[v]], res_isAggregate = True\<rparr>)
      | ProjGrouped \<Rightarrow>
          bind_ok (check_grouped sc q) (\<lambda>_. bind_ok (group_outcome sc q rows) (\<lambda>rows.
            Ok \<lparr>res_Columns = grouped_header q, res_Rows = rows, res_isAggregate = False\<rparr>))
      | OtherProjection i \<Rightarrow> Err (QUnknownProjection i)
      | _ \<Rightarrow>
          let cols = projection_columns sc q
          in Ok \<lparr>res_Columns = cols, res_Rows = map (\<lambda>r. map (\<lambda>n. cell sc n r) cols) rows,
                 res_isAggregate = False\<rparr>)"

definition query_outcome :: "schema \<Rightarrow> query \<Rightarrow> row list \<Rightarrow> (query_error, result) outcome" where
  "query_outcome sc q rs =
     bind_ok (check_projection sc (projection_columns sc q)) (\<lambda>_.
     bind_ok (check_where sc q) (\<lambda>_.
       select_outcome sc q (selected_rows sc q rs)))"

lemma check_projection_Ok_iff: "check_projection sc ns = Ok u \<longleftrightarrow> (\<forall>n \<in> set ns. ColumnIndex sc n \<noteq> None)"
  by (induction ns) auto

lemma answers_where:
  assumes "presents s rs" "seg_schema s = sc" "\<forall>e. q_Where q = Some e \<longrightarrow> wf_where e"
  shows "\<exists>selection filtered.
    answers sc rs (case q_Where q of
        None \<Rightarrow> (s, Ok ([], False))
      | Some e \<Rightarrow> and_then (evaluate sc e s) (\<lambda>sel s. (s, Ok (sel, True))))
      (bind_ok (check_where sc q) (\<lambda>_. Ok (selection, filtered))) \<and>
    selects selection filtered (\<lambda>r. case q_Where q of None \<Rightarrow> True | Some e \<Rightarrow> where_holds sc e r) rs"
proof (cases "q_Where q")
  case None
  then show ?thesis
    using answers_pure [OF assms(1,2)] by (auto simp: check_where_def selects_def)
next
  case (Some e)
  have "answers sc rs (and_then (evaluate sc e s) (\<lambda>sel s. (s, Ok (sel, True))))
      (bind_ok (bind_ok (check_comparisons sc (leaves e)) (\<lambda>_. Ok (map (where_holds sc e) rs))) (\<lambda>sel. Ok (sel, True)))"
    using assms Some wf_where_walkable by (intro answers_and_then answers_evaluate answers_pure) auto
  then show ?thesis
    using Some by (intro exI [of _ "map (where_holds sc e) rs"] exI [of _ True])
      (simp add: check_where_def bind_ok_assoc selects_def)
qed

lemma answers_Execute:
  assumes "presents s rs" "seg_schema s = sc" "wf_query q"
  shows "answers sc rs (Execute s q) (query_outcome sc q rs)"
proof -
  let ?p = "\<lambda>r. case q_Where q of None \<Rightarrow> True | Some e \<Rightarrow> where_holds sc e r"
  have dispatch: "answers sc rs
      (case q_Projection q of
         ProjCountStar \<Rightarrow> (s2, Ok (execCount s2 selection filtered))
       | ProjSumColumn \<Rightarrow> execSum (q_SumColumn q) sc selection filtered s2
       | ProjColumns \<Rightarrow> execProject (projection_columns sc q) selection filtered s2
       | ProjStar \<Rightarrow> execProject (projection_columns sc q) selection filtered s2
       | ProjGrouped \<Rightarrow> execGrouped sc q selection filtered s2
       | OtherProjection i \<Rightarrow> (s2, Err (QUnknownProjection i)))
      (select_outcome sc q (selected_rows sc q rs))"
    if "presents s2 rs" "seg_schema s2 = sc" "selects selection filtered ?p rs"
      "check_projection sc (projection_columns sc q) = Ok ()" for s2 selection filtered
  proof (cases "q_Projection q")
    case ProjSumColumn
    with that(4) obtain idx where "ColumnIndex sc (q_SumColumn q) = Some idx"
      by (auto simp: projection_columns_def split: if_splits)
    with answers_execSum [OF that(1,2,3)] ProjSumColumn show ?thesis
      by (simp add: select_outcome_def selected_rows_def)
  next
    case ProjCountStar
    then show ?thesis
      using execCount_spec [OF that(1,3)] answers_pure [OF that(1,2)]
      by (simp add: select_outcome_def selected_rows_def)
  next
    case ProjGrouped
    have "\<forall>i. q_GroupAgg q \<noteq> OtherAggregate i" using assms(3) by (simp add: wf_query_def)
    from answers_execGrouped [OF that(1,2,3) this] ProjGrouped show ?thesis
      by (simp add: select_outcome_def selected_rows_def)
  next
    case (OtherProjection i)
    with assms(3) show ?thesis by (simp add: wf_query_def)
  qed (use answers_execProject [OF that(1,2,3)] that(4) in
      \<open>simp_all add: check_projection_Ok_iff select_outcome_def selected_rows_def Let_def\<close>)
  show ?thesis
    unfolding Execute_def query_outcome_def Let_def assms(2)
  proof (rule answers_and_then [OF answers_pure [OF assms(1,2)]])
    fix u s1
    assume ok: "check_projection sc (projection_columns sc q) = Ok u" and s1: "presents s1 rs" "seg_schema s1 = sc"
    have "\<forall>e. q_Where q = Some e \<longrightarrow> wf_where e" using assms(3) by (simp add: wf_query_def)
    from answers_where [OF s1 this] obtain selection filtered where
      w: "answers sc rs (case q_Where q of
          None \<Rightarrow> (s1, Ok ([], False))
        | Some e \<Rightarrow> and_then (evaluate sc e s1) (\<lambda>sel s. (s, Ok (sel, True))))
        (bind_ok (check_where sc q) (\<lambda>_. Ok (selection, filtered)))"
      and sel: "selects selection filtered ?p rs"
      by blast
    let ?k = "\<lambda>(selection, filtered) s. case q_Projection q of
         ProjCountStar \<Rightarrow> (s, Ok (execCount s selection filtered))
       | ProjSumColumn \<Rightarrow> execSum (q_SumColumn q) sc selection filtered s
       | ProjColumns \<Rightarrow> execProject (projection_columns sc q) selection filtered s
       | ProjStar \<Rightarrow> execProject (projection_columns sc q) selection filtered s
       | ProjGrouped \<Rightarrow> execGrouped sc q selection filtered s
       | OtherProjection i \<Rightarrow> (s, Err (QUnknownProjection i))"
    have "answers sc rs (and_then (case q_Where q of
          None \<Rightarrow> (s1, Ok ([], False))
        | Some e \<Rightarrow> and_then (evaluate sc e s1) (\<lambda>sel s. (s, Ok (sel, True)))) ?k)
        (bind_ok (bind_ok (check_where sc q) (\<lambda>_. Ok (selection, filtered)))
          (\<lambda>_. select_outcome sc q (selected_rows sc q rs)))"
      by (rule answers_and_then [OF w]) (use dispatch [OF _ _ sel] ok in \<open>auto\<close>)
    then show "answers sc rs (and_then (case q_Where q of
          None \<Rightarrow> (s1, Ok ([], False))
        | Some e \<Rightarrow> and_then (evaluate sc e s1) (\<lambda>sel s. (s, Ok (sel, True)))) ?k)
        (bind_ok (check_where sc q) (\<lambda>_. select_outcome sc q (selected_rows sc q rs)))"
      by (simp add: bind_ok_assoc)
  qed
qed

section \<open>Which segments present which rows\<close>

lemma column_cells_buffer:
  "known_type t \<Longrightarrow> column_cells (buffer_column buf t j) = column_values buf t j"
  by (cases t) (auto simp: buffer_column_def column_values_def known_type_def)

lemma buffer_column_type: "known_type t \<Longrightarrow> column_data_type (buffer_column buf t j) = t"
  by (cases t) (auto simp: buffer_column_def known_type_def)

lemma column_of_buffer_rows:
  assumes "wf_buffer buf" "j < length (schema_columns (wb_schema buf))"
  shows "column_values buf (col_type (schema_columns (wb_schema buf) ! j)) j = map (\<lambda>r. r ! j) (buffer_rows buf)"
proof -
  let ?col = "column_values buf (col_type (schema_columns (wb_schema buf) ! j)) j"
  have col: "buffer_columns buf ! j = ?col" "?col \<in> set (buffer_columns buf)"
    using assms(2) by (auto simp: buffer_columns_def)
  then have len: "length ?col = wb_rows buf" using assms(1) by (simp add: wf_buffer_def)
  have "j < length (buffer_columns buf)" using assms(2) by (simp add: buffer_columns_def)
  then have "map (\<lambda>r. r ! j) (buffer_rows buf) = map (\<lambda>i. ?col ! i) [0..<wb_rows buf]"
    using col(1) by (simp add: buffer_rows_def rows_of_columns_def comp_def)
  also have "\<dots> = ?col" using map_nth [of ?col] len by simp
  finally show ?thesis by simp
qed

text \<open>A written buffer presents its rows.\<close>

lemma presents_written:
  assumes "writable schema buf opts" "parseSegment (segment_bytes schema buf opts) = Ok s"
    and "24 * int (wb_rows buf) \<le> max_alloc"
  shows "presents s (buffer_rows buf)"
proof -
  have w: "wb_schema buf = schema" "wf_buffer buf" "known_types (schema_columns schema)"
    using assms(1) by (simp_all add: writable_def)
  have s: "seg_schema s = schema\<lparr>schema_pk := opt_PKName opts\<rparr>" "seg_rowCount s = of_nat (wb_rows buf)"
    using parseSegment_segment_bytes [OF assms(1)] assms(2) by auto
  have "wb_rows buf < 2 ^ 63" using assms(3) by (simp add: max_alloc_def)
  then have rows: "int_of_uint64 (seg_rowCount s) = int (wb_rows buf)"
    using s(2) int_of_uint64_of_nat by simp
  have "\<exists>d. decode_column s n = Ok d \<and> column_cells d = map (\<lambda>r. r ! idx) (buffer_rows buf) \<and>
      column_data_type d = col_type (schema_columns (seg_schema s) ! idx)"
    if "ColumnIndex (seg_schema s) n = Some idx" for n idx
  proof -
    from that have idx: "idx < length (schema_columns schema)" "col_name (schema_columns schema ! idx) = n"
      by (auto simp: ColumnIndex_Some_iff s(1))
    then have t: "known_type (col_type (schema_columns schema ! idx))"
      using w(3) nth_mem [OF idx(1)] unfolding known_types_def known_type_def by blast
    show ?thesis
      using decode_column_written [OF assms(1,2) idx(1)] idx t column_of_buffer_rows [OF w(2)] w(1)
      by (simp add: column_cells_buffer buffer_column_type s(1))
  qed
  then show ?thesis
    using parseSegment_wf(1) [OF assms(2)] rows assms(3) by (simp add: presents_def wf_segment_def)
qed

text \<open>Any parsed file whose columns decode presents the rows they spell.\<close>

definition segment_rows :: "segment \<Rightarrow> row list" where
  "segment_rows s =
     map (\<lambda>i. map (\<lambda>c. column_cells (the_ok (decode_column s (col_name c))) ! i) (schema_columns (seg_schema s)))
       [0..<nat (int_of_uint64 (seg_rowCount s))]"

lemma presents_parsed:
  assumes "parseSegment data = Ok s" "0 \<le> int_of_uint64 (seg_rowCount s)"
    and "24 * int_of_uint64 (seg_rowCount s) \<le> max_alloc"
    and "\<forall>c \<in> set (schema_columns (seg_schema s)). \<exists>d. decode_column s (col_name c) = Ok d"
  shows "presents s (segment_rows s)"
proof -
  have "\<exists>d. decode_column s n = Ok d \<and> column_cells d = map (\<lambda>r. r ! idx) (segment_rows s) \<and>
      column_data_type d = col_type (schema_columns (seg_schema s) ! idx)"
    if idx: "ColumnIndex (seg_schema s) n = Some idx" for n idx
  proof -
    from idx have c: "idx < length (schema_columns (seg_schema s))" "col_name (schema_columns (seg_schema s) ! idx) = n"
      by (auto simp: ColumnIndex_Some_iff)
    with assms(4) obtain d where d: "decode_column s n = Ok d" by (metis nth_mem)
    from decode_column_Ok [OF d] idx have t: "column_data_type d = col_type (schema_columns (seg_schema s) ! idx)"
        "int (column_length d) = int_of_uint64 (seg_rowCount s)"
      by auto
    have n: "nat (int_of_uint64 (seg_rowCount s)) = column_length d"
      using t(2) by (metis nat_int)
    have "map (\<lambda>r. r ! idx) (segment_rows s) = map (\<lambda>i. column_cells d ! i) [0..<column_length d]"
      using c d by (auto simp: segment_rows_def comp_def n)
    also have "\<dots> = column_cells d" using map_nth [of "column_cells d"] by simp
    finally show ?thesis using d t(1) by simp
  qed
  then show ?thesis
    using parseSegment_wf(1) [OF assms(1)] assms(2,3)
    by (simp add: presents_def wf_segment_def segment_rows_def)
qed

text \<open>Any parsed query on the flushed file of a table answers over the buffered rows.\<close>

lemma query_flushed:
  assumes "flushable t" "24 * int (length (buffer_rows (tbl_buf t))) \<le> max_alloc"
  shows "\<exists>s. parseSegment (flushed t) = Ok s \<and>
    (\<forall>input q. Parse input = Ok q \<longrightarrow>
       snd (Execute s q) = query_outcome (tbl_schema t) q (buffer_rows (tbl_buf t)))"
proof -
  obtain s where s: "parseSegment (flushed t) = Ok s" "seg_schema s = tbl_schema t"
    using assms(1) by (rule parse_flushed)
  have "24 * int (wb_rows (tbl_buf t)) \<le> max_alloc"
    using assms(2) length_buffer_rows [of "tbl_buf t"] by simp
  then have "presents s (buffer_rows (tbl_buf t))"
    using presents_written [OF assms(1) [unfolded flushable_def] s(1) [unfolded flushed_def]] by simp
  from answers_Execute [OF this refl Parse_wf_query] s show ?thesis
    by (auto simp: answers_def)
qed

section \<open>Examples\<close>

text \<open>A segment with the single row \<open>(1, 'x')\<close>, and three queries.\<close>

lemma example_presents:
  obtains s where "parseSegment (segment_bytes example_schema example_buffer example_opts) = Ok s"
    "seg_schema s = example_schema\<lparr>schema_pk := opt_PKName example_opts\<rparr>"
    "presents s [[VInt64 1, VString ''x'']]"
proof -
  from parseSegment_segment_bytes [OF writable_example] obtain s where
    s: "parseSegment (segment_bytes example_schema example_buffer example_opts) = Ok s"
      "seg_schema s = example_schema\<lparr>schema_pk := opt_PKName example_opts\<rparr>"
    by auto
  have "buffer_rows example_buffer = [[VInt64 1, VString ''x'']]"
    by (simp add: buffer_rows_def rows_of_columns_def buffer_columns_def column_values_def example_defs slice_at_def)
  with presents_written [OF writable_example s(1)] s that show ?thesis
    by (simp add: example_buffer_def max_alloc_def)
qed

definition example_select :: query where
  "example_select = empty_query\<lparr>q_Columns := [''name''],
     q_Where := Some (leaf \<lparr>cmp_Column = ''id'', cmp_Op = OpGte, cmp_Value = VInt64 1, cmp_Pos = 18\<rparr>)\<rparr>"

lemma parse_example_select: "Parse ''SELECT name WHERE id >= 1'' = Ok example_select"
proof -
  have "lex ''SELECT name WHERE id >= 1'' = Ok [tok TkKeyword ''SELECT'' 0, tok TkIdent ''name'' 7,
      tok TkKeyword ''WHERE'' 12, tok TkIdent ''id'' 18, tok TkOp ''>='' 21, tok TkInt ''1'' 24, tok TkEOF [] 25]"
    by (simp add: lex_eval)
  then show ?thesis by (simp add: parse_eval example_select_def)
qed

definition example_sum :: query where
  "example_sum = empty_query\<lparr>q_Projection := ProjSumColumn, q_SumColumn := ''id''\<rparr>"

lemma parse_example_sum: "Parse ''SELECT SUM(id)'' = Ok example_sum"
proof -
  have "lex ''SELECT SUM(id)'' = Ok [tok TkKeyword ''SELECT'' 0, tok TkKeyword ''SUM'' 7,
      tok TkLParen ''('' 10, tok TkIdent ''id'' 11, tok TkRParen '')'' 13, tok TkEOF [] 14]"
    by (simp add: lex_eval)
  then show ?thesis by (simp add: parse_eval example_sum_def)
qed

definition example_group :: query where
  "example_group = empty_query\<lparr>q_Projection := ProjGrouped, q_Columns := [''name''], q_GroupBy := ''name''\<rparr>"

lemma parse_example_group: "Parse ''SELECT name, COUNT(*) GROUP BY name'' = Ok example_group"
proof -
  have "lex ''SELECT name, COUNT(*) GROUP BY name'' = Ok [tok TkKeyword ''SELECT'' 0, tok TkIdent ''name'' 7,
      tok TkComma '','' 11, tok TkKeyword ''COUNT'' 13, tok TkLParen ''('' 18, tok TkStar ''*'' 19,
      tok TkRParen '')'' 20, tok TkKeyword ''GROUP'' 22, tok TkKeyword ''BY'' 28, tok TkIdent ''name'' 31,
      tok TkEOF [] 35]"
    by (simp add: lex_eval)
  then show ?thesis by (simp add: parse_eval example_group_def)
qed

lemmas query_eval =
  query_outcome_def check_where_def select_outcome_def selected_rows_def projection_columns_def
  check_comparison_def checkLiteralType_def where_holds_def comparison_holds_def cell_def
  ColumnIndex_def sum_outcome_def check_grouped_def group_outcome_def aggregate_value_def
  members_def discovered_def add_key_def grouped_header_def sum_header_def empty_query_def
  example_schema_def Let_def leaf_def

section \<open>Properties\<close>

text \<open>
  C3: the executor implements the reference semantics. On a segment that presents a list of rows, a
  well-formed query returns what the row-by-row reading of its clauses says, errors included: the
  unknown columns and the mistyped literals from left to right, the rows that satisfy the WHERE tree
  in their order, their count, their sum, their groups; the segment presents the same rows
  afterwards, whatever was cached.
\<close>

theorem queries_answer_over_rows:
  assumes "presents s rs" "wf_query q"
  shows "snd (Execute s q) = query_outcome (seg_schema s) q rs \<and>
    presents (fst (Execute s q)) rs \<and> seg_schema (fst (Execute s q)) = seg_schema s"
  using answers_Execute [OF assms(1) refl assms(2)] by (simp add: answers_def)

theorem queries_answer_over_rows_witness:
  "\<exists>s q. presents s [[VInt64 1, VString ''x'']] \<and> Parse ''SELECT name WHERE id >= 1'' = Ok q \<and>
     snd (Execute s q) =
       Ok \<lparr>res_Columns = [''name''], res_Rows = [[VString ''x'']], res_isAggregate = False\<rparr>"
proof -
  obtain s where s: "seg_schema s = example_schema\<lparr>schema_pk := opt_PKName example_opts\<rparr>"
    "presents s [[VInt64 1, VString ''x'']]"
    by (rule example_presents)
  have "query_outcome (seg_schema s) example_select [[VInt64 1, VString ''x'']] =
      Ok \<lparr>res_Columns = [''name''], res_Rows = [[VString ''x'']], res_isAggregate = False\<rparr>"
    by (simp add: s(1) query_eval example_select_def)
  with queries_answer_over_rows [OF s(2) Parse_wf_query [OF parse_example_select]]
  show ?thesis using s(2) parse_example_select by auto
qed

text \<open>
  C6: an integer SUM is exact or an error. When every partial sum of the selected cells, in row order,
  lies in the 64-bit range, the result is the mathematical sum; otherwise the query ends with the
  overflow error, never with a wrapped value.
\<close>

theorem sum_is_exact:
  assumes "presents s rs" "wf_query q" "q_Projection q = ProjSumColumn"
    and "ColumnIndex (seg_schema s) (q_SumColumn q) = Some idx"
    and "col_type (schema_columns (seg_schema s) ! idx) = Int64" "check_where (seg_schema s) q = Ok ()"
  shows "let xs = map sint (ints_at (seg_schema s) (q_SumColumn q) (selected_rows (seg_schema s) q rs))
    in if \<forall>k \<le> length xs. int64_range (sum_list (take k xs))
       then \<exists>w. snd (Execute s q) = Ok \<lparr>res_Columns = [''SUM('' @ q_SumColumn q @ '')''],
                  res_Rows = [[VInt64 w]], res_isAggregate = True\<rparr> \<and> sint w = sum_list xs
       else snd (Execute s q) = Err (QSumOverflow (q_SumColumn q))"
proof -
  let ?ws = "ints_at (seg_schema s) (q_SumColumn q) (selected_rows (seg_schema s) q rs)"
  have run: "snd (Execute s q) = (case add_all 0 ?ws of
      None \<Rightarrow> Err (QSumOverflow (q_SumColumn q))
    | Some w \<Rightarrow> Ok \<lparr>res_Columns = [''SUM('' @ q_SumColumn q @ '')''], res_Rows = [[VInt64 w]], res_isAggregate = True\<rparr>)"
    using answers_Execute [OF assms(1) refl assms(2)] assms(3-6)
    by (simp add: answers_def query_outcome_def projection_columns_def select_outcome_def sum_outcome_def
        sum_header_def split: option.split)
  have "add_all 0 ?ws \<noteq> None \<longleftrightarrow> (\<forall>k \<le> length ?ws. int64_range (sum_list (take k (map sint ?ws))))"
    unfolding add_all_spec by (simp add: take_map)
  moreover have "sint w = sum_list (map sint ?ws)" if "add_all 0 ?ws = Some w" for w
    using add_all_sint [OF that] by simp
  ultimately show ?thesis
    unfolding run Let_def by (cases "add_all 0 ?ws") (auto simp del: map_map)
qed

theorem sum_is_exact_witness:
  "\<exists>s q w. presents s [[VInt64 1, VString ''x'']] \<and> Parse ''SELECT SUM(id)'' = Ok q \<and>
     snd (Execute s q) = Ok \<lparr>res_Columns = [''SUM(id)''], res_Rows = [[VInt64 w]], res_isAggregate = True\<rparr> \<and>
     sint w = 1"
proof -
  obtain s where s: "seg_schema s = example_schema\<lparr>schema_pk := opt_PKName example_opts\<rparr>"
    "presents s [[VInt64 1, VString ''x'']]"
    by (rule example_presents)
  have q: "q_Projection example_sum = ProjSumColumn" "ColumnIndex (seg_schema s) (q_SumColumn example_sum) = Some 0"
    "col_type (schema_columns (seg_schema s) ! 0) = Int64" "check_where (seg_schema s) example_sum = Ok ()"
    by (simp_all add: s(1) query_eval example_sum_def)
  have "map sint (ints_at (seg_schema s) (q_SumColumn example_sum)
      (selected_rows (seg_schema s) example_sum [[VInt64 1, VString ''x'']])) = [1]"
    by (simp add: s(1) query_eval example_sum_def)
  moreover have "\<forall>k \<le> length [1 :: int]. int64_range (sum_list (take k [1]))"
    by (auto simp: int64_range_def take_Cons split: nat.split)
  ultimately show ?thesis
    using sum_is_exact [OF s(2) Parse_wf_query [OF parse_example_sum] q] s(2) parse_example_sum
    by (auto simp: Let_def example_sum_def)
qed

text \<open>Every selected row belongs to exactly one group.\<close>

lemma sum_list_indicator:
  assumes "\<exists>!i. i < length ks \<and> P (ks ! i)"
  shows "sum_list (map (\<lambda>k. if P k then 1 else 0 :: nat) ks) = 1"
proof -
  have "sum_list (map (\<lambda>k. if P k then 1 else 0 :: nat) ks) = length (filter P ks)"
    by (induction ks) auto
  also have "\<dots> = card {i. i < length ks \<and> P (ks ! i)}" by (rule length_filter_conv_card)
  also have "\<dots> = 1" using assms by (simp add: card_1_singleton_iff Ex1_def set_eq_iff) metis
  finally show ?thesis .
qed

lemma sum_list_members:
  assumes "\<forall>r \<in> set rows. \<exists>!i. i < length ks \<and> key_eq (ks ! i) (f r)"
  shows "sum_list (map (\<lambda>k. length (members f k rows)) ks) = length rows"
  using assms
proof (induction rows)
  case (Cons r rows)
  have "length (members f k (r # rows)) = (if key_eq k (f r) then 1 else 0) + length (members f k rows)" for k
    by (simp add: members_def)
  then have "sum_list (map (\<lambda>k. length (members f k (r # rows))) ks) =
      sum_list (map (\<lambda>k. if key_eq k (f r) then 1 else 0) ks) + sum_list (map (\<lambda>k. length (members f k rows)) ks)"
    by (simp add: sum_list_addf)
  with Cons sum_list_indicator [of ks "\<lambda>k. key_eq k (f r)"] show ?case by simp
qed (simp add: members_def)

text \<open>
  C8: the groups partition the selected rows. When a grouped query succeeds its rows are one per
  group, in the order in which the groups first occur, each with the aggregate of the group's rows;
  every group key is the key of a selected row, every selected row belongs to exactly one group, so
  the group sizes add up to the number of selected rows.
\<close>

theorem groups_partition_rows:
  assumes "presents s rs" "wf_query q" "q_Projection q = ProjGrouped" "snd (Execute s q) = Ok res"
  shows "let sc = seg_schema s; rows = selected_rows sc q rs; f = cell sc (q_GroupBy q); ks = discovered (map f rows)
    in res_Rows res = map (\<lambda>k. [k, the (aggregate_value sc q (members f k rows))]) ks \<and>
       set ks \<subseteq> f ` set rows \<and> (\<forall>r \<in> set rows. \<exists>!i. i < length ks \<and> key_eq (ks ! i) (f r)) \<and>
       sum_list (map (\<lambda>k. length (members f k rows)) ks) = length rows"
proof -
  let ?sc = "seg_schema s"
  let ?rows = "selected_rows ?sc q rs" and ?f = "cell ?sc (q_GroupBy q)"
  let ?ks = "discovered (map ?f ?rows)"
  have "query_outcome ?sc q rs = Ok res"
    using answers_Execute [OF assms(1) refl assms(2)] assms(4) by (simp add: answers_def)
  then obtain out where out: "group_outcome ?sc q ?rows = Ok out" "res_Rows res = out"
    using assms(3) by (auto simp: query_outcome_def select_outcome_def)
  then have rows: "out = map (\<lambda>k. [k, the (aggregate_value ?sc q (members ?f k ?rows))]) ?ks"
    and refl: "\<forall>r \<in> set ?rows. key_eq (?f r) (?f r)"
    by (auto simp: group_outcome_def Let_def split: option.splits if_splits)
  have sub: "set ?ks \<subseteq> ?f ` set ?rows" using discovered_subset [of "map ?f ?rows"] by simp
  have ex1: "\<exists>!i. i < length ?ks \<and> key_eq (?ks ! i) (?f r)" if r: "r \<in> set ?rows" for r
  proof -
    from r refl obtain k where "k \<in> set ?ks" "key_eq k (?f r)"
      using discovered_covers [of "?f r" "map ?f ?rows"] by auto
    then obtain i where i: "i < length ?ks" "key_eq (?ks ! i) (?f r)" by (metis in_set_conv_nth)
    show ?thesis
    proof (rule ex1I [of _ i])
      fix j
      assume "j < length ?ks \<and> key_eq (?ks ! j) (?f r)"
      with i show "j = i" using discovered_unique key_eq_sym key_eq_trans by blast
    qed (use i in simp)
  qed
  with rows sub out(2) sum_list_members [of ?rows ?ks ?f] show ?thesis by (simp add: Let_def)
qed

theorem groups_partition_rows_witness:
  "\<exists>s q res. presents s [[VInt64 1, VString ''x'']] \<and> Parse ''SELECT name, COUNT(*) GROUP BY name'' = Ok q \<and>
     snd (Execute s q) = Ok res \<and> res_Rows res = [[VString ''x'', VUint64 1]]"
proof -
  obtain s where s: "seg_schema s = example_schema\<lparr>schema_pk := opt_PKName example_opts\<rparr>"
    "presents s [[VInt64 1, VString ''x'']]"
    by (rule example_presents)
  have run: "snd (Execute s example_group) =
      Ok \<lparr>res_Columns = [''name'', ''COUNT(*)''], res_Rows = [[VString ''x'', VUint64 1]], res_isAggregate = False\<rparr>"
    using answers_Execute [OF s(2) refl Parse_wf_query [OF parse_example_group]]
    by (simp add: answers_def s(1) query_eval example_group_def)
  have "q_Projection example_group = ProjGrouped" by (simp add: example_group_def)
  from groups_partition_rows [OF s(2) Parse_wf_query [OF parse_example_group] this run] run
  show ?thesis using s(2) parse_example_group by auto
qed

text \<open>
  C40: a NaN among the group keys panics. The comment on \<open>execGrouped\<close> says that NaN keys become groups
  of their own; in fact the lookup that emits a group does not find a NaN key in the map again, and
  the nil accumulator is dereferenced.
\<close>

theorem nan_group_key_panics:
  assumes "presents s rs" "wf_query q" "q_Projection q = ProjGrouped" "q_GroupAgg q = AggCountStar"
    and "ColumnIndex (seg_schema s) (q_GroupBy q) \<noteq> None" "check_where (seg_schema s) q = Ok ()"
    and "r \<in> set (selected_rows (seg_schema s) q rs)"
    and "cell (seg_schema s) (q_GroupBy q) r = VFloat64 x" "f_is_nan x"
  shows "snd (Execute s q) = Panic NilDereference"
proof -
  have "first_overflow (seg_schema s) q f seen rest = None" for f seen rest
    using assms(4) by (induction rest arbitrary: seen) (simp_all add: aggregate_value_def)
  moreover have "\<not> key_eq (cell (seg_schema s) (q_GroupBy q) r) (cell (seg_schema s) (q_GroupBy q) r)"
    using assms(8,9) by (simp add: f_eq_def)
  ultimately have "group_outcome (seg_schema s) q (selected_rows (seg_schema s) q rs) = Panic NilDereference"
    using assms(7) unfolding group_outcome_def Let_def by auto
  with answers_Execute [OF assms(1) refl assms(2)] assms(3-6) show ?thesis
    by (simp add: answers_def query_outcome_def projection_columns_def select_outcome_def check_grouped_def)
qed

text \<open>A written segment with a NaN: one \<open>float64\<close> column and one row.\<close>

definition nan_schema :: schema where
  "nan_schema = \<lparr>schema_pk = ''x'', schema_columns = [\<lparr>col_name = ''x'', col_type = Float64\<rparr>]\<rparr>"

definition nan_buffer :: write_buffer where
  "nan_buffer = \<lparr>wb_schema = nan_schema, wb_int64Cols = Map.empty, wb_float64Cols = [0 \<mapsto> [f_nan]],
     wb_stringCols = Map.empty, wb_rows = 1\<rparr>"

definition nan_query :: query where
  "nan_query = empty_query\<lparr>q_Projection := ProjGrouped, q_Columns := [''x''], q_GroupBy := ''x''\<rparr>"

lemma parse_nan_query: "Parse ''SELECT x, COUNT(*) GROUP BY x'' = Ok nan_query"
proof -
  have "lex ''SELECT x, COUNT(*) GROUP BY x'' = Ok [tok TkKeyword ''SELECT'' 0, tok TkIdent ''x'' 7,
      tok TkComma '','' 8, tok TkKeyword ''COUNT'' 10, tok TkLParen ''('' 15, tok TkStar ''*'' 16,
      tok TkRParen '')'' 17, tok TkKeyword ''GROUP'' 19, tok TkKeyword ''BY'' 25, tok TkIdent ''x'' 28,
      tok TkEOF [] 29]"
    by (simp add: lex_eval)
  then show ?thesis by (simp add: parse_eval nan_query_def)
qed

lemma nan_presents:
  obtains s where "parseSegment (segment_bytes nan_schema nan_buffer \<lparr>opt_PKName = ''x'', opt_Bloom = None\<rparr>) = Ok s"
    "seg_schema s = nan_schema" "presents s [[VFloat64 f_nan]]"
proof -
  have buf: "wf_buffer nan_buffer" "buffer_rows nan_buffer = [[VFloat64 f_nan]]"
    by (simp_all add: wf_buffer_def buffer_rows_def rows_of_columns_def buffer_columns_def column_values_def
        nan_buffer_def nan_schema_def slice_at_def)
  have "length (column_payload nan_buffer Float64 0) = 9"
    by (simp add: column_payload_def nan_buffer_def slice_at_def encodeRLEFloat64_def put_float64_def
        putUvarint.simps)
  then have w: "writable nan_schema nan_buffer \<lparr>opt_PKName = ''x'', opt_Bloom = None\<rparr>"
    using buf(1)
    by (auto simp: writable_def sized_columns_def column_names_def max_alloc_def nan_buffer_def nan_schema_def
        slice_at_def)
  from parseSegment_segment_bytes [OF w] obtain s where
    s: "parseSegment (segment_bytes nan_schema nan_buffer \<lparr>opt_PKName = ''x'', opt_Bloom = None\<rparr>) = Ok s"
      "seg_schema s = nan_schema"
    by (auto simp: nan_schema_def)
  with presents_written [OF w s(1)] buf(2) that show ?thesis
    by (simp add: nan_buffer_def max_alloc_def)
qed

theorem nan_group_key_panics_witness:
  "\<exists>s q. presents s [[VFloat64 f_nan]] \<and> Parse ''SELECT x, COUNT(*) GROUP BY x'' = Ok q \<and>
     snd (Execute s q) = Panic NilDereference"
proof -
  obtain s where s: "seg_schema s = nan_schema" "presents s [[VFloat64 f_nan]]"
    by (rule nan_presents)
  have "snd (Execute s nan_query) = Panic NilDereference"
    by (rule nan_group_key_panics [OF s(2) Parse_wf_query [OF parse_nan_query], of "[VFloat64 f_nan]" f_nan])
      (simp_all add: s(1) query_eval nan_query_def nan_schema_def)
  with s(2) parse_nan_query show ?thesis by blast
qed

end
