(* ===== verification/LoadQuery.thy ===== *)
theory LoadQuery
  imports LoadFacts QueryFacts
begin

text \<open>
  The end of a successful \<open>load\<close>: the table of the loop is flushed into the output file, which is what later
  queries read.
\<close>

section \<open>A successful load\<close>

definition all_flags :: "load_flags \<Rightarrow> bool" where
  "all_flags fl \<longleftrightarrow> lf_csv fl \<noteq> [] \<and> lf_out fl \<noteq> [] \<and> lf_pk fl \<noteq> [] \<and> lf_schema fl \<noteq> []"

lemma finish_load_Ok:
  assumes "le_write env = buffer_write" "le_create env (lf_out fl) = Some []" "flushable (ls_table st)"
  shows "\<exists>res. finish_load env fl st = Ok res \<and> lr_file res = Some (flushed (ls_table st)) \<and>
    (lr_code res = 0 \<longleftrightarrow> le_close env (flushed (ls_table st))) \<and>
    (lr_code res \<noteq> 0 \<longrightarrow> lr_stderr res = loop_messages st @ [CloseOutputFailed])"
proof -
  obtain out where "printLoadSummary (le_toInt64 env) (summarize env fl st (flushed (ls_table st))) = Ok out"
    using printLoadSummary_total by blast
  with assms Flush_flushed [OF assms(3), of "[]"] show ?thesis
    by (simp add: finish_load_def load_exit_def Let_def)
qed

lemma run_load_flushed:
  assumes "all_flags fl" "start_load env fl = Ok (cols, csvIdx, st)" "load_loop cols csvIdx st = Some (Ok st')"
    and "le_write env = buffer_write" "le_create env (lf_out fl) = Some []" "\<forall>w. le_close env w"
    and "flushable (ls_table st')"
  shows "\<exists>res. runLoad env (Some fl) = Some (Ok res) \<and> lr_code res = 0 \<and>
    lr_file res = Some (flushed (ls_table st'))"
  using assms(1-3) finish_load_Ok [OF assms(4,5,7)] assms(6) by (auto simp: runLoad_def all_flags_def)

end
