(* ===== verification/FloatPrint.thy ===== *)
theory FloatPrint
  imports FloatText Format
begin

text \<open>
  \<open>strconv.FormatFloat(x, 'g', -1, 64)\<close>: the shortest decimal that reads back as \<open>x\<close>, the nearest one to \<open>x\<close>
  when there are several, in positional notation for decimal exponents from -4 to 5 and in scientific
  notation otherwise.
\<close>

section \<open>The shortest decimal\<close>

text \<open>The position of the decimal point: the least \<open>k\<close> with \<open>|x| < 10 ^ k\<close>.\<close>

definition decimal_point :: "float64 \<Rightarrow> int" where
  "decimal_point x =
     (if f_unit \<le> f_mag x then int (length (format_nat (f_mag x div f_unit)))
      else 1 - int (length (format_nat ((f_unit - 1) div f_mag x))))"

definition magnitude_bits :: "float64 \<Rightarrow> nat" where
  "magnitude_bits x = unat (float64bits x) mod 2 ^ 63"

text \<open>A decimal of \<open>n\<close> digits next to \<open>|x|\<close> that reads back as \<open>|x|\<close>, the nearest one first.\<close>

definition decimal_digits :: "float64 \<Rightarrow> nat \<Rightarrow> nat option" where
  "decimal_digits x n =
     (let e = int n - decimal_point x;
          num = (if 0 \<le> e then f_mag x * 10 ^ nat e else f_mag x);
          den = (if 0 \<le> e then f_unit else f_unit * 10 ^ nat (- e));
          near = round_even num den;
          far = (if near = num div den then near + 1 else num div den)
      in if scaled_bits 10 near (- e) = magnitude_bits x then Some near
         else if scaled_bits 10 far (- e) = magnitude_bits x then Some far
         else None)"

fun shortest_from :: "float64 \<Rightarrow> nat \<Rightarrow> nat \<Rightarrow> nat \<times> int" where
  "shortest_from x n 0 = (0, 0)"
| "shortest_from x n (Suc k) =
     (case decimal_digits x n of
        Some d \<Rightarrow> (d, decimal_point x - int n)
      | None \<Rightarrow> shortest_from x (n + 1) k)"

text \<open>
  Mantissa and decimal exponent of a finite, non-zero double. Seventeen digits always suffice; the bound here
  is the number of digits with which the value is exact.
\<close>

definition shortest :: "float64 \<Rightarrow> nat \<times> int" where
  "shortest x = shortest_from x 1 1400"

section \<open>Notation\<close>

definition trim_zeros :: "string \<Rightarrow> string" where
  "trim_zeros s = rev (dropWhile (\<lambda>c. c = CHR ''0'') (rev s))"

definition exponent_text :: "int \<Rightarrow> string" where
  "exponent_text e =
     CHR ''e'' # (if e < 0 then CHR ''-'' else CHR ''+'') # pad_zeros 2 (format_nat (nat \<bar>e\<bar>))"

definition scientific :: "string \<Rightarrow> int \<Rightarrow> string" where
  "scientific ds e = hd ds # (if tl ds = [] then [] else CHR ''.'' # tl ds) @ exponent_text e"

text \<open>The digits \<open>ds\<close> with the point after \<open>dp\<close> of them.\<close>

definition positional :: "string \<Rightarrow> int \<Rightarrow> string" where
  "positional ds dp =
     (if dp \<le> 0 then ''0.'' @ replicate (nat (- dp)) CHR ''0'' @ ds
      else if nat dp < length ds then take (nat dp) ds @ CHR ''.'' # drop (nat dp) ds
      else ds @ replicate (nat dp - length ds) CHR ''0'')"

definition format_g :: "float64 \<Rightarrow> string" where
  "format_g x =
     (if f_is_nan x then ''NaN''
      else if f_is_inf x then (if f_negative x then ''-Inf'' else ''+Inf'')
      else (if f_negative x then ''-'' else []) @
        (if f_mag x = 0 then ''0''
         else
           let (d, e) = shortest x; s = format_nat d; ds = trim_zeros s; dp = int (length s) + e
           in if dp - 1 < -4 \<or> 6 \<le> dp - 1 then scientific ds (dp - 1) else positional ds dp))"

end
