(* ===== verification/Tabwriter.thy ===== *)
theory Tabwriter
  imports Types
begin

text \<open>
  \<open>text/tabwriter\<close> as the command line uses it: minimal width 0, padding with spaces, no flags. A tab or
  vertical tab ends a cell, a newline or form feed a line, a form feed also a group of lines formatted on its own.
  The last cell of a line is not part of a column; a column is a maximal block of adjacent lines with a
  tab-terminated cell in it, as wide as its widest cell plus the padding. Text between two bytes
  \<open>0xFF\<close> is copied as it is and those two bytes do not count.
\<close>

section \<open>The width of a text\<close>

text \<open>The length of the UTF-8 encoding a byte sequence starts with; an invalid byte counts as one rune.\<close>

definition is_cont :: "nat \<Rightarrow> bool" where
  "is_cont b \<longleftrightarrow> 0x80 \<le> b \<and> b \<le> 0xBF"

definition rune_length :: "nat list \<Rightarrow> nat" where
  "rune_length bs =
     (case bs of
        b # c # rest \<Rightarrow>
          (if 0xC2 \<le> b \<and> b \<le> 0xDF then (if is_cont c then 2 else 1)
           else if 0xE0 \<le> b \<and> b \<le> 0xEF then
             (if (if b = 0xE0 then 0xA0 else 0x80) \<le> c \<and> c \<le> (if b = 0xED then 0x9F else 0xBF) \<and>
                 rest \<noteq> [] \<and> is_cont (hd rest)
              then 3 else 1)
           else if 0xF0 \<le> b \<and> b \<le> 0xF4 then
             (if (if b = 0xF0 then 0x90 else 0x80) \<le> c \<and> c \<le> (if b = 0xF4 then 0x8F else 0xBF) \<and>
                 1 < length rest \<and> is_cont (hd rest) \<and> is_cont (hd (tl rest))
              then 4 else 1)
           else 1)
      | _ \<Rightarrow> 1)"

lemma rune_length_pos: "0 < rune_length bs"
  by (simp add: rune_length_def split: list.split)

function count_runes :: "nat list \<Rightarrow> nat" where
  "count_runes bs = (if bs = [] then 0 else 1 + count_runes (drop (rune_length bs) bs))"
  by pat_completeness auto
termination by (relation "measure length") (auto simp: rune_length_pos)

declare count_runes.simps [simp del]

definition RuneCount :: "string \<Rightarrow> nat" where
  "RuneCount s = count_runes (map of_char s)"

section \<open>Cells and lines\<close>

type_synonym tab_cell = "string \<times> int"

text \<open>
  The scan of the input: inside an escape or not, the text of the current cell, the part of it since its width was
  last updated, that width, the cells of the current line, the lines of the current group. The result is
  the list of groups: the ended lines and the open last line.
\<close>

fun tab_scan ::
  "bool \<Rightarrow> string \<Rightarrow> string \<Rightarrow> int \<Rightarrow> tab_cell list \<Rightarrow> tab_cell list list \<Rightarrow> string \<Rightarrow>
   (tab_cell list list \<times> tab_cell list) list"
where
  "tab_scan esc txt piece w line ls [] =
     [(ls, if txt = [] then line
           else line @ [(txt, if esc then w + int (RuneCount piece) - 2 else w + int (RuneCount piece))])]"
| "tab_scan esc txt piece w line ls (c # cs) =
     (if esc then
        (if c = CHR 0xFF
         then tab_scan False (txt @ [c]) [] (w + int (RuneCount (piece @ [c])) - 2) line ls cs
         else tab_scan True (txt @ [c]) (piece @ [c]) w line ls cs)
      else if c = CHR 0xFF then tab_scan True (txt @ [c]) [c] (w + int (RuneCount piece)) line ls cs
      else
        let cell = (txt, w + int (RuneCount piece))
        in if c = CHR 0x09 \<or> c = CHR 0x0B then tab_scan False [] [] 0 (line @ [cell]) ls cs
           else if c = CHR 0x0A then tab_scan False [] [] 0 [] (ls @ [line @ [cell]]) cs
           else if c = CHR 0x0C then (ls @ [line @ [cell]], []) # tab_scan False [] [] 0 [] [] cs
           else tab_scan False (txt @ [c]) (piece @ [c]) w line ls cs)"

section \<open>Formatting\<close>

definition in_column :: "nat \<Rightarrow> tab_cell list \<Rightarrow> bool" where
  "in_column j line \<longleftrightarrow> j + 1 < length line"

text \<open>The block of lines around line \<open>i\<close> that have a tab-terminated cell in column \<open>j\<close>.\<close>

definition column_block_of :: "tab_cell list list \<Rightarrow> nat \<Rightarrow> nat \<Rightarrow> tab_cell list list" where
  "column_block_of ls i j =
     rev (takeWhile (in_column j) (rev (take i ls))) @ takeWhile (in_column j) (drop i ls)"

definition column_width :: "nat \<Rightarrow> tab_cell list list \<Rightarrow> nat \<Rightarrow> nat \<Rightarrow> int" where
  "column_width padding ls i j =
     foldr max (map (\<lambda>line. snd (line ! j) + int padding) (column_block_of ls i j)) 0"

definition tab_line :: "nat \<Rightarrow> tab_cell list list \<Rightarrow> nat \<Rightarrow> string" where
  "tab_line padding ls i =
     concat (map (\<lambda>j. fst (ls ! i ! j) @
         (if in_column j (ls ! i)
          then replicate (nat (column_width padding ls i j - snd (ls ! i ! j))) CHR '' '' else []))
       [0..<length (ls ! i)])"

definition tab_group :: "nat \<Rightarrow> tab_cell list list \<times> tab_cell list \<Rightarrow> string" where
  "tab_group padding g =
     (let ls = fst g @ [snd g]
      in concat (map (\<lambda>i. tab_line padding ls i @ (if i < length (fst g) then [CHR 0x0A] else []))
           [0..<length ls]))"

text \<open>What the writer prints for a text that is written and flushed.\<close>

definition tabwrite :: "nat \<Rightarrow> string \<Rightarrow> string" where
  "tabwrite padding s = concat (map (tab_group padding) (tab_scan False [] [] 0 [] [] s))"

end
