(* ===== verification/Render.thy ===== *)
theory Render
  imports Csv Exec FloatPrint Tabwriter
begin

text \<open>
  \<open>cmd/uniqcol/query.go\<close>: the query command and the rendering of a result as an aligned table or as CSV. The
  text of a value of a dynamic type the engine does not produce is a parameter.
\<close>

section \<open>Values\<close>

definition formatValue :: "(string \<Rightarrow> string) \<Rightarrow> go_value \<Rightarrow> string" where
  "formatValue show_other v =
     (case v of
        VInt64 x \<Rightarrow> format_int (sint x)
      | VUint64 x \<Rightarrow> format_nat (unat x)
      | VFloat64 x \<Rightarrow> format_g x
      | VString s \<Rightarrow> s
      | VNil \<Rightarrow> ''<nil>''
      | VOther t \<Rightarrow> show_other t)"

section \<open>The table\<close>

text \<open>One line for the tabwriter: the cells with tabs between them.\<close>

definition tab_line_text :: "string list \<Rightarrow> string" where
  "tab_line_text cells =
     concat (map (\<lambda>i. (if 0 < i then [CHR 0x09] else []) @ cells ! i) [0..<length cells]) @ [newline]"

definition shown_rows :: "result \<Rightarrow> int \<Rightarrow> nat" where
  "shown_rows r limit =
     (if \<not> IsAggregate r \<and> 0 < limit \<and> limit < int (length (res_Rows r)) then nat limit
      else length (res_Rows r))"

definition renderTable :: "(string \<Rightarrow> string) \<Rightarrow> result \<Rightarrow> int \<Rightarrow> (unit, string) outcome" where
  "renderTable show_other r limit =
     (let shown = shown_rows r limit; totalRows = length (res_Rows r);
          grid = tabwrite 3 (tab_line_text (res_Columns r) @
            concat (map (\<lambda>row. tab_line_text (map (formatValue show_other) row)) (take shown (res_Rows r))))
      in if \<not> IsAggregate r \<and> shown < totalRows
         then bind_ok (commaSepInt64 (of_nat shown)) (\<lambda>a.
              bind_ok (commaSepInt64 (of_nat totalRows)) (\<lambda>b.
                Ok (grid @ ''(showing '' @ a @ '' of '' @ b @ '' rows; pass --limit 0 for all)'' @ [newline])))
         else Ok grid)"

section \<open>CSV\<close>

text \<open>The record is reused: a row sets its own cells, and one with too many cells is out of range.\<close>

fun fill_record :: "(string \<Rightarrow> string) \<Rightarrow> nat \<Rightarrow> row \<Rightarrow> string list \<Rightarrow> (unit, string list) outcome" where
  "fill_record show_other j [] rec = Ok rec"
| "fill_record show_other j (v # row) rec =
     (if j < length rec then fill_record show_other (Suc j) row (rec[j := formatValue show_other v])
      else Panic IndexOutOfRange)"

fun csv_rows :: "(string \<Rightarrow> string) \<Rightarrow> row list \<Rightarrow> string list \<Rightarrow> (unit, string) outcome" where
  "csv_rows show_other [] rec = Ok []"
| "csv_rows show_other (row # rows) rec =
     bind_ok (fill_record show_other 0 row rec) (\<lambda>rec.
     bind_ok (csv_rows show_other rows rec) (\<lambda>rest. Ok (csv_Write rec @ rest)))"

text \<open>The text of a rendering whose writes succeed; the writer is buffered, a failing one makes it an error.\<close>

definition renderCSV :: "(string \<Rightarrow> string) \<Rightarrow> result \<Rightarrow> (unit, string) outcome" where
  "renderCSV show_other r =
     bind_ok (csv_rows show_other (res_Rows r) (replicate (length (res_Columns r)) [])) (\<lambda>rest.
       Ok (csv_Write (res_Columns r) @ rest))"

section \<open>The command\<close>

record query_flags =
  qf_db :: string
  qf_limit :: int
  qf_format :: string
  qf_args :: "string list"

text \<open>
  The environment: \<open>os.ReadFile\<close>, whether standard output takes a text, the time the query took, and the text of
  values of other types.
\<close>

record query_env =
  qe_readFile :: "string \<Rightarrow> byte list option"
  qe_accepts :: "string \<Rightarrow> bool"
  qe_elapsed :: nat
  qe_other :: "string \<Rightarrow> string"

datatype query_message =
    QueryNeedsDb
  | QueryNeedsSql
  | UnknownFormat string
  | OpenSegmentFailed segment_error
  | ParseFailed parse_error
  | ExecuteFailed query_error
  | RenderFailed
  | QueryTime string

text \<open>Exit code, standard error, standard output; the text a failing output has taken is not modelled.\<close>

record query_report =
  qr_code :: nat
  qr_stderr :: "query_message list"
  qr_stdout :: string

definition query_exit :: "nat \<Rightarrow> query_message list \<Rightarrow> query_report" where
  "query_exit code msgs = \<lparr>qr_code = code, qr_stderr = msgs, qr_stdout = []\<rparr>"

definition query_done :: "query_env \<Rightarrow> string \<Rightarrow> query_report" where
  "query_done env out =
     \<lparr>qr_code = 0, qr_stderr = [QueryTime (duration_string (duration_round (10 ^ 4) (qe_elapsed env)))],
      qr_stdout = out\<rparr>"

definition print_result :: "query_env \<Rightarrow> query_flags \<Rightarrow> result \<Rightarrow> (unit, query_report) outcome" where
  "print_result env fl r =
     (if qf_format fl = ''csv''
      then bind_ok (renderCSV (qe_other env) r) (\<lambda>out.
             Ok (if qe_accepts env out then query_done env out else query_exit 1 [RenderFailed]))
      else bind_ok (renderTable (qe_other env) r (qf_limit fl)) (\<lambda>out. Ok (query_done env out)))"

definition runQuery :: "query_env \<Rightarrow> query_flags option \<Rightarrow> (unit, query_report) outcome" where
  "runQuery env flags =
     (case flags of
        None \<Rightarrow> Ok (query_exit 2 [])
      | Some fl \<Rightarrow>
          if qf_db fl = [] then Ok (query_exit 1 [QueryNeedsDb])
          else if length (qf_args fl) \<noteq> 1 then Ok (query_exit 1 [QueryNeedsSql])
          else if qf_format fl \<noteq> ''table'' \<and> qf_format fl \<noteq> ''csv''
          then Ok (query_exit 1 [UnknownFormat (qf_format fl)])
          else
            (case OpenSegment (qe_readFile env) (qf_db fl) of
               Err e \<Rightarrow> Ok (query_exit 1 [OpenSegmentFailed e])
             | Panic p \<Rightarrow> Panic p
             | Ok seg \<Rightarrow>
                 (case Parse (qf_args fl ! 0) of
                    Err e \<Rightarrow> Ok (query_exit 1 [ParseFailed e])
                  | Panic p \<Rightarrow> Panic p
                  | Ok q \<Rightarrow>
                      (case snd (Execute seg q) of
                         Err e \<Rightarrow> Ok (query_exit 1 [ExecuteFailed e])
                       | Panic p \<Rightarrow> Panic p
                       | Ok r \<Rightarrow> print_result env fl r))))"

end
