(* ===== verification/RenderFacts.thy ===== *)
theory RenderFacts
  imports Render LoadFacts QueryFacts
begin

text \<open>
  What \<open>query\<close> prints: the tabwriter pads the cells of a rectangular table so that its columns line up, and the
  command prints the outcome of the query over the rows of the segment.
\<close>

section \<open>Scanning lines of plain cells\<close>

abbreviation tab_char :: char where "tab_char \<equiv> CHR 0x09"

text \<open>A cell without the bytes the tabwriter interprets.\<close>

definition plain_cell :: "string \<Rightarrow> bool" where
  "plain_cell s \<longleftrightarrow> set s \<inter> {tab_char, CHR 0x0A, CHR 0x0B, CHR 0x0C, CHR 0xFF} = {}"

definition cell_of :: "string \<Rightarrow> tab_cell" where
  "cell_of s = (s, int (RuneCount s))"

lemma tab_line_text_Cons:
  "tab_line_text (c # cs) = c @ concat (map (\<lambda>c. tab_char # c) cs) @ [newline]"
proof -
  have "concat (map (\<lambda>i. tab_char # cs ! i) [0..<length cs]) = concat (map (\<lambda>c. tab_char # c) cs)"
    by (subst (3) map_nth [of cs, symmetric]) (simp add: comp_def)
  then show ?thesis
    by (simp add: tab_line_text_def map_upt_Suc del: upt_Suc)
qed

lemma tab_scan_plain:
  "plain_cell s \<Longrightarrow> tab_scan False t piece w line ls (s @ rest) = tab_scan False (t @ s) (piece @ s) w line ls rest"
  by (induction s arbitrary: t piece) (auto simp: plain_cell_def)

lemma tab_scan_line:
  "plain_cell c \<Longrightarrow> list_all plain_cell cs \<Longrightarrow>
   tab_scan False [] [] 0 line ls (c @ concat (map (\<lambda>c. tab_char # c) cs) @ newline # rest) =
   tab_scan False [] [] 0 [] (ls @ [line @ map cell_of (c # cs)]) rest"
proof (induction cs arbitrary: c line)
  case Nil
  then show ?case by (simp add: tab_scan_plain cell_of_def)
next
  case (Cons d cs)
  then have "tab_scan False [] [] 0 line ls (c @ concat (map (\<lambda>c. tab_char # c) (d # cs)) @ newline # rest) =
      tab_scan False [] [] 0 (line @ [cell_of c]) ls (d @ concat (map (\<lambda>c. tab_char # c) cs) @ newline # rest)"
    by (simp add: tab_scan_plain cell_of_def)
  with Cons.IH [of d "line @ [cell_of c]"] Cons.prems show ?case by simp
qed

lemma tab_scan_rows:
  "\<forall>row \<in> set rows. row \<noteq> [] \<and> list_all plain_cell row \<Longrightarrow>
   tab_scan False [] [] 0 [] ls (concat (map tab_line_text rows)) = [(ls @ map (map cell_of) rows, [])]"
proof (induction rows arbitrary: ls)
  case (Cons row rows)
  then obtain c cs where row: "row = c # cs" by (cases row) auto
  with Cons tab_scan_line [of c cs "[]" ls "concat (map tab_line_text rows)"] show ?case
    by (simp add: tab_line_text_Cons)
qed simp

section \<open>Alignment\<close>

text \<open>The widest cell of column \<open>j\<close>, in runes, and a row with every cell but the last padded to its column.\<close>

definition widest :: "string list list \<Rightarrow> nat \<Rightarrow> nat" where
  "widest rows j = foldr max (map (\<lambda>row. RuneCount (row ! j)) rows) 0"

definition aligned :: "nat \<Rightarrow> string list list \<Rightarrow> string list \<Rightarrow> string" where
  "aligned padding rows row =
     concat (map (\<lambda>j. row ! j @
         (if j + 1 < length row then replicate (widest rows j + padding - RuneCount (row ! j)) CHR '' '' else []))
       [0..<length row])"

lemma max_widths:
  "rows \<noteq> [] \<Longrightarrow> \<forall>row \<in> set rows. j < length row \<Longrightarrow>
   foldr max (map (\<lambda>row. snd (map cell_of row ! j) + int padding) rows) 0 =
   int (foldr max (map (\<lambda>row. RuneCount (row ! j)) rows) 0) + int padding"
proof (induction rows rule: list_nonempty_induct)
  case (single row)
  then show ?case by (simp add: cell_of_def)
next
  case (cons row rows)
  then show ?case by (simp add: cell_of_def max_def)
qed

lemma column_width_rows:
  assumes "\<forall>row \<in> set rows. length row = n" "i < length rows" "j + 1 < n"
  shows "column_width padding (map (map cell_of) rows @ [[]]) i j = int (widest rows j + padding)"
proof -
  let ?L = "map (map cell_of) rows"
  have all: "in_column j line" if "line \<in> set ?L" for line
    using that assms(1,3) by (auto simp: in_column_def)
  have "takeWhile (in_column j) (rev (take i (?L @ [[]]))) = rev (take i ?L)"
  proof -
    have "takeWhile (in_column j) (rev (take i ?L)) = rev (take i ?L)"
      unfolding takeWhile_eq_all_conv by (metis all in_set_takeD set_rev)
    then show ?thesis using assms(2) by simp
  qed
  moreover have "takeWhile (in_column j) (drop i (?L @ [[]])) = drop i ?L"
  proof -
    have "takeWhile (in_column j) (drop i ?L @ [[]]) = drop i ?L @ takeWhile (in_column j) [[]]"
      by (rule takeWhile_append2) (metis all in_set_dropD)
    then show ?thesis using assms(2) by (simp add: in_column_def)
  qed
  ultimately have "column_block_of (?L @ [[]]) i j = ?L" by (simp add: column_block_of_def)
  moreover have "rows \<noteq> []" "\<forall>row \<in> set rows. j < length row" using assms by auto
  ultimately show ?thesis using max_widths [of rows j padding]
    by (simp add: column_width_def widest_def comp_def)
qed

lemma tabwrite_rows:
  assumes "\<forall>row \<in> set rows. length row = n \<and> list_all plain_cell row" "0 < n"
  shows "tabwrite padding (concat (map tab_line_text rows)) =
    concat (map (\<lambda>row. aligned padding rows row @ [newline]) rows)"
proof -
  let ?ls = "map (map cell_of) rows @ [[]]"
  have "\<forall>row \<in> set rows. row \<noteq> [] \<and> list_all plain_cell row" using assms by auto
  from tab_scan_rows [OF this, of "[]"]
  have scan: "tab_scan False [] [] 0 [] [] (concat (map tab_line_text rows)) = [(map (map cell_of) rows, [])]" by simp
  have line: "tab_line padding ?ls i = aligned padding rows (rows ! i)" if i: "i < length rows" for i
  proof -
    have nth: "?ls ! i = map cell_of (rows ! i)" "length (rows ! i) = n"
      using i assms(1) by (simp_all add: nth_append)
    have w: "column_width padding ?ls i j = int (widest rows j + padding)" if "j + 1 < n" for j
      using assms(1) i that by (intro column_width_rows) auto
    show ?thesis
      unfolding tab_line_def aligned_def nth length_map
      by (rule arg_cong [of _ _ concat], rule map_cong) (auto simp: in_column_def cell_of_def nth(2) w nat_diff_distrib)
  qed
  have "map (\<lambda>i. tab_line padding ?ls i @ (if i < length rows then [newline] else [])) [0..<length ?ls] =
      map (\<lambda>i. aligned padding rows (rows ! i) @ [newline]) [0..<length rows] @ [[]]"
    using line by (simp add: tab_line_def nth_append)
  moreover have "map (\<lambda>i. aligned padding rows (rows ! i) @ [newline]) [0..<length rows] =
      map (\<lambda>row. aligned padding rows row @ [newline]) rows"
    by (rule nth_equalityI) simp_all
  ultimately show ?thesis
    by (simp add: tabwrite_def scan tab_group_def Let_def del: upt_Suc)
qed

section \<open>The rendered text\<close>

text \<open>A row sets every cell of the record that \<open>renderCSV\<close> reuses.\<close>

lemma fill_record_full:
  "j + length row = length rec \<Longrightarrow>
   fill_record other j row rec = Ok (take j rec @ map (formatValue other) row)"
proof (induction row arbitrary: j rec)
  case (Cons v row)
  then have "take (Suc j) (rec[j := formatValue other v]) = take j rec @ [formatValue other v]"
    by (simp add: take_Suc_conv_app_nth)
  with Cons show ?case by simp
qed simp

lemma csv_rows_full:
  "\<forall>row \<in> set rows. length row = length rec \<Longrightarrow>
   csv_rows other rows rec = Ok (concat (map csv_Write (map (map (formatValue other)) rows)))"
  by (induction rows arbitrary: rec) (simp_all add: fill_record_full)

definition rectangular :: "result \<Rightarrow> bool" where
  "rectangular r \<longleftrightarrow> (\<forall>row \<in> set (res_Rows r). length row = length (res_Columns r))"

text \<open>The lines of a result as texts: the column names and the given rows.\<close>

definition result_lines :: "(string \<Rightarrow> string) \<Rightarrow> result \<Rightarrow> row list \<Rightarrow> string list list" where
  "result_lines other r rows = res_Columns r # map (map (formatValue other)) rows"

lemma renderCSV_records:
  assumes "rectangular r"
  shows "renderCSV other r = Ok (concat (map csv_Write (result_lines other r (res_Rows r))))"
  using assms csv_rows_full [of "res_Rows r" "replicate (length (res_Columns r)) []" other]
  by (simp add: renderCSV_def result_lines_def rectangular_def)

lemma commaSepInt64_of_nat:
  assumes "n < 2 ^ 63"
  shows "commaSepInt64 (of_nat n) = Ok (group_digits (format_nat n))"
proof -
  have "sint (of_nat n :: int64) = int n" using assms by (simp add: signed_of_nat signed_take_bit_int_eq_self)
  moreover have "unat (of_nat n :: int64) = n" using assms by (simp add: unat_of_nat)
  ultimately show ?thesis by (simp add: commaSepInt64_def commaSepUint64_group_digits)
qed

lemma renderTable_total: "\<exists>out. renderTable other r limit = Ok out"
proof -
  have c: "\<exists>s. commaSepInt64 n = Ok s" for n by (simp add: commaSepInt64_def commaSepUint64_group_digits)
  obtain a b where "commaSepInt64 (of_nat (shown_rows r limit)) = Ok a" "commaSepInt64 (of_nat (length (res_Rows r))) = Ok b"
    using c by metis
  then show ?thesis by (simp add: renderTable_def Let_def)
qed

text \<open>The results of queries are rectangular.\<close>

lemma query_outcome_rectangular:
  assumes "query_outcome sc q rows = Ok r"
  shows "rectangular r"
proof -
  have "select_outcome sc q (selected_rows sc q rows) = Ok r"
    using assms by (auto simp: query_outcome_def)
  then show ?thesis
    by (auto simp: select_outcome_def rectangular_def grouped_header_def group_outcome_def Let_def
        split: projection_kind.splits option.splits if_splits)
qed

section \<open>Properties\<close>

text \<open>
  C7: the query command over rows. On a segment written by \<open>Flush\<close>, with a query text that parses, \<open>query\<close> exits
  with 1 and the query error, or prints the result of the query over the rows of the segment: as CSV exactly
  the records of the header and the rows, else the rendered table. A CSV that the output does not take is a failure.
\<close>

theorem query_prints_answers:
  assumes "flushable t" "24 * int (length (buffer_rows (tbl_buf t))) \<le> max_alloc"
    and "qe_readFile env db = Some (flushed t)" "db \<noteq> []" "fmt = ''table'' \<or> fmt = ''csv''" "Parse sql = Ok q"
  shows "case query_outcome (tbl_schema t) q (buffer_rows (tbl_buf t)) of
      Err e \<Rightarrow> runQuery env (Some \<lparr>qf_db = db, qf_limit = n, qf_format = fmt, qf_args = [sql]\<rparr>) =
        Ok \<lparr>qr_code = 1, qr_stderr = [ExecuteFailed e], qr_stdout = []\<rparr>
    | Panic p \<Rightarrow> runQuery env (Some \<lparr>qf_db = db, qf_limit = n, qf_format = fmt, qf_args = [sql]\<rparr>) = Panic p
    | Ok r \<Rightarrow>
        \<exists>out. (if fmt = ''csv'' then out = concat (map csv_Write (result_lines (qe_other env) r (res_Rows r)))
              else renderTable (qe_other env) r n = Ok out) \<and>
          runQuery env (Some \<lparr>qf_db = db, qf_limit = n, qf_format = fmt, qf_args = [sql]\<rparr>) =
            Ok (if fmt = ''csv'' \<and> \<not> qe_accepts env out
                then \<lparr>qr_code = 1, qr_stderr = [RenderFailed], qr_stdout = []\<rparr> else query_done env out)"
proof -
  from query_flushed [OF assms(1,2)] assms(6) obtain s where s: "parseSegment (flushed t) = Ok s"
    "snd (Execute s q) = query_outcome (tbl_schema t) q (buffer_rows (tbl_buf t))"
    by blast
  note run = runQuery_def OpenSegment_def print_result_def query_exit_def
  show ?thesis
  proof (cases "query_outcome (tbl_schema t) q (buffer_rows (tbl_buf t))")
    case (Ok r)
    from renderCSV_records [OF query_outcome_rectangular [OF Ok]] renderTable_total [of "qe_other env" r n]
    show ?thesis using s assms(3-6) by (auto simp: Ok run)
  qed (use s assms(3-6) in \<open>auto simp: run\<close>)
qed

definition example_query_env :: query_env where
  "example_query_env =
     \<lparr>qe_readFile = (\<lambda>_. Some (flushed (example_table\<lparr>tbl_buf := example_buffer, tbl_bloom := None, tbl_accepted := 1\<rparr>))),
      qe_accepts = (\<lambda>_. True), qe_elapsed = 0, qe_other = id\<rparr>"

lemma example_stored_rows: "buffer_rows example_buffer = [[VInt64 1, VString ''x'']]"
  by (simp add: buffer_rows_def rows_of_columns_def buffer_columns_def column_values_def example_defs slice_at_def)

theorem query_prints_answers_witness:
  "\<exists>rep. runQuery example_query_env
     (Some \<lparr>qf_db = ''f'', qf_limit = 0, qf_format = ''csv'', qf_args = [''SELECT name, COUNT(*) GROUP BY name'']\<rparr>) = Ok rep \<and>
   qr_stdout rep = ''name,COUNT(*)'' @ [newline] @ ''x,1'' @ [newline]"
proof -
  let ?t = "example_table\<lparr>tbl_buf := example_buffer, tbl_bloom := None, tbl_accepted := 1\<rparr>"
  have f: "flushable ?t" by (rule flushable_example) simp
  have "query_outcome (tbl_schema ?t) example_group (buffer_rows (tbl_buf ?t)) =
      Ok \<lparr>res_Columns = [''name'', ''COUNT(*)''], res_Rows = [[VString ''x'', VUint64 1]], res_isAggregate = False\<rparr>"
    by (simp add: query_eval example_group_def example_stored_rows example_table_def)
  with query_prints_answers [OF f _ _ _ _ parse_example_group, of example_query_env "''f''" "''csv''" 0]
  show ?thesis
    by (simp add: example_stored_rows max_alloc_def)
      (simp add: example_query_env_def query_done_def result_lines_def csv_Write_def csv_field_def fieldNeedsQuotes_def
        leading_space_ascii [OF wide_spaces_high(1)] ascii_space_def formatValue_def format_nat.simps digit_char_def
        char_of_def bit_iff_odd)
qed

text \<open>
  C23: the printed table is aligned. For a rectangular result whose shown cells have no control bytes, \<open>renderTable\<close>
  prints the header and the rows, at most \<open>limit\<close> of them for a projection with a positive limit, every
  cell but the last of its line padded to three columns more than the widest cell of its column, and a
  footer exactly when rows were left out.
\<close>

theorem table_is_aligned:
  assumes "rectangular r" "res_Columns r \<noteq> []" "length (res_Rows r) < 2 ^ 63"
    and "shown = (if IsAggregate r \<or> limit \<le> 0 then res_Rows r else take (nat limit) (res_Rows r))"
    and "ls = result_lines other r shown" "list_all (list_all plain_cell) ls"
  shows "renderTable other r limit =
    Ok (concat (map (\<lambda>l. aligned 3 ls l @ [newline]) ls) @
        (if length shown < length (res_Rows r)
         then ''(showing '' @ group_digits (format_nat (length shown)) @ '' of '' @
           group_digits (format_nat (length (res_Rows r))) @ '' rows; pass --limit 0 for all)'' @ [newline]
         else []))"
proof -
  have n: "shown_rows r limit = length shown" "take (shown_rows r limit) (res_Rows r) = shown"
    "\<not> IsAggregate r \<or> length shown = length (res_Rows r)" "length shown \<le> length (res_Rows r)"
    using assms(4) by (auto simp: shown_rows_def min_def)
  have "\<forall>l \<in> set ls. length l = length (res_Columns r) \<and> list_all plain_cell l"
    using assms(1,4,5,6) by (auto simp: result_lines_def rectangular_def list_all_iff dest: in_set_takeD)
  from tabwrite_rows [OF this] assms(2)
  have grid: "tabwrite 3 (concat (map tab_line_text ls)) = concat (map (\<lambda>l. aligned 3 ls l @ [newline]) ls)"
    by simp
  have "concat (map tab_line_text ls) = tab_line_text (res_Columns r) @
      concat (map (\<lambda>row. tab_line_text (map (formatValue other) row)) (take (shown_rows r limit) (res_Rows r)))"
    by (simp add: assms(5) result_lines_def n(2) comp_def)
  note grid = grid [unfolded this]
  show ?thesis
    using n(3,4) assms(3) commaSepInt64_of_nat [of "length shown"] commaSepInt64_of_nat [of "length (res_Rows r)"]
    unfolding renderTable_def Let_def grid unfolding n(1) by auto
qed

theorem table_is_aligned_witness:
  "renderTable id \<lparr>res_Columns = [''id'', ''name''], res_Rows = [[VInt64 1, VString ''x''], [VInt64 2, VString ''y'']],
     res_isAggregate = False\<rparr> 1 =
   Ok (''id   name'' @ [newline] @ ''1    x'' @ [newline] @ ''(showing 1 of 2 rows; pass --limit 0 for all)'' @ [newline])"
proof -
  let ?r = "\<lparr>res_Columns = [''id'', ''name''], res_Rows = [[VInt64 1, VString ''x''], [VInt64 2, VString ''y'']],
     res_isAggregate = False\<rparr>"
  have ls: "result_lines id ?r [[VInt64 1, VString ''x'']] = [[''id'', ''name''], [''1'', ''x'']]"
    by (simp add: result_lines_def formatValue_def format_int_def format_nat.simps digit_char_def char_of_def bit_iff_odd)
  have w: "RuneCount ''id'' = 2" "RuneCount ''1'' = 1"
    by (simp_all add: RuneCount_def count_runes.simps rune_length_def)
  have g: "group_digits (format_nat (Suc 0)) = ''1''" "group_digits (format_nat (Suc (Suc 0))) = ''2''"
    by (simp_all add: group_digits_def format_nat.simps join_thirds_short digit_char_def char_of_def bit_iff_odd)
  have a: "aligned 3 [[''id'', ''name''], [''1'', ''x'']] [''id'', ''name''] = ''id   name''"
    "aligned 3 [[''id'', ''name''], [''1'', ''x'']] [''1'', ''x''] = ''1    x''"
    by (simp_all add: aligned_def widest_def w numeral_eq_Suc)
  have "list_all (list_all plain_cell) [[''id'', ''name''], [''1'', ''x'']]" by (simp add: plain_cell_def)
  with table_is_aligned [of ?r "[[VInt64 1, VString ''x'']]" 1 _ id, OF _ _ _ _ ls [symmetric]] show ?thesis
    by (simp add: rectangular_def IsAggregate_def a g)
qed

end
