(* ===== verification/CsvFacts.thy ===== *)
theory CsvFacts
  imports Csv
begin

text \<open>
  What \<open>csv.Writer\<close> writes, \<open>csv.Reader\<close> reads back: records of fields without carriage returns, unless the record is
  a single empty field, which is written as an empty line and skipped.
\<close>

section \<open>The first line of a text\<close>

definition first_line :: "string \<Rightarrow> string" where
  "first_line u = takeWhile (\<lambda>c. c \<noteq> newline) u @ [newline]"

definition rest_lines :: "string \<Rightarrow> string" where
  "rest_lines u = tl (dropWhile (\<lambda>c. c \<noteq> newline) u)"

lemma first_line_simps [simp]:
  "first_line (newline # u) = [newline]" "rest_lines (newline # u) = u"
  "c \<noteq> newline \<Longrightarrow> first_line (c # u) = c # first_line u"
  "c \<noteq> newline \<Longrightarrow> rest_lines (c # u) = rest_lines u"
  by (simp_all add: first_line_def rest_lines_def)

lemma first_line_append:
  assumes "newline \<notin> set p"
  shows "first_line (p @ u) = p @ first_line u" "rest_lines (p @ u) = rest_lines u"
  using assms by (induction p) auto

lemma first_line_nonempty [simp]: "first_line u \<noteq> []"
  by (simp add: first_line_def)

lemma lengthNL_first_line [simp]: "lengthNL (first_line u) = 1"
  by (simp add: lengthNL_def first_line_def)

lemma split_lines: "newline \<in> set u \<Longrightarrow> u = first_line u @ rest_lines u"
  by (induction u) (auto simp: first_line_def rest_lines_def)

lemma readLine_first_line:
  assumes "newline \<in> set u" "return_char \<notin> set u" "cs_text r = u"
  shows "readLine r = (first_line u, Fine, r\<lparr>cs_text := rest_lines u\<rparr>)"
proof -
  obtain p v where u: "u = p @ newline # v" "newline \<notin> set p"
    using split_list_first [OF assms(1)] by blast
  have l: "takeWhile (\<lambda>c. c \<noteq> newline) u = p"
    using u by (simp add: takeWhile_append)
  have "(p @ [newline]) ! i \<noteq> return_char" if "i < length p" for i
    using that assms(2) u(1) by (auto simp: nth_append in_set_conv_nth)
  then have "normalize_line (p @ [newline]) = p @ [newline]"
    by (auto simp: normalize_line_def Let_def)
  with l u assms(3) first_line_append [OF u(2), of "newline # v"] show ?thesis
    by (simp add: readLine_def)
qed

section \<open>A quoted field\<close>

definition escaped :: "string \<Rightarrow> string" where
  "escaped s = concat (map (\<lambda>c. if c = quote then [quote, quote] else [c]) s)"

lemma escaped_simps [simp]:
  "escaped [] = []" "escaped (quote # s) = quote # quote # escaped s"
  "c \<noteq> quote \<Longrightarrow> escaped (c # s) = c # escaped s"
  by (simp_all add: escaped_def)

lemma escaped_append: "escaped (s @ t) = escaped s @ escaped t"
  by (simp add: escaped_def)

lemma escaped_plain: "quote \<notin> set s \<Longrightarrow> escaped s = s"
  by (induction s) auto

lemma set_escaped: "set (escaped s) = set s"
  by (auto simp: escaped_def)

text \<open>What follows a quoted field: a comma and another field, or the end of the record.\<close>

definition after_field ::
  "string \<Rightarrow> csv_source \<Rightarrow> string list \<Rightarrow> csv_source \<times> (csv_error, string list) outcome" where
  "after_field v r acc =
     (if hd v = comma then csv_fields (first_line (tl v)) Fine (r\<lparr>cs_text := rest_lines (tl v)\<rparr>) acc
      else (r\<lparr>cs_text := tl v\<rparr>, Ok acc))"

lemma takeWhile_quote:
  "quote \<notin> set p \<Longrightarrow> takeWhile (\<lambda>c. c \<noteq> quote) (p @ quote # x) = p"
  "quote \<notin> set p \<Longrightarrow> takeWhile (\<lambda>c. c \<noteq> quote) p = p"
  by (auto simp: takeWhile_append)

lemma takeWhile_comma:
  assumes "comma \<notin> set p"
  shows "takeWhile (\<lambda>c. c \<noteq> comma) (p @ comma # x) = p" "takeWhile (\<lambda>c. c \<noteq> comma) p = p"
  using assms by (induction p) auto

text \<open>A field up to its first quote or newline.\<close>

lemma split_special:
  obtains (none) "quote \<notin> set s" "newline \<notin> set s"
  | (quote) p t where "s = p @ quote # t" "quote \<notin> set p" "newline \<notin> set p"
  | (newline) p t where "s = p @ newline # t" "quote \<notin> set p" "newline \<notin> set p"
proof (cases "\<exists>c \<in> set s. c = quote \<or> c = newline")
  case True
  then obtain p c t where s: "s = p @ c # t" "c = quote \<or> c = newline" "\<forall>d \<in> set p. \<not> (d = quote \<or> d = newline)"
    using split_list_first_prop [OF True] by blast
  then have "quote \<notin> set p" "newline \<notin> set p" by blast+
  with s(1,2) show ?thesis using quote [of p t] newline [of p t] by (elim disjE) simp_all
next
  case False
  then show ?thesis using none by blast
qed

lemma csv_quoted_field:
  assumes "return_char \<notin> set s \<union> set v" "newline \<in> set v" "hd v = comma \<or> hd v = newline"
  shows "csv_quoted (first_line (escaped s @ quote # v)) Fine (r\<lparr>cs_text := rest_lines (escaped s @ quote # v)\<rparr>) acc cur =
    after_field v r (acc @ [cur @ s])"
  using assms
proof (induction "length s" arbitrary: s r cur rule: less_induct)
  case less
  obtain x y where v: "v = x # y" "x = comma \<or> x = newline"
    using less.prems by (cases v) auto
  show ?case
  proof (cases s rule: split_special)
    case none
    then have l: "first_line (escaped s @ quote # v) = s @ quote # first_line v"
      "rest_lines (escaped s @ quote # v) = rest_lines v"
      by (simp_all add: escaped_plain first_line_append)
    show ?thesis unfolding l using none(1) v
      by (subst csv_quoted.simps) (auto simp: takeWhile_quote after_field_def lengthNL_def status_error_def Let_def)
  next
    case (quote p t)
    then have l: "first_line (escaped s @ quote # v) = p @ quote # quote # first_line (escaped t @ quote # v)"
      "rest_lines (escaped s @ quote # v) = rest_lines (escaped t @ quote # v)"
      by (simp_all add: escaped_append escaped_plain first_line_append)
    have "csv_quoted (first_line (escaped t @ quote # v)) Fine (r\<lparr>cs_text := rest_lines (escaped t @ quote # v)\<rparr>)
        acc (cur @ p @ [quote]) = after_field v r (acc @ [(cur @ p @ [quote]) @ t])"
      using quote(1) less.prems by (intro less.hyps) auto
    then show ?thesis unfolding l using quote
      by (subst csv_quoted.simps) (simp add: takeWhile_quote Let_def)
  next
    case (newline p t)
    let ?u = "escaped t @ quote # v"
    have l: "first_line (escaped s @ quote # v) = p @ [newline]" "rest_lines (escaped s @ quote # v) = ?u"
      using newline by (simp_all add: escaped_append escaped_plain first_line_append)
    have "readLine (r\<lparr>cs_text := ?u\<rparr>) = (first_line ?u, Fine, r\<lparr>cs_text := rest_lines ?u\<rparr>)"
      using readLine_first_line [of ?u "r\<lparr>cs_text := ?u\<rparr>"] less.prems newline(1) by (simp add: set_escaped)
    moreover have "csv_quoted (first_line ?u) Fine (r\<lparr>cs_text := rest_lines ?u\<rparr>) acc (cur @ p @ [newline]) =
        after_field v r (acc @ [(cur @ p @ [newline]) @ t])"
      using newline(1) less.prems by (intro less.hyps) auto
    ultimately show ?thesis unfolding l using newline
      by (subst csv_quoted.simps) (simp add: takeWhile_quote(2) [of "p @ [newline]"] Let_def status_error_def)
  qed
qed

section \<open>A record\<close>

lemma csv_field_cases:
  obtains "csv_field f = f" "comma \<notin> set f" "quote \<notin> set f" "newline \<notin> set f"
  | "csv_field f = [quote] @ escaped f @ [quote]" "f \<noteq> []"
proof (cases "fieldNeedsQuotes f")
  case True
  then show ?thesis using that(2) by (simp add: csv_field_def quote_field_def escaped_def fieldNeedsQuotes_def)
next
  case False
  then show ?thesis using that(1) by (cases "f = []") (auto simp: csv_field_def fieldNeedsQuotes_def)
qed

lemma csv_fields_field:
  assumes "return_char \<notin> set f \<union> set v" "newline \<in> set v" "hd v = comma \<or> hd v = newline"
  shows "csv_fields (first_line (csv_field f @ v)) Fine (r\<lparr>cs_text := rest_lines (csv_field f @ v)\<rparr>) acc =
    after_field v r (acc @ [f])"
proof -
  obtain x y where v: "v = x # y" "x = comma \<or> x = newline"
    using assms by (cases v) auto
  show ?thesis
  proof (cases f rule: csv_field_cases)
    case 1
    have l: "first_line (csv_field f @ v) = f @ first_line v" "rest_lines (csv_field f @ v) = rest_lines v"
      using 1 by (simp_all add: first_line_append)
    have h: "\<not> (f @ first_line v = [] \<or> hd (f @ first_line v) \<noteq> quote) = False"
      using 1(3) v by (cases f) auto
    have t: "takeWhile (\<lambda>c. c \<noteq> comma) (f @ first_line v) = (if x = comma then f else f @ [newline])"
      using v(2) takeWhile_comma [OF 1(2)] takeWhile_comma(2) [of "f @ [newline]"] 1(2)
      by (elim disjE) (simp_all add: v(1))
    from v(2) show ?thesis
    proof
      assume x: "x = comma"
      then show ?thesis unfolding l using 1 v h t
        by (subst csv_fields.simps) (simp add: Let_def after_field_def)
    next
      assume x: "x = newline"
      then show ?thesis unfolding l using 1 v h t
        by (subst csv_fields.simps) (simp add: Let_def after_field_def lengthNL_def status_error_def)
    qed
  next
    case 2
    have l: "first_line (csv_field f @ v) = quote # first_line (escaped f @ quote # v)"
      "rest_lines (csv_field f @ v) = rest_lines (escaped f @ quote # v)"
      using 2 by simp_all
    show ?thesis unfolding l using csv_quoted_field [OF assms, of r acc "[]"]
      by (subst csv_fields.simps) simp
  qed
qed

lemma set_csv_record: "c \<in> set (csv_record fs) \<Longrightarrow> c \<in> {quote, comma} \<union> \<Union> (set ` set fs)"
proof (induction fs rule: csv_record.induct)
  case (2 f)
  then show ?case by (cases f rule: csv_field_cases) (auto simp: set_escaped)
next
  case (3 f g fs)
  then show ?case by (cases f rule: csv_field_cases) (auto simp: set_escaped)
qed simp

lemma csv_fields_record:
  assumes "fs \<noteq> []" "return_char \<notin> \<Union> (set ` set fs) \<union> set v"
  shows "csv_fields (first_line (csv_record fs @ newline # v)) Fine
      (r\<lparr>cs_text := rest_lines (csv_record fs @ newline # v)\<rparr>) acc = (r\<lparr>cs_text := v\<rparr>, Ok (acc @ fs))"
  using assms
proof (induction fs arbitrary: acc rule: csv_record.induct)
  case (2 f)
  then show ?case using csv_fields_field [of f "newline # v" r acc] by (simp add: after_field_def)
next
  case (3 f g fs)
  let ?v = "csv_record (g # fs) @ newline # v"
  have "return_char \<notin> set f \<union> set (comma # ?v)"
    using "3.prems" by (auto dest!: set_csv_record)
  then show ?case
    using csv_fields_field [of f "comma # ?v" r acc] "3.IH" [of "acc @ [f]"] "3.prems"
    by (simp add: after_field_def)
qed simp

section \<open>Records\<close>

definition plain_record :: "string list \<Rightarrow> bool" where
  "plain_record fs \<longleftrightarrow> fs \<noteq> [] \<and> fs \<noteq> [[]] \<and> return_char \<notin> \<Union> (set ` set fs)"

lemma csv_field_hd: "csv_field f \<noteq> [] \<Longrightarrow> hd (csv_field f) \<noteq> newline"
  by (cases f rule: csv_field_cases) (auto dest: hd_in_set)

lemma csv_record_hd:
  assumes "fs \<noteq> []" "fs \<noteq> [[]]"
  shows "csv_record fs \<noteq> []" "hd (csv_record fs) \<noteq> newline"
proof -
  have empty: "csv_field f = [] \<longleftrightarrow> f = []" for f by (cases f rule: csv_field_cases) auto
  show "csv_record fs \<noteq> []" "hd (csv_record fs) \<noteq> newline"
    using assms csv_field_hd [of "hd fs"] empty
    by (cases fs rule: csv_record.cases; auto simp: hd_append)+
qed

lemma return_char_csv_Write: "return_char \<notin> \<Union> (set ` set fs) \<Longrightarrow> return_char \<notin> set (csv_Write fs)"
  by (auto simp: csv_Write_def dest!: set_csv_record)

lemma csv_Read_written:
  assumes "plain_record fs" "return_char \<notin> set v"
  shows "csv_Read \<lparr>cs_text = csv_Write fs @ v, cs_fails = False\<rparr> = (\<lparr>cs_text = v, cs_fails = False\<rparr>, Ok fs)"
proof -
  let ?u = "csv_record fs @ newline # v"
  let ?r = "\<lparr>cs_text = ?u, cs_fails = False\<rparr>"
  have fs: "fs \<noteq> []" "fs \<noteq> [[]]" "return_char \<notin> \<Union> (set ` set fs)"
    using assms(1) by (simp_all add: plain_record_def)
  have u: "newline \<in> set ?u" "return_char \<notin> set ?u"
    using fs(3) assms(2) by (auto dest!: set_csv_record)
  from csv_record_hd [OF fs(1,2)] obtain c w where "csv_record fs = c # w" "c \<noteq> newline"
    by (cases "csv_record fs") auto
  then have "length (first_line ?u) \<noteq> 1" by simp
  with readLine_first_line [OF u, of ?r] have "next_line ?r = (first_line ?u, Fine, \<lparr>cs_text = rest_lines ?u, cs_fails = False\<rparr>)"
    by (subst next_line.simps) simp
  with csv_fields_record [of fs v "\<lparr>cs_text = v, cs_fails = False\<rparr>" "[]"] fs(1,3) assms(2)
  show ?thesis by (simp add: csv_Read_def csv_Write_def)
qed

lemma csv_Read_end: "csv_Read \<lparr>cs_text = [], cs_fails = False\<rparr> = (\<lparr>cs_text = [], cs_fails = False\<rparr>, Err CsvEOF)"
  by (simp add: csv_Read_def next_line.simps readLine_def)

lemma csv_records_written:
  "list_all plain_record rs \<Longrightarrow>
   csv_records \<lparr>cs_text = concat (map csv_Write rs), cs_fails = False\<rparr> = map Ok rs"
proof (induction rs)
  case Nil
  show ?case by (subst csv_records.simps) (simp add: csv_Read_end)
next
  case (Cons fs rs)
  have "return_char \<notin> set (concat (map csv_Write rs))"
    using Cons.prems return_char_csv_Write by (auto simp: list_all_iff plain_record_def)
  with Cons csv_Read_written [of fs] show ?case
    by (subst csv_records.simps) simp
qed

end
