(* ===== verification/FloatRoundtrip.thy ===== *)
theory FloatRoundtrip
  imports FloatPrint
begin

text \<open>
  \<open>ParseFloat\<close> reads back what \<open>FormatFloat(x, 'g', -1, 64)\<close> prints: the shortest decimal rounds to \<open>x\<close>, and the
  scanner recovers its digits and exponent from either notation.
\<close>

section \<open>Rounding depends on the value\<close>

lemma round_even_cancel: "0 < c \<Longrightarrow> round_even (c * a) (c * b) = round_even a b"
proof -
  assume c: "0 < c"
  have "c * b < 2 * (c * r) \<longleftrightarrow> b < 2 * r" "2 * (c * r) = c * b \<longleftrightarrow> 2 * r = b" for r
  proof -
    have "2 * (c * r) = c * (2 * r)" by simp
    then show "c * b < 2 * (c * r) \<longleftrightarrow> b < 2 * r" "2 * (c * r) = c * b \<longleftrightarrow> 2 * r = b"
      using c by (metis nat_mult_less_cancel_disj, metis mult_cancel_left less_irrefl)
  qed
  with c show ?thesis
    by (simp add: round_even_def Let_def flip: mult_mod_right)
qed

lemma round_scaled_cancel:
  assumes "0 < c"
  shows "round_scaled (c * a) (c * b) 0 = round_scaled a b 0"
proof -
  have "round_even (c * a) (c * b * t) = round_even a (b * t)" for t
    using round_even_cancel [OF assms, of a "b * t"] by (simp add: mult.assoc)
  with assms round_even_cancel [OF assms, of a b] show ?thesis
    by (simp add: round_scaled_def Let_def)
qed

text \<open>The value as one fraction of units.\<close>

lemma scaled_bits_fraction:
  "scaled_bits 10 m e = round_scaled (m * f_unit * 10 ^ nat e) (10 ^ nat (- e)) 0"
proof (cases "0 \<le> e \<and> 0 < m")
  case True
  with round_scaled_shift [of "m * 10 ^ nat e" 1074 0] show ?thesis
    by (simp add: scaled_bits_def f_unit_def mult_ac)
next
  case False
  then show ?thesis by (cases "m = 0") (simp_all add: scaled_bits_def round_scaled_def)
qed

lemma scaled_bits_shift: "scaled_bits 10 (m * 10 ^ k) (e - int k) = scaled_bits 10 m e"
proof -
  consider "int k \<le> e" | "0 \<le> e" "e < int k" | "e < 0" by linarith
  then show ?thesis
  proof cases
    case 1
    then have "nat e = k + nat (e - int k)" "nat (- (e - int k)) = 0" "nat (- e) = 0" by auto
    then show ?thesis by (simp add: scaled_bits_fraction power_add mult_ac)
  next
    case 2
    then obtain j where j: "e = int j" by (metis nonneg_int_cases)
    with 2 have k: "k = j + (k - j)" "nat (- (e - int k)) = k - j" "nat (e - int k) = 0" by auto
    have "m * 10 ^ k * f_unit = 10 ^ (k - j) * (m * f_unit * 10 ^ j)"
      by (subst k(1)) (simp add: power_add mult_ac)
    have "scaled_bits 10 (m * 10 ^ k) (e - int k) = round_scaled (m * 10 ^ k * f_unit) (10 ^ (k - j) * 1) 0"
      unfolding scaled_bits_fraction k(2,3) by simp
    also have "\<dots> = round_scaled (m * f_unit * 10 ^ j) 1 0"
      unfolding \<open>m * 10 ^ k * f_unit = 10 ^ (k - j) * (m * f_unit * 10 ^ j)\<close> by (rule round_scaled_cancel) simp
    also have "\<dots> = scaled_bits 10 m e" by (simp add: scaled_bits_fraction j)
    finally show ?thesis .
  next
    case 3
    then have "nat (- (e - int k)) = k + nat (- e)" "nat (e - int k) = 0" "nat e = 0" by auto
    with round_scaled_cancel [of "10 ^ k" "m * f_unit" "10 ^ nat (- e)"] show ?thesis
      by (simp add: scaled_bits_fraction power_add mult_ac)
  qed
qed

section \<open>A decimal that reads back exists\<close>

lemma magnitude_bits_round:
  assumes "f_finite x" "f_mag x \<noteq> 0"
  shows "round_scaled (f_mag x) 1 0 = magnitude_bits x"
  using round_scaled_shift [of "f_mant x" "f_shift x" 0] round_scaled_self [OF assms(1)] assms(2)
  by (simp add: f_mag_def magnitude_bits_def)

lemma magnitude_bits_fields: "magnitude_bits x = f_exponent x * 2 ^ 52 + f_fraction x"
  using mod_mult2_eq [of "unat (float64bits x)" "2 ^ 52" 2048]
  by (simp add: magnitude_bits_def f_exponent_def f_fraction_def)

lemma magnitude_bits_less: "f_finite x \<Longrightarrow> magnitude_bits x < inf_bits"
proof -
  assume "f_finite x"
  then have "f_exponent x \<le> 2046"
    using f_exponent_less [of x] by (simp add: f_finite_def)
  moreover note magnitude_bits_fields [of x]
  ultimately show ?thesis
    using f_fraction_less [of x] by (simp add: inf_bits_def)
qed

lemma magnitude_bits_zero: "f_finite x \<Longrightarrow> magnitude_bits x = 0 \<Longrightarrow> f_mag x = 0"
proof -
  assume "magnitude_bits x = 0"
  moreover note magnitude_bits_fields [of x]
  ultimately show ?thesis by (simp add: f_mag_def f_mant_def)
qed

lemma decimal_digits_scaled:
  "decimal_digits x n = Some d \<Longrightarrow> scaled_bits 10 d (decimal_point x - int n) = magnitude_bits x"
  by (auto simp: decimal_digits_def Let_def split: if_splits)

lemma ten_power: "(10::nat) ^ n = 2 ^ n * 5 ^ n"
  by (simp flip: power_mult_distrib)

lemma decimal_digits_exact:
  assumes "f_finite x" "f_mag x \<noteq> 0" "1074 \<le> int n - decimal_point x"
  shows "decimal_digits x n \<noteq> None"
proof -
  define e where "e = int n - decimal_point x"
  define j where "j = nat e"
  have j: "1074 \<le> j" "e = int j" using assms(3) by (auto simp: e_def j_def)
  have u: "0 < f_unit" by (simp add: f_unit_def)
  have "(10::nat) ^ j = f_unit * (5 ^ 1074 * 10 ^ (j - 1074))"
  proof -
    have "(10::nat) ^ j = 10 ^ 1074 * 10 ^ (j - 1074)"
      unfolding power_add [symmetric] using j(1) by (simp only: le_add_diff_inverse)
    also have "(10::nat) ^ 1074 = f_unit * 5 ^ 1074" unfolding f_unit_def by (rule ten_power)
    finally show ?thesis by (simp only: mult.assoc)
  qed
  then obtain c where c: "(10::nat) ^ j = f_unit * c" by blast
  have near: "round_even (f_mag x * 10 ^ j) f_unit = f_mag x * c"
    using round_even_exact [OF u, of "f_mag x * c"] by (simp add: c mult_ac)
  have "scaled_bits 10 (f_mag x * c) (- e) = round_scaled (10 ^ j * f_mag x) (10 ^ j * 1) 0"
    using j by (simp add: scaled_bits_fraction c mult_ac)
  also have "\<dots> = magnitude_bits x"
    using round_scaled_cancel [of "10 ^ j" "f_mag x" 1] magnitude_bits_round [OF assms(1,2)] by simp
  finally show ?thesis
    using near j by (simp add: decimal_digits_def e_def [symmetric] Let_def)
qed

lemma format_nat_length: "n < 10 ^ k \<Longrightarrow> 0 < k \<Longrightarrow> length (format_nat n) \<le> k"
proof (induction n arbitrary: k rule: format_nat.induct)
  case (1 n)
  show ?case
  proof (cases "n < 10")
    case True
    with "1.prems" show ?thesis by (subst format_nat.simps) simp
  next
    case False
    with "1.prems" obtain j where k: "k = Suc j" "0 < j" by (cases k; cases "k - 1") auto
    then have "n div 10 < 10 ^ j" using "1.prems"(1) by (simp add: less_mult_imp_div_less mult.commute)
    from "1.IH" [OF False this k(2)] False k show ?thesis by (subst format_nat.simps) simp
  qed
qed

lemma f_mag_bound:
  assumes "f_finite x"
  shows "f_mag x < 2 ^ 1024 * f_unit"
proof -
  have "f_exponent x \<le> 2046"
    using assms f_exponent_less [of x] by (simp add: f_finite_def)
  then have "f_shift x \<le> 2045" by (simp add: f_shift_def)
  then have "(2::nat) ^ f_shift x \<le> 2 ^ 2045" by (rule power_increasing) simp
  then have "f_mant x * 2 ^ f_shift x < 2 ^ 53 * 2 ^ 2045"
    using f_mant_less [of x] by (intro mult_less_le_imp_less) simp_all
  then show ?thesis
    by (simp only: f_mag_def f_unit_def power_add [symmetric]) simp
qed

lemma decimal_point_bounds:
  assumes "f_finite x"
  shows "decimal_point x \<le> 309" "- 323 \<le> decimal_point x"
proof -
  have "f_mag x div f_unit < 2 ^ 1024"
    using f_mag_bound [OF assms] by (rule less_mult_imp_div_less)
  also have "(2::nat) ^ 1024 < 10 ^ 309" by simp
  finally have a: "length (format_nat (f_mag x div f_unit)) \<le> 309" by (intro format_nat_length) simp_all
  have "(f_unit - 1) div f_mag x \<le> f_unit - 1" by (rule div_le_dividend)
  also have "f_unit - 1 < 10 ^ 324" by (simp add: f_unit_def)
  finally have b: "length (format_nat ((f_unit - 1) div f_mag x)) \<le> 324" by (intro format_nat_length) simp_all
  have "length (format_nat k) \<ge> 1" for k
    using format_nat_nonempty [of k] by (cases "format_nat k") auto
  then show "decimal_point x \<le> 309" "- 323 \<le> decimal_point x"
    using a b by (auto simp: decimal_point_def)
qed

lemma decimal_digits_length:
  assumes "f_finite x" "decimal_digits x n = Some d" "n \<le> 1383"
  shows "length (format_nat d) \<le> 3000"
proof -
  let ?e = "int n - decimal_point x"
  define num where "num = (if 0 \<le> ?e then f_mag x * 10 ^ nat ?e else f_mag x)"
  have r: "num div den \<le> num + 1" "num div den + 1 \<le> num + 1" "round_even num den \<le> num + 1" for den
    using div_le_dividend [of num den] by (auto simp: round_even_def Let_def le_SucI)
  from assms(2) obtain den where
    "d = round_even num den \<or> d = num div den \<or> d = num div den + 1"
    unfolding decimal_digits_def Let_def num_def by (simp split: if_splits) blast+
  with r have "d \<le> num + 1" by metis
  have "num < 10 ^ (700 + 1706)"
  proof -
    have "(2::nat) ^ 1024 * f_unit < 10 ^ 700" unfolding f_unit_def by simp
    with f_mag_bound [OF assms(1)] have m: "f_mag x < 10 ^ 700" by (rule less_trans)
    have "nat ?e \<le> 1706" using decimal_point_bounds [OF assms(1)] assms(3) by linarith
    then have p: "(10::nat) ^ nat ?e \<le> 10 ^ 1706" by (rule power_increasing) simp
    have "f_mag x * 10 ^ nat ?e < 10 ^ (700 + 1706)"
      unfolding power_add using m p by (rule mult_less_le_imp_less) (rule zero_le, rule zero_less_power, simp)
    moreover have "(10::nat) ^ 700 < 10 ^ (700 + 1706)" by (rule power_strict_increasing) simp_all
    with m have "f_mag x < 10 ^ (700 + 1706)" by (rule less_trans)
    ultimately show ?thesis unfolding num_def by (cases "0 \<le> ?e") (simp_all only: if_True if_False)
  qed
  then have n: "num + 1 \<le> 10 ^ (700 + 1706)" by (simp only: Suc_eq_plus1 [symmetric] Suc_le_eq)
  have p: "(10::nat) ^ (700 + 1706) < 10 ^ 3000" by (rule power_strict_increasing) simp_all
  have "d < 10 ^ 3000" by (rule le_less_trans [OF le_trans [OF \<open>d \<le> num + 1\<close> n] p])
  then show ?thesis by (rule format_nat_length) simp
qed

lemma shortest_from_found:
  "decimal_digits x n0 \<noteq> None \<Longrightarrow> n \<le> n0 \<Longrightarrow> n0 < n + k \<Longrightarrow>
   \<exists>d n'. shortest_from x n k = (d, decimal_point x - int n') \<and> decimal_digits x n' = Some d \<and> n' \<le> n0"
proof (induction k arbitrary: n)
  case (Suc k)
  show ?case
  proof (cases "decimal_digits x n")
    case None
    with Suc.prems have "n \<noteq> n0" by auto
    with Suc.prems None show ?thesis using Suc.IH [of "n + 1"] by simp
  qed (use Suc.prems in auto)
qed simp

lemma shortest_reads_back:
  assumes "f_finite x" "f_mag x \<noteq> 0"
  obtains d e where "shortest x = (d, e)" "scaled_bits 10 d e = magnitude_bits x" "0 < d"
    "\<bar>int (length (format_nat d)) + e\<bar> < 8000"
proof -
  note dp = decimal_point_bounds [OF assms(1)]
  define n0 where "n0 = nat (1074 + decimal_point x)"
  have "decimal_digits x n0 \<noteq> None"
    using dp by (intro decimal_digits_exact [OF assms]) (simp add: n0_def)
  moreover have "1 \<le> n0" "n0 < 1 + 1400" using dp by (auto simp: n0_def)
  ultimately obtain d n' where d: "shortest x = (d, decimal_point x - int n')" "decimal_digits x n' = Some d"
      "n' \<le> n0"
    using shortest_from_found [of x n0 1 1400] unfolding shortest_def by blast
  from decimal_digits_scaled [OF d(2)] have b: "scaled_bits 10 d (decimal_point x - int n') = magnitude_bits x" .
  have "0 < d"
  proof (rule ccontr)
    assume "\<not> 0 < d"
    with b have "magnitude_bits x = 0" by (simp add: scaled_bits_fraction round_scaled_def)
    with magnitude_bits_zero [OF assms(1)] assms(2) show False by simp
  qed
  moreover have "\<bar>int (length (format_nat d)) + (decimal_point x - int n')\<bar> < 8000"
  proof -
    have "n' \<le> 1383" using d(3) dp by (simp add: n0_def)
    with decimal_digits_length [OF assms(1) d(2)] dp show ?thesis by linarith
  qed
  ultimately show ?thesis using that d(1) b by blast
qed

section \<open>Digit strings\<close>

abbreviation zero_char :: char where "zero_char \<equiv> CHR ''0''"

definition all_digits :: "string \<Rightarrow> bool" where
  "all_digits ds \<longleftrightarrow> list_all is_digit_char ds"

lemma all_digits_simps [simp]:
  "all_digits []" "all_digits (c # ds) \<longleftrightarrow> is_digit_char c \<and> all_digits ds"
  "all_digits (ds @ es) \<longleftrightarrow> all_digits ds \<and> all_digits es"
  "all_digits (replicate k zero_char)"
  by (simp_all add: all_digits_def) (simp add: is_digit_char_def list_all_iff)

lemma digits_val_fold: "foldl (\<lambda>n c. n * 10 + digit_val c) a ds = a * 10 ^ length ds + digits_val ds"
proof (induction ds rule: rev_induct)
  case Nil
  show ?case by (simp add: digits_val_def)
qed (simp add: algebra_simps)

lemma digits_val_append: "digits_val (ds @ es) = digits_val ds * 10 ^ length es + digits_val es"
  using digits_val_fold [of "digits_val ds" es] by (simp add: digits_val_def)

lemma digits_val_zeros [simp]: "digits_val (replicate k zero_char) = 0"
  by (induction k) (simp_all add: digits_val_def digit_val_def)

lemma digits_val_Cons: "digits_val (c # ds) = digit_val c * 10 ^ length ds + digits_val ds"
  using digits_val_append [of "[c]" ds] by (simp add: digits_val_def)

lemma trim_zeros_append: "\<exists>k. s = trim_zeros s @ replicate k zero_char"
proof (induction s rule: rev_induct)
  case (snoc c s)
  then obtain k where k: "s = trim_zeros s @ replicate k zero_char" by blast
  show ?case
  proof (cases "c = zero_char")
    case True
    then have "trim_zeros (s @ [c]) = trim_zeros s" by (simp add: trim_zeros_def)
    moreover have "s @ [zero_char] = trim_zeros s @ replicate (Suc k) zero_char"
      by (subst k) (simp add: replicate_append_same)
    ultimately show ?thesis using True by metis
  next
    case False
    then show ?thesis by (intro exI [of _ 0]) (simp add: trim_zeros_def)
  qed
qed (simp add: trim_zeros_def)

lemma format_nat_head: "0 < n \<Longrightarrow> hd (format_nat n) \<noteq> zero_char"
proof (induction n rule: format_nat.induct)
  case (1 n)
  show ?case
  proof (cases "n < 10")
    case True
    then have "digit_char n \<noteq> zero_char"
      using "1.prems" digit_char_props(2) [of n] by (auto simp: digit_val_def)
    with True show ?thesis by (subst format_nat.simps) simp
  next
    case False
    then have "hd (format_nat (n div 10)) \<noteq> zero_char" using 1 by simp
    with False show ?thesis by (subst format_nat.simps) (simp add: hd_append)
  qed
qed

text \<open>The digits of a decimal: non-empty, without a leading zero, and their value.\<close>

lemma trimmed_digits:
  assumes "0 < d"
  obtains k where "trim_zeros (format_nat d) \<noteq> []" "all_digits (trim_zeros (format_nat d))"
    "hd (trim_zeros (format_nat d)) \<noteq> zero_char"
    "d = digits_val (trim_zeros (format_nat d)) * 10 ^ k"
    "length (format_nat d) = length (trim_zeros (format_nat d)) + k"
proof -
  let ?t = "trim_zeros (format_nat d)"
  obtain k where k: "format_nat d = ?t @ replicate k zero_char" using trim_zeros_append by blast
  have "digits_val (format_nat d) = digits_val ?t * 10 ^ k"
    by (subst k) (simp add: digits_val_append)
  then have v: "d = digits_val ?t * 10 ^ k" by simp
  have "?t \<noteq> []" using v assms by (auto simp: digits_val_def)
  moreover have "hd ?t \<noteq> zero_char"
    using format_nat_head [OF assms] k \<open>?t \<noteq> []\<close> by (metis hd_append2)
  moreover have "all_digits (format_nat d)" by (simp add: all_digits_def format_nat_digits)
  then have "all_digits ?t" using k by (metis all_digits_simps(3))
  moreover have "length (format_nat d) = length ?t + k" by (subst k) simp
  ultimately show ?thesis using that v by blast
qed

section \<open>The scanner\<close>

lemma scan_zeros:
  "fs_digits st = 0 \<Longrightarrow>
   scan_mantissa 10 (replicate k zero_char @ cs) st =
   scan_mantissa 10 cs (st\<lparr>fs_sawdigits := fs_sawdigits st \<or> 0 < k, fs_point := fs_point st - int k\<rparr>)"
proof (induction k arbitrary: st)
  case (Suc k)
  from Suc.IH [of "st\<lparr>fs_sawdigits := True, fs_point := fs_point st - 1\<rparr>"] Suc.prems show ?case
    by (simp add: base_digit_def is_digit_char_def digit_val_def algebra_simps)
qed simp

lemma scan_digits:
  "all_digits ds \<Longrightarrow> 0 < fs_digits st \<or> (ds \<noteq> [] \<longrightarrow> hd ds \<noteq> zero_char) \<Longrightarrow>
   scan_mantissa 10 (ds @ cs) st =
   scan_mantissa 10 cs (st\<lparr>fs_sawdigits := fs_sawdigits st \<or> ds \<noteq> [], fs_digits := fs_digits st + length ds,
     fs_mantissa := fs_mantissa st * 10 ^ length ds + digits_val ds\<rparr>)"
proof (induction ds arbitrary: st)
  case (Cons c ds)
  have c: "is_digit_char c" "c \<noteq> CHR ''_''" "c \<noteq> CHR ''.''"
    using Cons.prems(1) by (auto simp: is_digit_char_def)
  have nz: "\<not> (digit_val c = 0 \<and> fs_digits st = 0)"
  proof
    assume "digit_val c = 0 \<and> fs_digits st = 0"
    then have "digit_val c = 0" "c \<noteq> zero_char" using Cons.prems(2) by auto
    then have "(of_char c :: nat) = of_char zero_char"
      using c(1) by (auto simp: digit_val_def is_digit_char_def)
    then have "c = zero_char" by (metis of_char_eq_iff)
    with \<open>c \<noteq> zero_char\<close> show False by contradiction
  qed
  let ?st = "st\<lparr>fs_sawdigits := True, fs_digits := fs_digits st + 1, fs_mantissa := fs_mantissa st * 10 + digit_val c\<rparr>"
  have "scan_mantissa 10 ((c # ds) @ cs) st = scan_mantissa 10 (ds @ cs) ?st"
    using c nz by (auto simp: base_digit_def)
  also have "\<dots> = scan_mantissa 10 cs (?st\<lparr>fs_sawdigits := True, fs_digits := fs_digits ?st + length ds,
     fs_mantissa := fs_mantissa ?st * 10 ^ length ds + digits_val ds\<rparr>)"
    using Cons.IH [of ?st] Cons.prems(1) by simp
  finally show ?case by (simp add: digits_val_Cons algebra_simps)
qed (simp add: digits_val_def)

lemma scan_point:
  "\<not> fs_sawdot st \<Longrightarrow>
   scan_mantissa 10 (CHR ''.'' # cs) st = scan_mantissa 10 cs (st\<lparr>fs_sawdot := True, fs_point := int (fs_digits st)\<rparr>)"
  by simp

lemma scan_exponent_digits:
  "all_digits ds \<Longrightarrow> a * 10 ^ length ds + digits_val ds < 10000 \<Longrightarrow>
   scan_exponent ds a us = (a * 10 ^ length ds + digits_val ds, us, [])"
proof (induction ds arbitrary: a)
  case (Cons c ds)
  have "c \<noteq> CHR ''_''" using Cons.prems(1) by (auto simp: is_digit_char_def)
  moreover have le: "a * 10 ^ length (c # ds) + digits_val (c # ds) =
      (a * 10 + digit_val c) * 10 ^ length ds + digits_val ds"
    by (simp add: digits_val_Cons algebra_simps)
  moreover have "a * 1 \<le> a * 10 ^ length (c # ds)" by (rule mult_le_mono2) simp
  then have "a < 10000" using Cons.prems(2) by linarith
  ultimately show ?case using Cons.IH [of "a * 10 + digit_val c"] Cons.prems by simp
qed (simp add: digits_val_def)

section \<open>Reading the two notations\<close>

definition scan_start :: float_scan where
  "scan_start = \<lparr>fs_mantissa = 0, fs_digits = 0, fs_point = 0, fs_sawdot = False, fs_sawdigits = False,
     fs_underscores = False\<rparr>"

text \<open>The decimal exponent of the last digit of a finished scan.\<close>

definition scan_scale :: "float_scan \<Rightarrow> int" where
  "scan_scale st = (if fs_sawdot st then fs_point st else int (fs_digits st)) - int (fs_digits st)"

definition clean_scan :: "float_scan \<Rightarrow> bool" where
  "clean_scan st \<longleftrightarrow> fs_sawdigits st \<and> \<not> fs_underscores st"

lemma scan_end: "scan_mantissa 10 [] st = (st, [])"
  by simp

lemma scan_exponent_mark: "scan_mantissa 10 (exponent_text e) st = (st, exponent_text e)"
  by (simp add: exponent_text_def base_digit_def is_digit_char_def to_lower_def Let_def)

lemma scan_positional:
  assumes "ds \<noteq> []" "all_digits ds" "hd ds \<noteq> zero_char"
  obtains st where "scan_mantissa 10 (positional ds dp) scan_start = (st, [])" "clean_scan st"
    "scaled_bits 10 (fs_mantissa st) (scan_scale st) = scaled_bits 10 (digits_val ds) (dp - int (length ds))"
proof -
  consider (small) "dp \<le> 0" | (inside) "0 < dp" "nat dp < length ds" | (large) "0 < dp" "length ds \<le> nat dp"
    by linarith
  then show ?thesis
  proof cases
    case small
    let ?st = "scan_start\<lparr>fs_sawdigits := True, fs_sawdot := True, fs_point := dp, fs_digits := length ds,
        fs_mantissa := digits_val ds\<rparr>"
    have "positional ds dp = replicate 1 zero_char @ CHR ''.'' # replicate (nat (- dp)) zero_char @ ds @ []"
      using small by (simp add: positional_def)
    then have "scan_mantissa 10 (positional ds dp) scan_start = (?st, [])"
      using small assms unfolding scan_start_def
      by (simp only: scan_zeros [where k = 1] float_scan.simps)
        (simp add: scan_zeros scan_digits [where cs = "[]", simplified])
    then show ?thesis using that [of ?st] small
      by (simp add: clean_scan_def scan_scale_def scan_start_def)
  next
    case inside
    let ?k = "nat dp"
    let ?st = "scan_start\<lparr>fs_sawdigits := True, fs_sawdot := True, fs_point := dp, fs_digits := length ds,
        fs_mantissa := digits_val ds\<rparr>"
    have split: "all_digits (take ?k ds)" "all_digits (drop ?k ds)" "take ?k ds \<noteq> []" "hd (take ?k ds) \<noteq> zero_char"
      using assms inside append_take_drop_id [of ?k ds] all_digits_simps(3) [of "take ?k ds" "drop ?k ds"] by auto
    have v: "digits_val (take ?k ds) * 10 ^ (length ds - ?k) + digits_val (drop ?k ds) = digits_val ds"
      using digits_val_append [of "take ?k ds" "drop ?k ds"] by simp
    have "positional ds dp = take ?k ds @ CHR ''.'' # drop ?k ds"
      using inside by (simp add: positional_def)
    moreover have "scan_mantissa 10 (take ?k ds @ CHR ''.'' # drop ?k ds) scan_start = (?st, [])"
      using scan_digits [OF split(1), of scan_start "CHR ''.'' # drop ?k ds"] split(3,4) inside v
      by (simp del: scan_mantissa.simps(2)
        add: scan_point scan_start_def min_def scan_digits [OF split(2), where cs = "[]", simplified])
    ultimately have "scan_mantissa 10 (positional ds dp) scan_start = (?st, [])" by simp
    then show ?thesis using that [of ?st] inside
      by (simp add: clean_scan_def scan_scale_def scan_start_def)
  next
    case large
    let ?z = "nat dp - length ds"
    let ?st = "scan_start\<lparr>fs_sawdigits := True, fs_digits := nat dp, fs_mantissa := digits_val ds * 10 ^ ?z\<rparr>"
    have "positional ds dp = ds @ replicate ?z zero_char"
      using large by (simp add: positional_def)
    moreover have "scan_mantissa 10 (ds @ replicate ?z zero_char) scan_start = (?st, [])"
      using scan_digits [of "ds @ replicate ?z zero_char" scan_start "[]"] assms large
      by (simp add: scan_start_def digits_val_append)
    ultimately have "scan_mantissa 10 (positional ds dp) scan_start = (?st, [])" by simp
    moreover have "scaled_bits 10 (digits_val ds * 10 ^ ?z) 0 = scaled_bits 10 (digits_val ds) (dp - int (length ds))"
      using scaled_bits_shift [of "digits_val ds" ?z "int ?z"] large by (simp add: of_nat_diff)
    ultimately show ?thesis using that [of ?st]
      by (simp add: clean_scan_def scan_scale_def scan_start_def)
  qed
qed

lemma scan_scientific:
  assumes "ds \<noteq> []" "all_digits ds" "hd ds \<noteq> zero_char"
  obtains st where "scan_mantissa 10 (scientific ds e) scan_start = (st, exponent_text e)" "clean_scan st"
    "fs_mantissa st = digits_val ds" "scan_scale st = 1 - int (length ds)"
proof -
  obtain c cs where ds: "ds = [c] @ cs" using assms(1) by (cases ds) auto
  have c: "all_digits [c]" "all_digits cs" "hd [c] \<noteq> zero_char" using assms(2,3) ds by auto
  show ?thesis
  proof (cases "cs = []")
    case True
    let ?st = "scan_start\<lparr>fs_sawdigits := True, fs_digits := 1, fs_mantissa := digits_val ds\<rparr>"
    have "scientific ds e = [c] @ exponent_text e" using True ds by (simp add: scientific_def)
    then have "scan_mantissa 10 (scientific ds e) scan_start = (?st, exponent_text e)"
      using scan_digits [OF c(1), of scan_start "exponent_text e"] c(3) True ds
      by (simp only: scan_exponent_mark) (simp add: scan_start_def)
    then show ?thesis using that [of ?st] True ds by (simp add: clean_scan_def scan_scale_def scan_start_def)
  next
    case False
    let ?st = "scan_start\<lparr>fs_sawdigits := True, fs_sawdot := True, fs_point := 1, fs_digits := length ds,
        fs_mantissa := digits_val ds\<rparr>"
    have s: "scientific ds e = [c] @ CHR ''.'' # cs @ exponent_text e" using False ds by (simp add: scientific_def)
    have v: "digits_val ds = digits_val [c] * 10 ^ length cs + digits_val cs"
      using digits_val_append [of "[c]" cs] ds by simp
    note v' = v [unfolded ds append_Cons append_Nil]
    have "scan_mantissa 10 (scientific ds e) scan_start = (?st, exponent_text e)"
      unfolding s using scan_digits [OF c(1), of scan_start "CHR ''.'' # cs @ exponent_text e"] c(3)
      by (simp del: scan_mantissa.simps(2) add: scan_point scan_start_def scan_digits [OF c(2)] scan_exponent_mark ds v')
    then show ?thesis using that [of ?st] ds by (simp add: clean_scan_def scan_scale_def scan_start_def)
  qed
qed

section \<open>Reading back\<close>

lemma exponent_text_scan:
  assumes "\<bar>e\<bar> < 9000"
  shows "exponent_text e \<noteq> []" "to_lower (hd (exponent_text e)) = CHR ''e''"
    "tl (exponent_text e) \<noteq> []"
    "hd (tl (exponent_text e)) = (if e < 0 then CHR ''-'' else CHR ''+'')"
    "tl (tl (exponent_text e)) \<noteq> []" "is_digit_char (hd (tl (tl (exponent_text e))))"
    "scan_exponent (tl (tl (exponent_text e))) 0 us = (nat \<bar>e\<bar>, us, [])"
proof -
  let ?d = "pad_zeros 2 (format_nat (nat \<bar>e\<bar>))"
  have d: "all_digits ?d" using format_nat_digits by (simp add: pad_zeros_def all_digits_def [of "format_nat _"])
  have v: "digits_val ?d = nat \<bar>e\<bar>" by (simp add: pad_zeros_def digits_val_append)
  have n: "?d \<noteq> []" by (simp add: pad_zeros_def)
  show "exponent_text e \<noteq> []" "to_lower (hd (exponent_text e)) = CHR ''e''" "tl (exponent_text e) \<noteq> []"
    "hd (tl (exponent_text e)) = (if e < 0 then CHR ''-'' else CHR ''+'')" "tl (tl (exponent_text e)) \<noteq> []"
    using n by (simp_all add: exponent_text_def to_lower_def Let_def)
  show "is_digit_char (hd (tl (tl (exponent_text e))))"
    using n d by (cases ?d) (simp_all add: exponent_text_def)
  show "scan_exponent (tl (tl (exponent_text e))) 0 us = (nat \<bar>e\<bar>, us, [])"
    using scan_exponent_digits [OF d, of 0 us] v assms by (simp add: exponent_text_def)
qed

lemma digit_not_special:
  assumes "is_digit_char c"
  shows "parse_special (c # b) = None" "parse_special (CHR ''-'' # c # b) = None" "c \<noteq> CHR ''-''" "c \<noteq> CHR ''+''"
proof -
  have "to_lower c = c" "c \<noteq> CHR ''i''" "c \<noteq> CHR ''n''" "c \<noteq> CHR ''-''" "c \<noteq> CHR ''+''"
    using assms by (auto simp: is_digit_char_def to_lower_def Let_def)
  then show "parse_special (c # b) = None" "parse_special (CHR ''-'' # c # b) = None" "c \<noteq> CHR ''-''" "c \<noteq> CHR ''+''"
    by (auto simp: parse_special_def Let_def to_lower_def)
qed

definition float_sign :: "bool \<Rightarrow> string" where
  "float_sign neg = (if neg then ''-'' else [])"

lemma parse_float_body:
  assumes "b \<noteq> []" "is_digit_char (hd b)" "hd b = zero_char \<Longrightarrow> length b \<le> 2 \<or> b ! 1 = CHR ''.''"
    and scan: "scan_mantissa 10 b scan_start = (st, rest)" "clean_scan st"
    and rest: "rest = [] \<and> ex = 0 \<or> rest = exponent_text ex \<and> \<bar>ex\<bar> < 9000"
  shows "parse_float (float_sign neg @ b) = finish_float neg (scaled_bits 10 (fs_mantissa st) (scan_scale st + ex))"
proof -
  obtain c cs where b: "b = c # cs" using assms(1) by (cases b) auto
  have c: "is_digit_char c" using assms(2) b by simp
  have hex: "(2 < length b \<and> hd b = zero_char \<and> to_lower (b ! 1) = CHR ''x'') = False"
    using assms(3) by (auto simp: to_lower_def)
  have special: "parse_special (float_sign neg @ b) = None"
    using digit_not_special [OF c] by (simp add: float_sign_def b)
  have sign: "(float_sign neg @ b \<noteq> [] \<and> hd (float_sign neg @ b) = CHR ''-'') = neg"
    "(if float_sign neg @ b \<noteq> [] \<and> (hd (float_sign neg @ b) = CHR ''+'' \<or> hd (float_sign neg @ b) = CHR ''-'')
      then tl (float_sign neg @ b) else float_sign neg @ b) = b"
    using digit_not_special [OF c] by (auto simp: float_sign_def b)
  note start = scan(1) [unfolded scan_start_def]
  have clean: "fs_sawdigits st = True" "fs_underscores st = False" using scan(2) by (auto simp: clean_scan_def)
  note head = parse_float_def special option.case Let_def sign hex if_False if_True start prod.case clean simp_thms
  from rest show ?thesis
  proof
    assume "rest = [] \<and> ex = 0"
    then show ?thesis
      unfolding head by (simp add: scan_scale_def)
  next
    assume r: "rest = exponent_text ex \<and> \<bar>ex\<bar> < 9000"
    note e = exponent_text_scan [OF conjunct2 [OF r]]
    show ?thesis
      unfolding head using r e by (auto simp add: scan_scale_def)
  qed
qed

lemma positional_head:
  assumes "ds \<noteq> []" "all_digits ds" "hd ds \<noteq> zero_char"
  shows "positional ds dp \<noteq> []" "is_digit_char (hd (positional ds dp))"
    "hd (positional ds dp) = zero_char \<Longrightarrow> positional ds dp ! 1 = CHR ''.''"
  using assms by (cases ds; auto simp: positional_def is_digit_char_def take_Cons')+

lemma scientific_head:
  assumes "all_digits ds" "ds \<noteq> []"
  shows "scientific ds e \<noteq> []" "hd (scientific ds e) = hd ds" "is_digit_char (hd ds)"
  using assms by (cases ds; simp add: scientific_def)+

lemma finish_magnitude:
  assumes "f_finite x"
  shows "finish_float (f_negative x) (magnitude_bits x) = Ok x"
  using magnitude_bits_less [OF assms] f_pack_self [of x]
  by (simp only: finish_float_def not_le [symmetric] if_False f_pack_def magnitude_bits_def)

lemma parse_float_format_finite:
  assumes "f_finite x" "f_mag x \<noteq> 0"
  shows "parse_float (format_g x) = Ok x"
proof -
  obtain d e where d: "shortest x = (d, e)" "scaled_bits 10 d e = magnitude_bits x" "0 < d"
    "\<bar>int (length (format_nat d)) + e\<bar> < 8000"
    using shortest_reads_back [OF assms] by blast
  let ?ds = "trim_zeros (format_nat d)" and ?dp = "int (length (format_nat d)) + e"
  obtain k where k: "?ds \<noteq> []" "all_digits ?ds" "hd ?ds \<noteq> zero_char" "d = digits_val ?ds * 10 ^ k"
    "length (format_nat d) = length ?ds + k"
    using trimmed_digits [OF d(3)] by blast
  have "scaled_bits 10 (digits_val ?ds) (e + int k) = scaled_bits 10 d e"
    using scaled_bits_shift [of "digits_val ?ds" k "e + int k"] k(4) by simp
  then have bits: "scaled_bits 10 (digits_val ?ds) (?dp - int (length ?ds)) = magnitude_bits x"
    using d(2) k(5) by (simp add: algebra_simps)
  let ?body = "if ?dp - 1 < -4 \<or> 6 \<le> ?dp - 1 then scientific ?ds (?dp - 1) else positional ?ds ?dp"
  have "format_g x = float_sign (f_negative x) @ ?body"
    using assms d(1) by (simp add: format_g_def float_sign_def f_finite_def f_is_nan_def f_is_inf_def Let_def)
  moreover have "parse_float (float_sign (f_negative x) @ ?body) = finish_float (f_negative x) (magnitude_bits x)"
  proof (cases "?dp - 1 < -4 \<or> 6 \<le> ?dp - 1")
    case True
    note h = scientific_head [OF k(2,1)]
    obtain st where st: "scan_mantissa 10 (scientific ?ds (?dp - 1)) scan_start = (st, exponent_text (?dp - 1))"
      "clean_scan st" "fs_mantissa st = digits_val ?ds" "scan_scale st = 1 - int (length ?ds)"
      using scan_scientific [OF k(1-3)] by blast
    have "parse_float (float_sign (f_negative x) @ scientific ?ds (?dp - 1)) =
        finish_float (f_negative x) (scaled_bits 10 (fs_mantissa st) (scan_scale st + (?dp - 1)))"
      using h k(3) d(4) by (intro parse_float_body [OF _ _ _ st(1,2)]) auto
    moreover have "scan_scale st + (?dp - 1) = ?dp - int (length ?ds)" using st(4) by simp
    ultimately show ?thesis using True st(3) bits by simp
  next
    case False
    note h = positional_head [OF k(1-3), of ?dp]
    obtain st where st: "scan_mantissa 10 (positional ?ds ?dp) scan_start = (st, [])" "clean_scan st"
      "scaled_bits 10 (fs_mantissa st) (scan_scale st) = scaled_bits 10 (digits_val ?ds) (?dp - int (length ?ds))"
      using scan_positional [OF k(1-3)] by blast
    have "parse_float (float_sign (f_negative x) @ positional ?ds ?dp) =
        finish_float (f_negative x) (scaled_bits 10 (fs_mantissa st) (scan_scale st + 0))"
      using h by (intro parse_float_body [OF _ _ _ st(1,2)]) auto
    with False st(3) bits show ?thesis by simp
  qed
  ultimately show ?thesis using finish_magnitude [OF assms(1)] by simp
qed

lemma parse_float_format_zero:
  assumes "f_finite x" "f_mag x = 0"
  shows "parse_float (format_g x) = Ok x"
proof -
  have "magnitude_bits x = 0" if "f_mag x = 0"
  proof -
    from that magnitude_bits_fields [of x] show ?thesis by (auto simp: f_mag_def f_mant_def split: if_splits)
  qed
  with assms finish_magnitude [OF assms(1)] have f: "finish_float (f_negative x) 0 = Ok x" by simp
  have "format_g x = float_sign (f_negative x) @ [zero_char]"
    using assms by (simp add: format_g_def float_sign_def f_finite_def f_is_nan_def f_is_inf_def)
  moreover have "parse_float (float_sign (f_negative x) @ [zero_char]) =
      finish_float (f_negative x) (scaled_bits 10 0 0)"
    using parse_float_body [of "[zero_char]" "scan_start\<lparr>fs_sawdigits := True, fs_point := -1\<rparr>" "[]" 0]
    by (simp add: is_digit_char_def scan_start_def base_digit_def digit_val_def clean_scan_def scan_scale_def)
  ultimately show ?thesis using f by (simp add: scaled_bits_fraction round_scaled_def)
qed

lemma parse_special_names:
  "parse_special ''NaN'' = Some f_nan" "parse_special ''+Inf'' = Some (f_pack False inf_bits)"
  "parse_special ''-Inf'' = Some (f_pack True inf_bits)"
  by (simp_all add: parse_special_def to_lower_def Let_def char_of_def bit_iff_odd)

text \<open>Every double but a NaN is read back exactly; a NaN is read back as the canonical one.\<close>

lemma parse_float_format_g:
  "parse_float (format_g x) = Ok (if f_is_nan x then f_nan else x)"
proof -
  consider (nan) "f_is_nan x" | (inf) "f_is_inf x" "\<not> f_is_nan x"
    | (zero) "f_finite x" "\<not> f_is_nan x" "f_mag x = 0" | (other) "f_finite x" "\<not> f_is_nan x" "f_mag x \<noteq> 0"
    by (cases "f_exponent x = 2047"; cases "f_fraction x = 0"; cases "f_mag x = 0")
      (simp_all add: f_finite_def f_is_nan_def f_is_inf_def)
  then show ?thesis
  proof cases
    case nan
    then show ?thesis by (simp add: format_g_def parse_float_def parse_special_names)
  next
    case inf
    with magnitude_bits_fields [of x] have "magnitude_bits x = inf_bits" by (simp add: f_is_inf_def f_is_nan_def inf_bits_def)
    with f_pack_self [of x] have "f_pack (f_negative x) inf_bits = x"
      by (simp only: f_pack_def magnitude_bits_def)
    with inf show ?thesis
      by (cases "f_negative x") (simp_all add: format_g_def parse_float_def parse_special_names)
  qed (simp_all add: parse_float_format_finite parse_float_format_zero)
qed

end
