(* ===== verification/NumberText.thy ===== *)
theory NumberText
  imports Format
begin

text \<open>
  The characters of printed numbers: none of them is a control byte that a CSV reader or the tabwriter interprets.
\<close>

definition number_chars :: "char set" where
  "number_chars = {c. is_digit_char c} \<union> set ''.e+-NaInf''"

lemma control_not_in_number: "c \<in> number_chars \<Longrightarrow> c \<notin> {CHR 0x09, CHR 0x0A, CHR 0x0B, CHR 0x0C, CHR 0x0D, CHR 0xFF}"
  by (auto simp: number_chars_def is_digit_char_def)

lemma format_nat_chars: "set (format_nat n) \<subseteq> number_chars"
  using format_nat_digits [of n] by (auto simp: list_all_iff number_chars_def)

lemma zero_number_char: "CHR ''0'' \<in> number_chars"
  by (simp add: number_chars_def is_digit_char_def)

lemma format_int_chars: "set (format_int i) \<subseteq> number_chars" "format_int i \<noteq> []"
  using format_nat_chars by (auto simp: format_int_def) (simp_all add: number_chars_def)

lemma format_fixed_chars: "set (format_fixed prec x) \<subseteq> number_chars"
  using format_nat_chars zero_number_char
  by (auto simp: format_fixed_def pad_zeros_def Let_def) (auto simp: number_chars_def)

text \<open>Sizes end in a unit.\<close>

lemma humanBytes_chars: "set (humanBytes n) \<subseteq> number_chars \<union> set '' BKMGT''"
  using format_int_chars(1) [of "sint n"] format_fixed_chars [of 1]
  by (auto simp: humanBytes_def in_unit_def)

lemma control_not_in_size:
  "c \<in> set (humanBytes n) \<Longrightarrow> c \<notin> {CHR 0x09, CHR 0x0A, CHR 0x0B, CHR 0x0C, CHR 0x0D, CHR 0xFF}"
  using humanBytes_chars [of n] control_not_in_number [of c] by auto

end
