(* ===== verification/Export.thy ===== *)
theory Export
  imports LoadQuery RenderFacts CsvFacts FloatRoundtrip NumberText
begin

text \<open>
  \<open>query --format csv\<close> followed by \<open>load\<close>: the printed values parse back to the values, so exporting a
  segment and loading the text again gives a segment that answers every query in the same way.
\<close>

section \<open>Printed values\<close>

text \<open>What survives a round trip through CSV: doubles other than NaN, strings without a carriage return.\<close>

fun exportable :: "go_value \<Rightarrow> bool" where
  "exportable (VInt64 x) = True"
| "exportable (VFloat64 x) = (\<not> f_is_nan x)"
| "exportable (VString s) = (return_char \<notin> set s)"
| "exportable _ = False"

lemma trim_zeros_chars: "set (trim_zeros s) \<subseteq> set s"
  unfolding trim_zeros_def by (auto dest: set_dropWhileD)

lemma exponent_text_chars: "set (exponent_text e) \<subseteq> number_chars"
  using format_nat_chars [of "nat \<bar>e\<bar>"] zero_number_char
  by (auto simp: exponent_text_def pad_zeros_def) (simp_all add: number_chars_def)

lemma positional_chars: "set ds \<subseteq> number_chars \<Longrightarrow> set (positional ds dp) \<subseteq> number_chars"
  using zero_number_char
  by (auto simp: positional_def dest: in_set_takeD in_set_dropD) (auto simp: number_chars_def)

lemma scientific_chars: "ds \<noteq> [] \<Longrightarrow> set ds \<subseteq> number_chars \<Longrightarrow> set (scientific ds e) \<subseteq> number_chars"
  using exponent_text_chars [of e]
  by (cases ds) (auto simp: scientific_def number_chars_def)

lemma format_g_chars: "set (format_g x) \<subseteq> number_chars"
proof (cases "f_finite x \<and> f_mag x \<noteq> 0")
  case True
  then obtain d e where d: "shortest x = (d, e)" "0 < d"
    using shortest_reads_back [of x] by blast
  let ?ds = "trim_zeros (format_nat d)"
  have ds: "?ds \<noteq> []" "set ?ds \<subseteq> number_chars"
    using trimmed_digits [OF d(2)] trim_zeros_chars format_nat_chars by blast+
  have "set (if f_negative x then ''-'' else []) \<subseteq> number_chars" by (auto simp: number_chars_def)
  with True d(1) positional_chars [OF ds(2)] scientific_chars [OF ds] show ?thesis
    by (auto simp: format_g_def f_finite_def f_is_nan_def f_is_inf_def Let_def)
next
  case False
  then show ?thesis
    by (auto simp: format_g_def f_finite_def f_is_nan_def f_is_inf_def number_chars_def is_digit_char_def)
qed

lemma format_g_nonempty: "format_g x \<noteq> []"
proof
  assume "format_g x = []"
  with parse_float_format_g [of x] show False by (simp add: parse_float_def parse_special_def Let_def)
qed

text \<open>The contract of a number format: what is printed is read back, and has neither a separator nor a control byte.\<close>

locale number_format =
  fixes print :: "'a \<Rightarrow> string"
    and read :: "string \<Rightarrow> (num_error, 'a) outcome"
    and good :: "'a \<Rightarrow> bool"
  assumes reads_back: "good x \<Longrightarrow> read (print x) = Ok x"
    and nonempty: "print x \<noteq> []"
    and chars: "set (print x) \<subseteq> number_chars"
begin

lemma one_line: "return_char \<notin> set (print x)"
  using chars [of x] control_not_in_number [of return_char] by blast

lemma print_inject: "good x \<Longrightarrow> good y \<Longrightarrow> print x = print y \<longleftrightarrow> x = y"
  by (metis outcome.inject(1) reads_back)

end

interpretation int64_text: number_format "\<lambda>x :: int64. format_int (sint x)" parse_int "\<lambda>_. True"
  by unfold_locales (simp_all add: parse_int_format_int format_int_chars)

interpretation float64_text: number_format format_g parse_float "\<lambda>x. \<not> f_is_nan x"
  by unfold_locales (simp_all add: parse_float_format_g format_g_nonempty format_g_chars)

lemma formatValue_plain: "exportable v \<Longrightarrow> return_char \<notin> set (formatValue other v)"
  by (cases v) (simp_all add: formatValue_def int64_text.one_line float64_text.one_line)

text \<open>The text of a value, read under the type of its column, is the value.\<close>

lemma parse_formatValue:
  "exportable v \<Longrightarrow> has_type v t \<Longrightarrow> parseFieldByType (formatValue other v) t = Ok v"
  by (cases t) (auto simp: parseFieldByType_def formatValue_def int64_text.reads_back int64_text.nonempty
      float64_text.reads_back float64_text.nonempty)

section \<open>The rendered text\<close>

definition export_records :: "(string \<Rightarrow> string) \<Rightarrow> schema \<Rightarrow> row list \<Rightarrow> string list list" where
  "export_records other sc rows = column_names sc # map (map (formatValue other)) rows"

definition export_text :: "(string \<Rightarrow> string) \<Rightarrow> schema \<Rightarrow> row list \<Rightarrow> string" where
  "export_text other sc rows = concat (map csv_Write (export_records other sc rows))"

lemma renderCSV_rows:
  assumes "\<forall>row \<in> set rows. length row = length (column_names sc)"
  shows "renderCSV other \<lparr>res_Columns = column_names sc, res_Rows = rows, res_isAggregate = agg\<rparr> =
    Ok (export_text other sc rows)"
  using assms renderCSV_records [of "\<lparr>res_Columns = column_names sc, res_Rows = rows, res_isAggregate = agg\<rparr>" other]
  by (simp add: export_text_def export_records_def result_lines_def rectangular_def)

section \<open>The full table of a segment\<close>

definition star_query :: query where
  "star_query = empty_query\<lparr>q_Projection := ProjStar\<rparr>"

lemma parse_star: "Parse ''SELECT *'' = Ok star_query"
proof -
  have "lex ''SELECT *'' = Ok [tok TkKeyword ''SELECT'' 0, tok TkStar ''*'' 7, tok TkEOF [] 8]"
    by (simp add: lex_eval)
  then show ?thesis by (simp add: parse_eval star_query_def)
qed

lemma star_outcome:
  assumes "distinct (column_names sc)" "\<forall>row \<in> set rows. length row = length (schema_columns sc)"
  shows "query_outcome sc star_query rows =
    Ok \<lparr>res_Columns = column_names sc, res_Rows = rows, res_isAggregate = False\<rparr>"
proof -
  have cols: "projection_columns sc star_query = column_names sc"
    by (simp add: projection_columns_def star_query_def column_names_def)
  have "check_projection sc (column_names sc) = Ok ()"
    using ColumnIndex_None_iff [of sc] check_projection_Ok_iff [of sc "column_names sc"] by blast
  moreover have "map (\<lambda>n. cell sc n row) (column_names sc) = row" if "row \<in> set rows" for row
    using that assms ColumnIndex_nth [OF assms(1)]
    by (intro nth_equalityI) (simp_all add: cell_def column_names_def)
  then have "map (\<lambda>r. map (\<lambda>n. cell sc n r) (column_names sc)) rows = rows"
    by (intro map_idI) simp
  moreover have "q_Projection star_query = ProjStar" "q_Where star_query = None"
    by (simp_all add: star_query_def empty_query_def)
  ultimately show ?thesis
    by (simp add: query_outcome_def cols check_where_def select_outcome_def selected_rows_def)
qed

section \<open>The header and the records of the text\<close>

text \<open>The specification that \<open>load\<close> needs for a schema.\<close>

definition specs_of :: "schema \<Rightarrow> col_spec list" where
  "specs_of sc = map (\<lambda>c. \<lparr>spec_name = col_name c, spec_typ = col_type c\<rparr>) (schema_columns sc)"

lemma specs_of_simps:
  "map spec_name (specs_of sc) = column_names sc" "length (specs_of sc) = length (schema_columns sc)"
  "lf_pk fl = schema_pk sc \<Longrightarrow> load_schema fl (specs_of sc) = sc"
proof -
  have "map (\<lambda>c. \<lparr>col_name = col_name c, col_type = col_type c\<rparr>) cs = cs" for cs :: "column list"
    by (rule map_idI) simp
  then show "lf_pk fl = schema_pk sc \<Longrightarrow> load_schema fl (specs_of sc) = sc"
    by (simp add: load_schema_def specs_of_def comp_def)
qed (simp_all add: specs_of_def column_names_def)

text \<open>
  A schema whose text survives: names that \<open>load\<close> reads back from a header and a specification, and types with
  a textual form.
\<close>

definition exportable_schema :: "schema \<Rightarrow> bool" where
  "exportable_schema sc \<longleftrightarrow>
     Validate sc = Ok () \<and> known_types (schema_columns sc) \<and>
     (\<forall>n \<in> set (column_names sc). plain_name n \<and> return_char \<notin> set n)"

text \<open>Rows that conform to the schema; a record of one empty field would be read as an empty line.\<close>

definition exportable_rows :: "schema \<Rightarrow> row list \<Rightarrow> bool" where
  "exportable_rows sc rows \<longleftrightarrow>
     (\<forall>row \<in> set rows. row_conforms sc row \<and> list_all exportable row \<and> row \<noteq> [VString []])"

lemma index_header_other: "n \<notin> TrimSpace ` set hs \<Longrightarrow> index_header i hs m n = m n"
  by (induction hs arbitrary: i m) auto

lemma index_header_nth:
  "distinct hs \<Longrightarrow> \<forall>h \<in> set hs. TrimSpace h = h \<Longrightarrow> k < length hs \<Longrightarrow>
   index_header i hs m (hs ! k) = Some (i + k)"
proof (induction hs arbitrary: i k m)
  case (Cons h hs)
  have "h \<notin> TrimSpace ` set hs" using Cons.prems(1,2) by auto
  with Cons index_header_other [of h hs "Suc i" "m(h \<mapsto> i)"] show ?case by (cases k) auto
qed simp

lemma column_positions_all:
  "\<forall>k < length cols. m (spec_name (cols ! k)) = Some (i + k) \<Longrightarrow>
   column_positions m cols = Ok [i..<i + length cols]"
proof (induction cols arbitrary: i)
  case (Cons c cols)
  from Cons.prems have "m (spec_name c) = Some i" by force
  moreover from Cons.prems have "\<forall>k < length cols. m (spec_name (cols ! k)) = Some (Suc i + k)" by force
  then have "column_positions m cols = Ok [Suc i..<Suc i + length cols]" by (rule Cons.IH)
  ultimately show ?case by (simp add: upt_conv_Cons del: upt_Suc)
qed simp

lemma header_positions:
  assumes "exportable_schema sc"
  shows "column_positions (index_header 0 (column_names sc) Map.empty) (specs_of sc) =
    Ok [0..<length (schema_columns sc)]"
proof -
  have "distinct (column_names sc)" "\<forall>h \<in> set (column_names sc). TrimSpace h = h"
    using assms by (auto simp: exportable_schema_def Validate_Ok_iff plain_name_def)
  note h = index_header_nth [OF this]
  have "spec_name (specs_of sc ! k) = column_names sc ! k" "k < length (column_names sc)"
    if "k < length (specs_of sc)" for k
    using that by (simp_all add: specs_of_def column_names_def)
  then show ?thesis
    using h column_positions_all [of "specs_of sc" _ 0] by (simp add: specs_of_simps(2))
qed

lemma plain_export_records:
  assumes "exportable_schema sc" "exportable_rows sc rows"
  shows "list_all plain_record (export_records other sc rows)"
proof -
  have "column_names sc \<noteq> []" "[] \<notin> set (column_names sc)"
    using assms(1) by (auto simp: exportable_schema_def Validate_Ok_iff column_names_def plain_name_def)
  then have "plain_record (column_names sc)"
    using assms(1) by (auto simp: plain_record_def exportable_schema_def)
  moreover have "plain_record (map (formatValue other) row)" if row: "row \<in> set rows" for row
  proof -
    have c: "row_conforms sc row" "list_all exportable row" "row \<noteq> [VString []]"
      using assms(2) row by (auto simp: exportable_rows_def)
    then have "length row = length (schema_columns sc)" by (simp add: conforms_length)
    then have "row \<noteq> []" using \<open>column_names sc \<noteq> []\<close> by (auto simp: column_names_def)
    moreover have "map (formatValue other) row \<noteq> [[]]"
    proof
      assume "map (formatValue other) row = [[]]"
      then obtain v where "row = [v]" "formatValue other v = []" by auto
      with c(2,3) format_int_chars(2) format_g_nonempty show False
        by (cases v) (auto simp: formatValue_def)
    qed
    ultimately show ?thesis
      using c(2) formatValue_plain [of _ other] by (auto simp: plain_record_def list_all_iff)
  qed
  ultimately show ?thesis by (auto simp: export_records_def list_all_iff)
qed

lemma row_of_export:
  assumes "row_conforms sc row" "list_all exportable row"
  shows "row_of_record (specs_of sc) [0..<length (schema_columns sc)] (map (formatValue other) row) = Some row"
proof -
  let ?cols = "schema_columns sc"
  have len: "length row = length ?cols" using assms(1) by (rule conforms_length)
  have "field_value (map (formatValue other) row) (specs_of sc ! k) k = Some (row ! k)" if "k < length ?cols" for k
  proof -
    have "has_type (row ! k) (col_type (?cols ! k))" "exportable (row ! k)"
      using assms that len by (auto simp: row_conforms_def list_all2_conv_all_nth list_all_length)
    with that len parse_formatValue [of "row ! k" _ other] show ?thesis by (simp add: field_value_def specs_of_def)
  qed
  then have "map2 (field_value (map (formatValue other) row)) (specs_of sc) [0..<length ?cols] = map Some row"
    using len by (intro nth_equalityI) (simp_all add: specs_of_simps(2))
  moreover have "those (map Some xs) = Some xs" for xs :: row by (induction xs) simp_all
  ultimately show ?thesis by (simp add: row_of_record_def)
qed

lemma parsed_rows_export:
  assumes "exportable_schema sc" "exportable_rows sc rows"
  shows "parsed_rows (specs_of sc) [0..<length (schema_columns sc)]
    \<lparr>cs_text = concat (map csv_Write (map (map (formatValue other)) rows)), cs_fails = False\<rparr> = rows"
proof -
  have "list_all plain_record (map (map (formatValue other)) rows)"
    using plain_export_records [OF assms, of other] by (simp add: export_records_def)
  note r = csv_records_written [OF this]
  have "List.map_filter (row_of_read (specs_of sc) [0..<length (schema_columns sc)]) (map Ok (map (map (formatValue other)) rows)) = rows"
    using assms(2) row_of_export [of sc _ other]
    by (induction rows) (auto simp: exportable_rows_def map_filter_simps row_of_read_def)
  with r show ?thesis by (simp only: parsed_rows_def)
qed

section \<open>The table that \<open>load\<close> builds again\<close>

text \<open>Buffers with the same schema and rows have the same payloads, so both fit the format.\<close>

lemma same_rows_payload:
  assumes "wf_buffer a" "wf_buffer b" "wb_schema a = wb_schema b" "buffer_rows a = buffer_rows b"
    and "j < length (schema_columns (wb_schema b))"
  shows "column_payload a (col_type (schema_columns (wb_schema b) ! j)) j =
    column_payload b (col_type (schema_columns (wb_schema b) ! j)) j"
proof -
  let ?t = "col_type (schema_columns (wb_schema b) ! j)"
  have "column_values a ?t j = column_values b ?t j"
    using column_of_buffer_rows [OF assms(1), of j] column_of_buffer_rows [OF assms(2), of j] assms(3-5) by simp
  moreover have "inj VInt64" "inj VFloat64" "inj VString" by (auto intro: injI)
  ultimately show ?thesis
    by (cases ?t) (auto simp: column_values_def column_payload_def inj_map_eq_map)
qed

lemma buffer_row_strings:
  assumes "row \<in> set (buffer_rows b)" "VString str \<in> set row" "wf_buffer b"
  shows "\<exists>i. str \<in> set (slice_at (wb_stringCols b) i)"
proof -
  from assms(1) obtain r where r: "r < wb_rows b" "row = map (\<lambda>col. col ! r) (buffer_columns b)"
    by (auto simp: buffer_rows_def rows_of_columns_def)
  with assms(2) obtain col where c: "col \<in> set (buffer_columns b)" "col ! r = VString str" by auto
  with r(1) assms(3) have "VString str \<in> set col" by (metis nth_mem wf_buffer_def)
  with c(1) show ?thesis
    by (auto simp: buffer_columns_def column_values_def split: column_type.splits)
qed

lemma flushable_same_rows:
  assumes "flushable t" "wf_table u" "tbl_schema u = tbl_schema t"
    and "buffer_rows (tbl_buf u) = buffer_rows (tbl_buf t)"
    and "\<And>i str. str \<in> set (slice_at (wb_stringCols (tbl_buf u)) i) \<Longrightarrow> length str < 2 ^ 64"
  shows "flushable u"
proof -
  let ?sc = "tbl_schema t"
  have t: "wb_schema (tbl_buf t) = ?sc" "wf_buffer (tbl_buf t)" "16 * int (wb_rows (tbl_buf t)) \<le> max_alloc"
    "sized_columns 0 (schema_columns ?sc) (tbl_buf t)"
    using assms(1) by (simp_all add: flushable_def writable_def)
  have u: "wb_schema (tbl_buf u) = ?sc" "wf_buffer (tbl_buf u)"
    using wf_table_buffer [OF assms(2)] assms(3) by simp_all
  have "wb_rows (tbl_buf u) = wb_rows (tbl_buf t)"
    using arg_cong [OF assms(4), of length] by simp
  moreover have "sized_columns 0 (schema_columns ?sc) (tbl_buf u)"
    using t(4) same_rows_payload [OF u(2) t(2)] assms(4) t(1) u(1) by (simp add: sized_columns_def)
  moreover have "wf_filter f" if "tbl_bloom u = Some f" for f
    using assms(2) that by (auto simp: wf_table_def dedup.good_def)
  ultimately show ?thesis
    using assms(1,3,5) u t by (simp add: flushable_def writable_def flush_opts_def)
qed

lemma buffer_rows_conform:
  assumes "wf_buffer b" "known_types (schema_columns (wb_schema b))"
  shows "\<forall>row \<in> set (buffer_rows b). row_conforms (wb_schema b) row"
proof
  let ?cols = "schema_columns (wb_schema b)"
  fix row assume "row \<in> set (buffer_rows b)"
  then obtain r where r: "r < wb_rows b" "row = map (\<lambda>col. col ! r) (buffer_columns b)"
    by (auto simp: buffer_rows_def rows_of_columns_def)
  have "has_type (row ! j) (col_type (?cols ! j))" if j: "j < length ?cols" for j
  proof -
    have "buffer_columns b ! j = column_values b (col_type (?cols ! j)) j"
      "buffer_columns b ! j \<in> set (buffer_columns b)"
      using j by (simp_all add: buffer_columns_def)
    moreover from this have "length (buffer_columns b ! j) = wb_rows b" using assms(1) by (simp add: wf_buffer_def)
    moreover have "?cols ! j \<in> set ?cols" using j by simp
    with assms(2) have "col_type (?cols ! j) \<in> {Int64, Float64, String}" by (simp add: known_types_def)
    ultimately show ?thesis using r j by (auto simp: column_values_def)
  qed
  then show "row_conforms (wb_schema b) row"
    using r(2) by (simp add: row_conforms_def list_all2_conv_all_nth)
qed

lemma prepare_export:
  assumes "exportable_schema sc" "lf_schema fl = spec_text (specs_of sc)" "lf_pk fl = schema_pk sc" "lf_noBloom fl"
  obtains tbl where "prepare_table p fl = Ok (specs_of sc, tbl)" "tbl_schema tbl = sc" "tbl_bloom tbl = None"
    "tbl_buf tbl = NewWriteBuffer sc"
proof -
  have v: "Validate sc = Ok ()" and k: "known_types (schema_columns sc)"
    and n: "\<forall>n \<in> set (column_names sc). plain_name n"
    using assms(1) by (auto simp: exportable_schema_def)
  have names: "map spec_name (specs_of sc) = column_names sc" by (rule specs_of_simps)
  have "specs_of sc \<noteq> []" "distinct (map spec_name (specs_of sc))" "schema_pk sc \<in> set (map spec_name (specs_of sc))"
    using v unfolding names Validate_Ok_iff by (auto simp: specs_of_def)
  note cols = this
  have "\<forall>c \<in> set (specs_of sc). plain_name (spec_name c) \<and> spec_typ c \<in> {Int64, Float64, String}"
    using n k by (auto simp: specs_of_def column_names_def known_types_def)
  from parse_specs_text [OF cols(1) this cols(2), of "{}" 0] spec_text_nonempty [OF cols(1)]
  have "parseSchemaSpec (lf_schema fl) = Ok (specs_of sc)" by (simp add: parseSchemaSpec_def assms(2))
  moreover obtain i where "PKIndex sc = int i" "i < length (schema_columns sc)"
    using PKIndex_valid [OF v] by metis
  ultimately show ?thesis
    using that v assms(3,4) cols(3) specs_of_simps(3) [OF assms(3)]
    by (simp add: prepare_table_def CreateTable_def load_options_def build_table_def Let_def fetch_def)
qed

lemma start_load_export:
  assumes "exportable_schema sc" "exportable_rows sc rows"
    and "le_open env (lf_csv fl) = Some \<lparr>cs_text = export_text other sc rows, cs_fails = False\<rparr>"
    and "lf_schema fl = spec_text (specs_of sc)" "lf_pk fl = schema_pk sc" "lf_noBloom fl"
  obtains st where "start_load env fl = Ok (specs_of sc, [0..<length (schema_columns sc)], st)"
    "tbl_schema (ls_table st) = sc" "tbl_bloom (ls_table st) = None" "tbl_buf (ls_table st) = NewWriteBuffer sc"
    "ls_source st = \<lparr>cs_text = concat (map csv_Write (map (map (formatValue other)) rows)), cs_fails = False\<rparr>"
proof -
  let ?text = "concat (map csv_Write (map (map (formatValue other)) rows))"
  obtain tbl where tbl: "prepare_table (le_platform env) fl = Ok (specs_of sc, tbl)" "tbl_schema tbl = sc"
    "tbl_bloom tbl = None" "tbl_buf tbl = NewWriteBuffer sc"
    using prepare_export [OF assms(1,4-6)] by blast
  have plain: "plain_record (column_names sc)" "list_all plain_record (map (map (formatValue other)) rows)"
    using plain_export_records [OF assms(1,2), of other] by (simp_all add: export_records_def)
  have "return_char \<notin> set ?text"
    using plain(2) return_char_csv_Write by (fastforce simp: list_all_iff plain_record_def)
  from csv_Read_written [OF plain(1) this]
  have "csv_Read \<lparr>cs_text = export_text other sc rows, cs_fails = False\<rparr> =
      (\<lparr>cs_text = ?text, cs_fails = False\<rparr>, Ok (column_names sc))"
    by (simp add: export_text_def export_records_def)
  with header_positions [OF assms(1)] tbl assms(3) show ?thesis
    using that by (simp add: start_load_def read_header_def)
qed

lemma reload_export:
  assumes "flushable t" "24 * int (length (buffer_rows (tbl_buf t))) \<le> max_alloc"
    and "exportable_schema (tbl_schema t)" "exportable_rows (tbl_schema t) (buffer_rows (tbl_buf t))"
    and "le_open env (lf_csv fl) =
      Some \<lparr>cs_text = export_text other (tbl_schema t) (buffer_rows (tbl_buf t)), cs_fails = False\<rparr>"
    and "all_flags fl" "lf_schema fl = spec_text (specs_of (tbl_schema t))" "lf_pk fl = schema_pk (tbl_schema t)"
    and "lf_noBloom fl"
    and "le_write env = buffer_write" "le_create env (lf_out fl) = Some []" "\<forall>w. le_close env w"
  shows "\<exists>res u. runLoad env (Some fl) = Some (Ok res) \<and> lr_code res = 0 \<and> lr_file res = Some (flushed u) \<and>
    flushable u \<and> tbl_schema u = tbl_schema t \<and> buffer_rows (tbl_buf u) = buffer_rows (tbl_buf t)"
proof -
  let ?sc = "tbl_schema t" and ?rows = "buffer_rows (tbl_buf t)"
  let ?cols = "specs_of ?sc" and ?idx = "[0..<length (schema_columns ?sc)]"
  obtain st where st: "start_load env fl = Ok (?cols, ?idx, st)" "tbl_schema (ls_table st) = ?sc"
    "tbl_bloom (ls_table st) = None" "tbl_buf (ls_table st) = NewWriteBuffer ?sc"
    "ls_source st = \<lparr>cs_text = concat (map csv_Write (map (map (formatValue other)) ?rows)), cs_fails = False\<rparr>"
    using start_load_export [OF assms(3,4,5,7,8,9)] by blast
  have rows: "parsed_rows ?cols ?idx (ls_source st) = ?rows"
    unfolding st(5) by (rule parsed_rows_export [OF assms(3,4)])
  have "\<not> cs_fails (ls_source st)" by (simp add: st(5))
  from load_loop_fresh [OF st(1) disjI1 [OF assms(9)] this] obtain st' results where l:
    "load_loop ?cols ?idx st = Some (Ok st')"
    "insert_all (ls_table st) ?rows = Ok (ls_table st', results)"
    "wf_table (ls_table st')" "tbl_schema (ls_table st') = load_schema fl ?cols"
    "buffer_rows (tbl_buf (ls_table st')) = accepted_rows ?rows results"
    unfolding rows by metis
  have sc: "load_schema fl ?cols = ?sc" using assms(8) by (rule specs_of_simps(3))
  have "wf_table (ls_table st)"
    using start_load_ready(1) [OF st(1) disjI1 [OF assms(9)]] by (simp add: load_ready_def)
  from insert_all_unfiltered [OF this st(3) l(2)] have "accepted_rows ?rows results = ?rows"
    using assms(4) st(2) by (simp add: exportable_rows_def filter_id_conv)
  with l(4,5) sc have u: "tbl_schema (ls_table st') = ?sc" "buffer_rows (tbl_buf (ls_table st')) = ?rows" by simp_all
  have t: "wf_buffer (tbl_buf t)" "\<And>i str. str \<in> set (slice_at (wb_stringCols (tbl_buf t)) i) \<Longrightarrow> length str < 2 ^ 64"
    using assms(1) by (auto simp: flushable_def writable_def)
  have "\<forall>i. \<forall>str \<in> set (slice_at (wb_stringCols (tbl_buf (ls_table st'))) i). length str < 2 ^ 64"
  proof (rule insert_all_buffer [OF l(2)])
    show "\<forall>i. \<forall>str \<in> set (slice_at (wb_stringCols (tbl_buf (ls_table st))) i). length str < 2 ^ 64"
      by (simp add: st(4))
    fix b r b'
    assume "r \<in> set ?rows" "\<forall>i. \<forall>str \<in> set (slice_at (wb_stringCols b) i). length str < 2 ^ 64" "Append b r = (b', Ok ())"
    then show "\<forall>i. \<forall>str \<in> set (slice_at (wb_stringCols b') i). length str < 2 ^ 64"
      using Append_strings buffer_row_strings [OF _ _ t(1)] t(2) by blast
  qed
  then have "flushable (ls_table st')"
    using flushable_same_rows [OF assms(1) l(3) u] by blast
  with run_load_flushed [OF assms(6) st(1) l(1) assms(10-12)] u show ?thesis by blast
qed

text \<open>The two commands on their parsed flags.\<close>

lemma export_reload:
  assumes "flushable t" "24 * int (length (buffer_rows (tbl_buf t))) \<le> max_alloc"
    and "exportable_schema (tbl_schema t)"
    and "\<forall>row \<in> set (buffer_rows (tbl_buf t)). list_all exportable row \<and> row \<noteq> [VString []]"
    and "qe_readFile qenv db = Some (flushed t)" "db \<noteq> []" "\<forall>text. qe_accepts qenv text"
    and "all_flags fl" "lf_schema fl = spec_text (specs_of (tbl_schema t))" "lf_pk fl = schema_pk (tbl_schema t)"
    and "lf_noBloom fl"
    and "le_write env = buffer_write" "le_create env (lf_out fl) = Some []" "\<forall>w. le_close env w"
  shows "\<exists>rep. runQuery qenv (Some \<lparr>qf_db = db, qf_limit = n, qf_format = ''csv'', qf_args = [''SELECT *'']\<rparr>) = Ok rep \<and>
    qr_code rep = 0 \<and>
    (le_open env (lf_csv fl) = Some \<lparr>cs_text = qr_stdout rep, cs_fails = False\<rparr> \<longrightarrow>
      (\<exists>res data s1 s2. runLoad env (Some fl) = Some (Ok res) \<and> lr_code res = 0 \<and> lr_file res = Some data \<and>
        parseSegment (flushed t) = Ok s1 \<and> parseSegment data = Ok s2 \<and>
        (\<forall>input q. Parse input = Ok q \<longrightarrow> snd (Execute s2 q) = snd (Execute s1 q))))"
proof -
  let ?sc = "tbl_schema t" and ?rows = "buffer_rows (tbl_buf t)"
  let ?text = "export_text (qe_other qenv) ?sc ?rows" and ?rep = "query_done qenv (export_text (qe_other qenv) ?sc ?rows)"
  have buf: "wf_buffer (tbl_buf t)" "known_types (schema_columns ?sc)" "wb_schema (tbl_buf t) = ?sc"
    using assms(1) by (simp_all add: flushable_def writable_def)
  have conf: "\<forall>row \<in> set ?rows. row_conforms ?sc row"
    using buffer_rows_conform [OF buf(1)] buf(2,3) by simp
  then have rows: "exportable_rows ?sc ?rows" "\<forall>row \<in> set ?rows. length row = length (column_names ?sc)"
    using assms(4) conforms_length by (auto simp: exportable_rows_def column_names_def)
  from query_flushed [OF assms(1,2)] obtain s1 where s1: "parseSegment (flushed t) = Ok s1"
    "\<And>input q. Parse input = Ok q \<Longrightarrow> snd (Execute s1 q) = query_outcome ?sc q ?rows"
    by blast
  have "distinct (column_names ?sc)" using assms(3) by (simp add: exportable_schema_def Validate_Ok_iff)
  from star_outcome [OF this] rows(2) s1(2) [OF parse_star]
  have "snd (Execute s1 star_query) =
      Ok \<lparr>res_Columns = column_names ?sc, res_Rows = ?rows, res_isAggregate = False\<rparr>"
    by (simp add: column_names_def)
  moreover have "renderCSV (qe_other qenv)
      \<lparr>res_Columns = column_names ?sc, res_Rows = ?rows, res_isAggregate = False\<rparr> = Ok ?text"
    by (rule renderCSV_rows [OF rows(2)])
  ultimately have "runQuery qenv (Some \<lparr>qf_db = db, qf_limit = n, qf_format = ''csv'', qf_args = [''SELECT *'']\<rparr>) = Ok ?rep"
    using assms(5-7) s1(1) by (simp add: runQuery_def OpenSegment_def parse_star print_result_def)
  moreover have "\<exists>res data s2. runLoad env (Some fl) = Some (Ok res) \<and> lr_code res = 0 \<and> lr_file res = Some data \<and>
      parseSegment data = Ok s2 \<and> (\<forall>input q. Parse input = Ok q \<longrightarrow> snd (Execute s2 q) = snd (Execute s1 q))"
    if "le_open env (lf_csv fl) = Some \<lparr>cs_text = ?text, cs_fails = False\<rparr>"
  proof -
    from reload_export [OF assms(1-3) rows(1) that assms(8-14)] obtain res u where
      r: "runLoad env (Some fl) = Some (Ok res)" "lr_code res = 0" "lr_file res = Some (flushed u)"
      and u: "flushable u" "tbl_schema u = ?sc" "buffer_rows (tbl_buf u) = ?rows"
      by blast
    from query_flushed [OF u(1)] assms(2) u(2,3) obtain s2 where "parseSegment (flushed u) = Ok s2"
      "\<And>input q. Parse input = Ok q \<Longrightarrow> snd (Execute s2 q) = query_outcome ?sc q ?rows"
      by auto
    with r s1(2) show ?thesis by auto
  qed
  ultimately show ?thesis using s1(1) by (intro exI [of _ ?rep]) (auto simp: query_done_def)
qed

section \<open>Properties\<close>

text \<open>
  C18: printed values are exact. The text that \<open>query\<close> prints for a cell, an \<open>int64\<close>, a string or any double but a
  NaN, is read back by \<open>load\<close> under the type of the column as the same value; a printed NaN is read back
  as the canonical NaN.
\<close>

theorem printed_values_parse:
  assumes "has_type v t"
  shows "parseFieldByType (formatValue other v) t =
    Ok (case v of VFloat64 x \<Rightarrow> VFloat64 (if f_is_nan x then f_nan else x) | _ \<Rightarrow> v)"
  using assms format_int_chars(2) format_g_nonempty parse_float_format_g
  by (cases t) (auto simp: parseFieldByType_def formatValue_def parse_int_format_int)

theorem printed_values_parse_witness:
  "parseFieldByType (formatValue id (VFloat64 float_half)) Float64 = Ok (VFloat64 float_half)"
  using printed_values_parse [of "VFloat64 float_half" Float64 id]
  by (simp add: float_half_def f_is_nan_def f_exponent_def)

end
