(* ===== verification/Inspect.thy ===== *)
theory Inspect
  imports Format Tabwriter SegmentRead
begin

text \<open>
  \<open>cmd/uniqcol/inspect.go\<close>: the report on a segment file. \<open>os.ReadFile\<close> and \<open>os.Stat\<close> are parameters.
\<close>

section \<open>Labels\<close>

definition formatVersionLabel :: "16 word \<Rightarrow> string" where
  "formatVersionLabel v =
     (if v = 1 then ''v1 (legacy, no PK/no Bloom)''
      else if v = 2 then ''v2''
      else ''v'' @ format_nat (unat v) @ '' (unsupported)'')"

definition encodingLabel :: "encoding \<Rightarrow> string" where
  "encodingLabel e = (case e of EncodingRaw \<Rightarrow> ''raw'' | EncodingRLE \<Rightarrow> ''RLE'' | OtherEncoding b \<Rightarrow> encoding_string e)"

section \<open>The report\<close>

abbreviation tab :: string where "tab \<equiv> [CHR 0x09]"
abbreviation nl :: string where "nl \<equiv> [CHR 0x0A]"

definition schema_lines :: "segment \<Rightarrow> string" where
  "schema_lines seg =
     tabwrite 4 (concat (map (\<lambda>c.
       ''  '' @ col_name c @ tab @ column_type_string (col_type c) @ tab @
       (if seg_pkName seg \<noteq> [] \<and> col_name c = seg_pkName seg then ''[PK]'' else []) @ nl)
       (schema_columns (seg_schema seg))))"

definition bloom_lines :: "platform \<Rightarrow> bloom_filter option \<Rightarrow> (unit, string) outcome" where
  "bloom_lines p bf =
     (case bf of
        None \<Rightarrow> Ok (''  enabled:        no'' @ nl)
      | Some f \<Rightarrow>
          bind_ok (commaSepUint64 (bf_m f)) (\<lambda>m.
          bind_ok (commaSepUint64 (bf_nAdded f)) (\<lambda>n.
            Ok (''  enabled:        yes'' @ nl @
                ''  m (bits):       '' @ m @ nl @
                ''  k (hashes):     '' @ format_nat (unat (bf_k f)) @ nl @
                ''  n_added:        '' @ n @ nl @
                ''  est. FPR:       '' @ format_fixed 5 (EstimatedFPR p f) @ nl))))"

definition payload_lines :: "segment \<Rightarrow> string" where
  "payload_lines seg =
     tabwrite 4 (concat (map (\<lambda>ci.
       ''  '' @ ci_Name ci @ tab @ column_type_string (ci_Type ci) @ tab @ encodingLabel (ci_Encoding ci) @ tab @
       humanBytes (of_nat (ci_PayloadLen ci)) @ nl)
       (ColumnInfo seg)))"

definition inspect_report :: "platform \<Rightarrow> string \<Rightarrow> int64 \<Rightarrow> segment \<Rightarrow> (unit, string) outcome" where
  "inspect_report p path diskSize seg =
     bind_ok (commaSepUint64 (seg_rowCount seg)) (\<lambda>rows.
     bind_ok (if seg_version seg = 1 then Ok []
              else bind_ok (bloom_lines p (seg_bloomFilter seg)) (\<lambda>b. Ok (''bloom filter:'' @ nl @ b @ nl))) (\<lambda>bloom.
       Ok (''segment: '' @ path @ nl @
           ''format:  '' @ formatVersionLabel (seg_version seg) @ nl @
           ''size:    '' @ humanBytes diskSize @ nl @ nl @
           ''schema ('' @ format_nat (length (schema_columns (seg_schema seg))) @ '' columns):'' @ nl @
           schema_lines seg @ nl @
           ''rows:    '' @ rows @ nl @ nl @
           bloom @
           ''column payloads:'' @ nl @
           payload_lines seg)))"

record inspect_env =
  ie_platform :: platform
  ie_readFile :: "string \<Rightarrow> byte list option"
  ie_stat :: "string \<Rightarrow> int64 option"

datatype inspect_message = InspectUsage | InspectFailed segment_error

record inspect_result =
  ir_code :: nat
  ir_stderr :: "inspect_message list"
  ir_stdout :: string

definition runInspect :: "inspect_env \<Rightarrow> string list \<Rightarrow> (unit, inspect_result) outcome" where
  "runInspect env args =
     bind_ok (if length args = 1 then bind_ok (fetch args 0) (\<lambda>arg. Ok (arg = ''-h'' \<or> arg = ''--help''))
              else Ok False) (\<lambda>help.
      if help then Ok \<lparr>ir_code = 0, ir_stderr = [InspectUsage], ir_stdout = []\<rparr>
      else if length args \<noteq> 1 then Ok \<lparr>ir_code = 1, ir_stderr = [InspectUsage], ir_stdout = []\<rparr>
      else
        bind_ok (fetch args 0) (\<lambda>path.
           (case OpenSegment (ie_readFile env) path of
              Err err \<Rightarrow> Ok \<lparr>ir_code = 1, ir_stderr = [InspectFailed err], ir_stdout = []\<rparr>
            | Panic p \<Rightarrow> Panic p
            | Ok seg \<Rightarrow>
                bind_ok (inspect_report (ie_platform env) path
                    (case ie_stat env path of Some n \<Rightarrow> n | None \<Rightarrow> 0) seg) (\<lambda>out.
                  Ok \<lparr>ir_code = 0, ir_stderr = [], ir_stdout = out\<rparr>))))"

end
