(* ===== verification/InspectFacts.thy ===== *)
theory InspectFacts
  imports Inspect Sessions RenderFacts NumberText
begin

text \<open>
  What \<open>inspect\<close> prints about a segment that \<open>Flush\<close> wrote: the schema, the key, the row count, the filter and
  the payload sizes of the table that was flushed, in aligned columns.
\<close>

section \<open>The lines of the two tables\<close>

definition schema_cells :: "table \<Rightarrow> string list list" where
  "schema_cells t =
     map (\<lambda>c. [''  '' @ col_name c, column_type_string (col_type c),
               if col_name c = schema_pk (tbl_schema t) \<and> col_name c \<noteq> [] then ''[PK]'' else []])
       (schema_columns (tbl_schema t))"

definition payload_size :: "table \<Rightarrow> nat \<Rightarrow> nat" where
  "payload_size t i = length (column_payload (tbl_buf t) (col_type (schema_columns (tbl_schema t) ! i)) i)"

definition payload_cells :: "table \<Rightarrow> string list list" where
  "payload_cells t =
     map (\<lambda>i. let c = schema_columns (tbl_schema t) ! i
              in [''  '' @ col_name c, column_type_string (col_type c), ''RLE'', humanBytes (of_nat (payload_size t i))])
       [0..<length (schema_columns (tbl_schema t))]"

definition aligned_lines :: "nat \<Rightarrow> string list list \<Rightarrow> string" where
  "aligned_lines padding rows = concat (map (\<lambda>row. aligned padding rows row @ [newline]) rows)"

lemma plain_cell_simps:
  "plain_cell (s @ u) \<longleftrightarrow> plain_cell s \<and> plain_cell u" "plain_cell (humanBytes n)"
  using control_not_in_size [of _ n] by (auto simp: plain_cell_def)

lemma plain_cell_type: "t \<in> {Int64, Float64, String} \<Longrightarrow> plain_cell (column_type_string t)"
  by (auto simp: plain_cell_def)

lemma schema_lines_aligned:
  assumes "seg_schema s = tbl_schema t" "seg_pkName s = schema_pk (tbl_schema t)"
    and "known_types (schema_columns (tbl_schema t))" "\<forall>n \<in> set (column_names (tbl_schema t)). plain_cell n"
  shows "schema_lines s = aligned_lines 4 (schema_cells t)"
proof -
  have "schema_lines s = tabwrite 4 (concat (map tab_line_text (schema_cells t)))"
    using assms(1,2) by (auto simp: schema_lines_def schema_cells_def tab_line_text_Cons comp_def intro!: arg_cong [of _ _ "tabwrite 4"] arg_cong [of _ _ concat])
  moreover have "\<forall>row \<in> set (schema_cells t). length row = 3 \<and> list_all plain_cell row"
    using assms(3,4) plain_cell_type
    by (auto simp: schema_cells_def plain_cell_simps column_names_def known_types_def) (auto simp: plain_cell_def)
  ultimately show ?thesis using tabwrite_rows [of "schema_cells t" 3 4] by (simp add: aligned_lines_def)
qed

lemma payload_lines_aligned:
  assumes "seg_schema s = tbl_schema t"
    and "\<And>i. i < length (schema_columns (tbl_schema t)) \<Longrightarrow>
      \<exists>b. seg_blocks s (col_name (schema_columns (tbl_schema t) ! i)) = Some b \<and> cb_encoding b = EncodingRLE \<and>
        cb_payloadLen b = payload_size t i"
    and "known_types (schema_columns (tbl_schema t))" "\<forall>n \<in> set (column_names (tbl_schema t)). plain_cell n"
  shows "payload_lines s = aligned_lines 4 (payload_cells t)"
proof -
  let ?cs = "schema_columns (tbl_schema t)"
  have "ColumnInfo s = map (\<lambda>i. \<lparr>ci_Name = col_name (?cs ! i), ci_Type = col_type (?cs ! i), ci_Encoding = EncodingRLE,
      ci_PayloadLen = payload_size t i\<rparr>) [0..<length ?cs]"
    using assms(1,2) by (intro nth_equalityI) (force simp: ColumnInfo_def block_at_def)+
  then have "payload_lines s = tabwrite 4 (concat (map tab_line_text (payload_cells t)))"
    by (simp add: payload_lines_def payload_cells_def tab_line_text_Cons encodingLabel_def comp_def Let_def)
  moreover have "\<forall>row \<in> set (payload_cells t). length row = 4 \<and> list_all plain_cell row"
    using assms(3,4) plain_cell_type
    by (auto simp: payload_cells_def plain_cell_simps column_names_def known_types_def Let_def) (auto simp: plain_cell_def)
  ultimately show ?thesis using tabwrite_rows [of "payload_cells t" 4 4] by (simp add: aligned_lines_def)
qed

section \<open>Properties\<close>

text \<open>
  C22: the inspect report. On a file written by \<open>Flush\<close>, \<open>inspect\<close> exits with 0 and prints the table that was
  flushed: its columns with their types and the key marked, the number of buffered rows, the parameters of its filter,
  and for every column the encoding and the size of its payload, in aligned columns.
\<close>

theorem inspect_describes_table:
  assumes "flushable t" "ie_readFile env path = Some (flushed t)" "path \<noteq> ''-h''" "path \<noteq> ''--help''"
    and "\<forall>n \<in> set (column_names (tbl_schema t)). plain_cell n"
    and "bloom_lines (ie_platform env) (tbl_bloom t) = Ok bloom"
    and "bytes = (case ie_stat env path of Some n \<Rightarrow> n | None \<Rightarrow> 0)"
  shows "runInspect env [path] = Ok \<lparr>ir_code = 0, ir_stderr = [], ir_stdout =
    ''segment: '' @ path @ [newline] @ ''format:  v2'' @ [newline] @ ''size:    '' @ humanBytes bytes @ [newline, newline] @
    ''schema ('' @ format_nat (length (schema_columns (tbl_schema t))) @ '' columns):'' @ [newline] @
    aligned_lines 4 (schema_cells t) @ [newline] @
    ''rows:    '' @ group_digits (format_nat (length (buffer_rows (tbl_buf t)))) @ [newline, newline] @
    ''bloom filter:'' @ [newline] @ bloom @ [newline] @
    ''column payloads:'' @ [newline] @ aligned_lines 4 (payload_cells t)\<rparr>"
proof -
  let ?sc = "tbl_schema t" and ?buf = "tbl_buf t"
  have w: "writable ?sc ?buf (flush_opts t)" using assms(1) by (simp add: flushable_def)
  then have known: "known_types (schema_columns ?sc)" and rows: "16 * int (wb_rows ?buf) \<le> max_alloc"
    by (simp_all add: writable_def)
  from parseSegment_segment_bytes [OF w] obtain s where s: "parseSegment (flushed t) = Ok s" "seg_version s = 2"
    "seg_schema s = ?sc" "seg_pkName s = schema_pk ?sc" "seg_bloomFilter s = tbl_bloom t"
    "seg_rowCount s = of_nat (wb_rows ?buf)"
    and blocks: "\<forall>j < length (schema_columns ?sc). points_to (flushed t) (seg_blocks s) (col_name (schema_columns ?sc ! j))
      (column_payload ?buf (col_type (schema_columns ?sc ! j)) j)"
    by (auto simp: flushed_def flush_opts_def segmentVersionV2_def)
  have "unat (of_nat (wb_rows ?buf) :: uint64) = wb_rows ?buf"
    using rows by (simp add: unat_of_nat max_alloc_def)
  then have count: "commaSepUint64 (of_nat (wb_rows ?buf)) = Ok (group_digits (format_nat (wb_rows ?buf)))"
    by (simp add: commaSepUint64_group_digits)
  have "payload_lines s = aligned_lines 4 (payload_cells t)"
    using blocks known assms(5) by (intro payload_lines_aligned [OF s(3)]) (auto simp: points_to_def payload_size_def)
  moreover have "schema_lines s = aligned_lines 4 (schema_cells t)"
    by (rule schema_lines_aligned [OF s(3,4) known assms(5)])
  ultimately show ?thesis
    using assms(2-4,6,7) s count
    by (simp add: runInspect_def OpenSegment_def inspect_report_def formatVersionLabel_def)
qed

theorem inspect_describes_table_witness:
  "\<exists>data out. runInspect \<lparr>ie_platform = example_platform, ie_readFile = (\<lambda>_. Some data), ie_stat = (\<lambda>_. Some 0)\<rparr> [''f''] =
     Ok \<lparr>ir_code = 0, ir_stderr = [], ir_stdout = ''segment: '' @ ''f'' @ [newline] @ ''format:  v2'' @ out\<rparr>"
proof -
  let ?t = "example_table\<lparr>tbl_buf := example_buffer, tbl_bloom := None, tbl_accepted := 1\<rparr>"
  let ?env = "\<lparr>ie_platform = example_platform, ie_readFile = (\<lambda>_. Some (flushed ?t)), ie_stat = (\<lambda>_. Some 0)\<rparr>"
  have f: "flushable ?t" by (rule flushable_example) simp
  have names: "\<forall>n \<in> set (column_names (tbl_schema ?t)). plain_cell n"
    by (auto simp: example_table_def example_schema_def column_names_def plain_cell_def)
  have no_bloom: "bloom_lines (ie_platform ?env) (tbl_bloom ?t) = Ok (''  enabled:        no'' @ [newline])"
    by (simp add: bloom_lines_def)
  have data: "ie_readFile ?env ''f'' = Some (flushed ?t)" by simp
  have path: "''f'' \<noteq> ''-h''" "''f'' \<noteq> ''--help''" by simp_all
  note report = inspect_describes_table [OF f data path names no_bloom refl]
  show ?thesis
    by (rule exI [of _ "flushed ?t"], rule exI, rule report)
qed

end
