(* ===== verification/Flags.thy ===== *)
theory Flags
  imports FloatText Types
begin

text \<open>
  Command-line arguments: what the commands use of the package \<open>flag\<close> (a flag set that continues on errors, with
  string, \<open>int\<close>, \<open>uint64\<close>, \<open>float64\<close> and \<open>bool\<close> flags), and \<open>strconv.ParseUint\<close> and \<open>ParseInt\<close> in base 0.
\<close>

section \<open>Numbers with a base prefix\<close>

definition letter_digit :: "char \<Rightarrow> nat option" where
  "letter_digit c =
     (if is_digit_char c then Some (digit_val c)
      else
        let n = of_char (to_lower c) :: nat
        in if 97 \<le> n \<and> n \<le> 122 then Some (n - 87) else None)"

fun parse_base :: "nat \<Rightarrow> nat \<Rightarrow> string \<Rightarrow> (num_error, nat) outcome" where
  "parse_base base n [] = Ok n"
| "parse_base base n (c # cs) =
     (if c = CHR ''_'' then parse_base base n cs
      else
        (case letter_digit c of
           None \<Rightarrow> Err ErrSyntax
         | Some d \<Rightarrow>
             if base \<le> d then Err ErrSyntax
             else if 2 ^ 64 \<le> n * base + d then Err ErrRange
             else parse_base base (n * base + d) cs))"

text \<open>The base and the digits after the prefix.\<close>

definition base_prefix :: "string \<Rightarrow> nat \<times> string" where
  "base_prefix s =
     (if s \<noteq> [] \<and> hd s = CHR ''0'' then
        (if 3 \<le> length s \<and> to_lower (s ! 1) = CHR ''b'' then (2, drop 2 s)
         else if 3 \<le> length s \<and> to_lower (s ! 1) = CHR ''o'' then (8, drop 2 s)
         else if 3 \<le> length s \<and> to_lower (s ! 1) = CHR ''x'' then (16, drop 2 s)
         else (8, tl s))
      else (10, s))"

definition base_underscores_ok :: "string \<Rightarrow> bool" where
  "base_underscores_ok s =
     (let p = (2 \<le> length s \<and> hd s = CHR ''0'' \<and> to_lower (s ! 1) \<in> set ''box'')
      in if p then underscores_ok (to_lower (s ! 1) = CHR ''x'') (CHR ''0'') (drop 2 s)
         else underscores_ok False (CHR ''^'') s)"

definition parse_uint0 :: "string \<Rightarrow> (num_error, nat) outcome" where
  "parse_uint0 s =
     (if s = [] then Err ErrSyntax
      else
        let (base, ds) = base_prefix s
        in bind_ok (parse_base base 0 ds) (\<lambda>n.
             if CHR ''_'' \<in> set ds \<and> \<not> base_underscores_ok s then Err ErrSyntax else Ok n))"

definition parse_int0 :: "string \<Rightarrow> (num_error, int) outcome" where
  "parse_int0 s =
     (if s = [] then Err ErrSyntax
      else
        let neg = (hd s = CHR ''-''); u = (if hd s = CHR ''+'' \<or> hd s = CHR ''-'' then tl s else s)
        in bind_ok (parse_uint0 u) (\<lambda>n.
             if (if neg then 2 ^ 63 < n else 2 ^ 63 \<le> n) then Err ErrRange
             else Ok (if neg then - int n else int n)))"

definition parse_bool :: "string \<Rightarrow> bool option" where
  "parse_bool s =
     (if s \<in> set [''1'', ''t'', ''T'', ''TRUE'', ''true'', ''True''] then Some True
      else if s \<in> set [''0'', ''f'', ''F'', ''FALSE'', ''false'', ''False''] then Some False
      else None)"

section \<open>Flag sets\<close>

datatype flag_value = FString string | FInt int | FUint64 uint64 | FFloat64 float64 | FBool bool

datatype flag_error =
    HelpRequested
  | BadFlagSyntax string
  | FlagNotDefined string
  | FlagNeedsArgument string
  | InvalidFlagValue string string

text \<open>Setting a flag keeps its type: the value it has gives the parser.\<close>

definition set_flag :: "flag_value \<Rightarrow> string \<Rightarrow> flag_value option" where
  "set_flag v s =
     (case v of
        FString _ \<Rightarrow> Some (FString s)
      | FInt _ \<Rightarrow> (case parse_int0 s of Ok n \<Rightarrow> Some (FInt n) | _ \<Rightarrow> None)
      | FUint64 _ \<Rightarrow> (case parse_uint0 s of Ok n \<Rightarrow> Some (FUint64 (of_nat n)) | _ \<Rightarrow> None)
      | FFloat64 _ \<Rightarrow> (case parse_float s of Ok x \<Rightarrow> Some (FFloat64 x) | _ \<Rightarrow> None)
      | FBool _ \<Rightarrow> map_option FBool (parse_bool s))"

text \<open>The name of a flag argument and the value after an equals sign that is not its first character.\<close>

definition split_flag :: "string \<Rightarrow> string \<times> string option" where
  "split_flag name =
     (let n = hd name # takeWhile (\<lambda>c. c \<noteq> CHR ''='') (tl name)
      in if length n < length name then (n, Some (drop (length n + 1) name)) else (name, None))"

type_synonym flag_set = "string \<rightharpoonup> flag_value"

definition store_flag ::
  "flag_set \<Rightarrow> string \<Rightarrow> flag_value \<Rightarrow> string \<Rightarrow> (flag_error, flag_set) outcome" where
  "store_flag fs name v s =
     (case set_flag v s of None \<Rightarrow> Err (InvalidFlagValue name s) | Some v' \<Rightarrow> Ok (fs(name \<mapsto> v')))"

fun flag_parse :: "flag_set \<Rightarrow> string list \<Rightarrow> (flag_error, flag_set \<times> string list) outcome" where
  "flag_parse fs [] = Ok (fs, [])"
| "flag_parse fs (s # args) =
     (if length s < 2 \<or> hd s \<noteq> CHR ''-'' then Ok (fs, s # args)
      else if s = ''--'' then Ok (fs, args)
      else
        let name = (if s ! 1 = CHR ''-'' then drop 2 s else drop 1 s)
        in if hd name = CHR ''-'' \<or> hd name = CHR ''='' then Err (BadFlagSyntax s)
           else
             (case split_flag name of (name, value) \<Rightarrow>
                (case fs name of
                   None \<Rightarrow>
                     if name = ''help'' \<or> name = ''h'' then Err HelpRequested else Err (FlagNotDefined name)
                 | Some (FBool b) \<Rightarrow>
                     bind_ok (store_flag fs name (FBool b) (case value of None \<Rightarrow> ''true'' | Some t \<Rightarrow> t)) (\<lambda>fs.
                       flag_parse fs args)
                 | Some v \<Rightarrow>
                     (case value of
                        Some t \<Rightarrow> bind_ok (store_flag fs name v t) (\<lambda>fs. flag_parse fs args)
                      | None \<Rightarrow>
                          (case args of
                             [] \<Rightarrow> Err (FlagNeedsArgument name)
                           | t # args \<Rightarrow> bind_ok (store_flag fs name v t) (\<lambda>fs. flag_parse fs args))))))"

end
