(* ===== verification/Commands.thy ===== *)
theory Commands
  imports Load Render Inspect Flags
begin

text \<open>
  \<open>cmd/uniqcol/main.go\<close> and \<open>version.go\<close>: the dispatch to the subcommands, with the flags each of them declares
  (\<open>load.go\<close>, \<open>query.go\<close>).
\<close>

section \<open>The flags of the subcommands\<close>

text \<open>The default \<open>0.01\<close> of the false-positive rate, as the compiler rounds it.\<close>

definition default_fpr :: float64 where "default_fpr = F64 0x3F847AE147AE147B"

definition load_flag_set :: flag_set where
  "load_flag_set =
     [''csv'' \<mapsto> FString [], ''out'' \<mapsto> FString [], ''pk'' \<mapsto> FString [], ''schema'' \<mapsto> FString [],
      ''expected-items'' \<mapsto> FUint64 1000000, ''target-fpr'' \<mapsto> FFloat64 default_fpr, ''no-bloom'' \<mapsto> FBool False]"

definition query_flag_set :: flag_set where
  "query_flag_set = [''db'' \<mapsto> FString [], ''limit'' \<mapsto> FInt 100, ''format'' \<mapsto> FString ''table'']"

definition string_flag :: "flag_set \<Rightarrow> string \<Rightarrow> string" where
  "string_flag fs name = (case fs name of Some (FString s) \<Rightarrow> s | _ \<Rightarrow> [])"

definition parse_load_flags :: "string list \<Rightarrow> load_flags option" where
  "parse_load_flags args =
     (case flag_parse load_flag_set args of
        Ok (fs, rest) \<Rightarrow>
          Some \<lparr>lf_csv = string_flag fs ''csv'', lf_out = string_flag fs ''out'', lf_pk = string_flag fs ''pk'',
            lf_schema = string_flag fs ''schema'',
            lf_expectedItems = (case fs ''expected-items'' of Some (FUint64 n) \<Rightarrow> n | _ \<Rightarrow> 0),
            lf_targetFPR = (case fs ''target-fpr'' of Some (FFloat64 x) \<Rightarrow> x | _ \<Rightarrow> f_zero),
            lf_noBloom = (case fs ''no-bloom'' of Some (FBool b) \<Rightarrow> b | _ \<Rightarrow> False)\<rparr>
      | _ \<Rightarrow> None)"

definition parse_query_flags :: "string list \<Rightarrow> query_flags option" where
  "parse_query_flags args =
     (case flag_parse query_flag_set args of
        Ok (fs, rest) \<Rightarrow>
          Some \<lparr>qf_db = string_flag fs ''db'', qf_limit = (case fs ''limit'' of Some (FInt n) \<Rightarrow> n | _ \<Rightarrow> 0),
            qf_format = string_flag fs ''format'', qf_args = rest\<rparr>
      | _ \<Rightarrow> None)"

section \<open>Dispatch\<close>

definition versionString :: string where "versionString = ''uniqcol 0.1.0-iter3a''"

definition runVersion :: string where "runVersion = versionString @ [CHR 0x0A]"

definition usage_text :: string where
  "usage_text = concat (map (\<lambda>l. l @ [CHR 0x0A])
     [''usage: uniqcol <subcommand> [flags]'',
      [],
      ''subcommands:'',
      ''  load     ingest a CSV into a segment file'',
      ''  inspect  print segment metadata'',
      ''  query    run a SELECT/WHERE/COUNT/SUM query'',
      ''  version  print version'',
      [],
      ''use `uniqcol <subcommand> --help` for subcommand-specific flags''])"

record 'w cli_env =
  cli_load :: "'w load_env"
  cli_query :: query_env
  cli_inspect :: inspect_env

datatype 'w cli_report =
    LoadReport "'w load_result"
  | QueryReport query_report
  | InspectReport inspect_result
  | VersionReport string
  | HelpReport string
  | NoSubcommand string
  | UnknownSubcommand string string

fun exit_code :: "'w cli_report \<Rightarrow> nat" where
  "exit_code (LoadReport r) = lr_code r"
| "exit_code (QueryReport r) = qr_code r"
| "exit_code (InspectReport r) = ir_code r"
| "exit_code (VersionReport s) = 0"
| "exit_code (HelpReport s) = 0"
| "exit_code (NoSubcommand s) = 2"
| "exit_code (UnknownSubcommand cmd s) = 2"

definition dispatch :: "'w cli_env \<Rightarrow> string list \<Rightarrow> (unit, 'w cli_report) outcome option" where
  "dispatch env args =
     (case args of
        [] \<Rightarrow> Some (Ok (NoSubcommand usage_text))
      | cmd # rest \<Rightarrow>
          if cmd = ''load'' then
            map_option (\<lambda>m. bind_ok m (\<lambda>r. Ok (LoadReport r))) (runLoad (cli_load env) (parse_load_flags rest))
          else if cmd = ''inspect'' then
            Some (bind_ok (runInspect (cli_inspect env) rest) (\<lambda>r. Ok (InspectReport r)))
          else if cmd = ''query'' then
            Some (bind_ok (runQuery (cli_query env) (parse_query_flags rest)) (\<lambda>r. Ok (QueryReport r)))
          else if cmd = ''version'' then Some (Ok (VersionReport runVersion))
          else if cmd = ''-h'' \<or> cmd = ''--help'' \<or> cmd = ''help'' then Some (Ok (HelpReport usage_text))
          else Some (Ok (UnknownSubcommand cmd usage_text)))"

end
