(* ===== verification/CommandFacts.thy ===== *)
theory CommandFacts
  imports Commands RenderFacts SegmentSafety LoadQuery
begin

text \<open>
  The command line: which exit codes the subcommands have and when they have which, that only \<open>load\<close> can run
  for ever, and that a panic comes from \<open>query\<close>, or from \<open>load\<close> when the filter it asks for cannot be allocated.
\<close>

section \<open>Writing never panics\<close>

definition calm :: "'w writing \<Rightarrow> bool" where
  "calm k \<longleftrightarrow> (\<forall>w p. snd (k w) \<noteq> Panic p)"

lemma calm_return [simp]: "calm (\<lambda>w. (w, r)) \<longleftrightarrow> \<not> panics r"
  by (simp add: calm_def panics_iff)

lemma calm_emit [simp]: "calm k \<Longrightarrow> calm (emit wr at bs k)"
  by (simp add: calm_def emit_def split: prod.split)

lemma calm_write_columns: "calm k \<Longrightarrow> calm (write_columns wr i cs buf k)"
proof (induction cs arbitrary: i)
  case (Cons c cs)
  then show ?case
    by (cases "col_type c") (auto simp: encode_column_def Let_def)
qed simp

lemma calm_Flush: "snd (Flush wr t w) \<noteq> Panic p"
proof -
  have "calm (write_bloom wr bf)" for bf by (cases bf) (simp_all add: write_bloom_def)
  then have "calm (WriteSegment wr (tbl_schema t) (tbl_buf t) opts)" for opts
    by (simp add: WriteSegment_def Let_def calm_write_columns)
  then show ?thesis by (simp add: calm_def Flush_def)
qed

section \<open>The commands\<close>

text \<open>What \<open>math.Log\<close> documents: a number for every rate between 0 and 1.\<close>

definition log_defined :: "platform \<Rightarrow> bool" where
  "log_defined p \<longleftrightarrow> (\<forall>x. f_less f_zero x \<longrightarrow> f_less x float_one \<longrightarrow> \<not> f_is_nan (math_log p x))"

text \<open>The filter that \<open>load\<close> asks for is too large to be allocated: \<open>make\<close> panics.\<close>

definition filter_too_large :: "platform \<Rightarrow> load_flags \<Rightarrow> bool" where
  "filter_too_large p fl \<longleftrightarrow> \<not> lf_noBloom fl \<and> panics (New p (lf_expectedItems fl) (lf_targetFPR fl))"

lemma CreateTable_no_panic:
  assumes "opt_BloomDisabled opts \<or> \<not> panics (New p (opt_BloomExpectedItems opts) (opt_BloomTargetFPR opts))"
  shows "CreateTable p s opts \<noteq> Panic q"
proof (cases "Validate s = Ok ()")
  case True
  obtain i where "PKIndex s = int i" "i < length (schema_columns s)" using PKIndex_valid [OF True] by metis
  then have "build_table s bf \<noteq> (Panic q :: (table_error, table) outcome)" for bf
    by (simp add: build_table_def fetch_def)
  then show ?thesis
    using True assms by (auto simp: CreateTable_def bind_ok_Panic_iff panics_iff)
next
  case False
  then show ?thesis using Validate_no_panic [of s]
    by (cases "Validate s") (auto simp: CreateTable_def)
qed

lemma column_positions_no_panic: "column_positions m cols \<noteq> Panic p"
  by (induction cols) (auto simp: bind_ok_Panic_iff split: option.splits)

lemma read_header_no_panic: "read_header src cols \<noteq> Panic p"
proof (cases "csv_Read src")
  case (Pair s x)
  from csv_Read_step(2) [OF this] have "\<not> panics x" .
  with Pair show ?thesis
    by (cases x) (auto simp: read_header_def bind_ok_Panic_iff column_positions_no_panic panics_iff)
qed

lemma start_load_no_panic: "\<not> filter_too_large (le_platform env) fl \<Longrightarrow> start_load env fl \<noteq> Panic p"
  using CreateTable_no_panic [of "load_options fl"] parse_specs_no_panic
  by (auto simp: start_load_def prepare_table_def bind_ok_Panic_iff read_header_no_panic
      filter_too_large_def load_options_def parseSchemaSpec_def split: option.splits if_splits)

lemma start_load_rate:
  assumes "start_load env fl = Ok x" "log_defined (le_platform env)"
  shows "lf_noBloom fl \<or> \<not> f_is_nan (math_log (le_platform env) (lf_targetFPR fl))"
proof (cases "lf_noBloom fl")
  case False
  from assms(1) obtain s t where "CreateTable (le_platform env) s (load_options fl) = Ok t"
    by (auto simp: start_load_def prepare_table_def split: option.splits if_splits)
  with False obtain bf where "New (le_platform env) (lf_expectedItems fl) (lf_targetFPR fl) = Ok bf"
    by (auto simp: CreateTable_def load_options_def)
  then have "f_less f_zero (lf_targetFPR fl)" "f_less (lf_targetFPR fl) float_one"
    by (auto simp: New_def split: if_splits)
  with assms(2) show ?thesis by (simp add: log_defined_def)
qed simp

text \<open>
  When the commands succeed, in terms of the operations they call: \<open>load\<close> wrote and closed its file, \<open>inspect\<close> opened
  its segment, \<open>query\<close> has an answer and, for a CSV rendering, an output that takes it.
\<close>

definition written_out :: "'w load_env \<Rightarrow> load_flags \<Rightarrow> load_state \<Rightarrow> bool" where
  "written_out env fl st \<longleftrightarrow>
     (\<exists>w0 w. le_create env (lf_out fl) = Some w0 \<and> Flush (le_write env) (ls_table st) w0 = (w, Ok ()) \<and> le_close env w)"

definition load_succeeds :: "'w load_env \<Rightarrow> load_flags \<Rightarrow> bool" where
  "load_succeeds env fl \<longleftrightarrow>
     all_flags fl \<and> (\<exists>cols csvIdx st st'. start_load env fl = Ok (cols, csvIdx, st) \<and>
       load_loop cols csvIdx st = Some (Ok st') \<and> written_out env fl st')"

definition inspect_succeeds :: "inspect_env \<Rightarrow> string list \<Rightarrow> bool" where
  "inspect_succeeds env args \<longleftrightarrow>
     args = [''-h''] \<or> args = [''--help''] \<or> (\<exists>path s. args = [path] \<and> OpenSegment (ie_readFile env) path = Ok s)"

definition query_succeeds :: "query_env \<Rightarrow> query_flags \<Rightarrow> bool" where
  "query_succeeds env fl \<longleftrightarrow>
     qf_db fl \<noteq> [] \<and> qf_format fl \<in> {''table'', ''csv''} \<and>
     (\<exists>sql s q r. qf_args fl = [sql] \<and> OpenSegment (qe_readFile env) (qf_db fl) = Ok s \<and> Parse sql = Ok q \<and>
        snd (Execute s q) = Ok r \<and>
        (qf_format fl = ''csv'' \<longrightarrow> (\<exists>out. renderCSV (qe_other env) r = Ok out \<and> qe_accepts env out)))"

lemma finish_load_ends:
  "\<exists>res. finish_load env fl st = Ok res \<and> lr_code res = (if written_out env fl st then 0 else 1) \<and>
     (lr_code res = 1 \<longrightarrow> lr_stderr res \<noteq> [])"
proof (cases "le_create env (lf_out fl)")
  case None
  then show ?thesis by (simp add: finish_load_def load_exit_def written_out_def Let_def)
next
  case (Some w0)
  obtain w r where f: "Flush (le_write env) (ls_table st) w0 = (w, r)" by (cases "Flush (le_write env) (ls_table st) w0")
  obtain out where "printLoadSummary (le_toInt64 env) (summarize env fl st w) = Ok out"
    using printLoadSummary_total by blast
  with Some f calm_Flush [of "le_write env" "ls_table st" w0] show ?thesis
    by (cases r) (auto simp: finish_load_def load_exit_def written_out_def Let_def)
qed

lemma runLoad_ends:
  assumes "log_defined (le_platform env)"
  shows "runLoad env (Some fl) = None \<or>
    (\<exists>p. runLoad env (Some fl) = Some (Panic p) \<and> filter_too_large (le_platform env) fl) \<or>
    (\<exists>res. runLoad env (Some fl) = Some (Ok res) \<and> lr_code res = (if load_succeeds env fl then 0 else 1) \<and>
      (lr_code res = 1 \<longrightarrow> lr_stderr res \<noteq> []))"
proof (cases "all_flags fl")
  case flags: True
  show ?thesis
  proof (cases "start_load env fl")
    case (Ok x)
    then obtain cols csvIdx st where s: "start_load env fl = Ok (cols, csvIdx, st)" by (cases x) auto
    note log = start_load_rate [OF s assms]
    show ?thesis
    proof (cases "cs_fails (ls_source st)")
      case True
      with load_loop_fails [OF start_load_ready(1) [OF s log]] s flags show ?thesis
        by (simp add: runLoad_def all_flags_def)
    next
      case False
      from s log False obtain st' where l: "load_loop cols csvIdx st = Some (Ok st')" by (rule load_loop_fresh)
      have "load_succeeds env fl = written_out env fl st'"
        using s l flags by (simp add: load_succeeds_def)
      with s l flags finish_load_ends [of env fl st'] show ?thesis
        by (simp add: runLoad_def all_flags_def)
    qed
  next
    case (Panic p)
    with start_load_no_panic [of env fl p] flags show ?thesis
      by (auto simp: runLoad_def all_flags_def)
  qed (use flags in \<open>auto simp: runLoad_def load_exit_def load_succeeds_def all_flags_def\<close>)
next
  case False
  then have "runLoad env (Some fl) = Some (Ok (load_exit 1 [RequiredFlags] None))"
    by (auto simp: runLoad_def all_flags_def)
  with False show ?thesis by (simp add: load_succeeds_def load_exit_def)
qed

lemma inspect_report_total: "\<exists>out. inspect_report p path n seg = Ok out"
proof -
  obtain b where "bloom_lines p (seg_bloomFilter seg) = Ok b"
    by (cases "seg_bloomFilter seg") (simp_all add: bloom_lines_def commaSepUint64_group_digits)
  then show ?thesis by (simp add: inspect_report_def commaSepUint64_group_digits)
qed

lemma runInspect_ends:
  "\<exists>res. runInspect env args = Ok res \<and> ir_code res = (if inspect_succeeds env args then 0 else 1) \<and>
     (ir_code res = 1 \<longrightarrow> ir_stderr res \<noteq> [])"
proof (cases "\<exists>path. args = [path] \<and> path \<noteq> ''-h'' \<and> path \<noteq> ''--help''")
  case True
  then obtain path where args: "args = [path]" "path \<noteq> ''-h''" "path \<noteq> ''--help''" by blast
  have no: "OpenSegment (ie_readFile env) path \<noteq> Panic p" for p
    using parseSegment_no_panic by (auto simp: OpenSegment_def split: option.split)
  show ?thesis
  proof (cases "OpenSegment (ie_readFile env) path")
    case (Ok seg)
    obtain out where "inspect_report (ie_platform env) path
        (case ie_stat env path of Some n \<Rightarrow> n | None \<Rightarrow> 0) seg = Ok out"
      using inspect_report_total by blast
    with Ok args show ?thesis by (simp add: runInspect_def inspect_succeeds_def)
  qed (use args no in \<open>simp_all add: runInspect_def inspect_succeeds_def\<close>)
next
  case False
  then show ?thesis
    by (cases args; cases "tl args") (auto simp: runInspect_def inspect_succeeds_def)
qed

text \<open>\<open>query\<close> returns a report or panics; its exit code is 2 exactly for arguments the flag set refuses.\<close>

lemma renderCSV_not_Err: "renderCSV other r \<noteq> Err e"
proof -
  have "fill_record other j row rec \<noteq> Err e" for j row rec
    by (induction row arbitrary: j rec) auto
  then have "csv_rows other rows rec \<noteq> Err e" for rows rec
    by (induction rows arbitrary: rec) (auto simp: bind_ok_Err_iff)
  then show ?thesis by (simp add: renderCSV_def bind_ok_Err_iff)
qed

lemma print_result_ends:
  "(\<exists>rep. print_result env fl r = Ok rep \<and>
      qr_code rep = (if qf_format fl = ''csv'' \<longrightarrow> (\<exists>out. renderCSV (qe_other env) r = Ok out \<and> qe_accepts env out)
                     then 0 else 1) \<and> qr_stderr rep \<noteq> []) \<or>
   panics (print_result env fl r)"
proof -
  obtain out where "renderTable (qe_other env) r (qf_limit fl) = Ok out" using renderTable_total by blast
  then show ?thesis
    using renderCSV_not_Err [of "qe_other env" r "()"]
    by (cases "renderCSV (qe_other env) r") (auto simp: print_result_def query_done_def query_exit_def)
qed

lemma runQuery_ends:
  "(\<exists>rep. runQuery env (Some fl) = Ok rep \<and> qr_code rep = (if query_succeeds env fl then 0 else 1) \<and>
      (qr_code rep = 1 \<longrightarrow> qr_stderr rep \<noteq> [])) \<or>
   panics (runQuery env (Some fl))"
proof (cases "qf_db fl \<noteq> [] \<and> (\<exists>sql. qf_args fl = [sql]) \<and> qf_format fl \<in> {''table'', ''csv''}")
  case True
  then obtain sql where fl: "qf_db fl \<noteq> []" "qf_args fl = [sql]" "qf_format fl \<in> {''table'', ''csv''}" by blast
  show ?thesis
  proof (cases "OpenSegment (qe_readFile env) (qf_db fl)")
    case opened: (Ok seg)
    show ?thesis
    proof (cases "Parse sql")
      case parsed: (Ok q)
      show ?thesis
      proof (cases "snd (Execute seg q)")
        case (Ok r)
        with fl opened parsed print_result_ends [of env fl r] show ?thesis
          by (auto simp: runQuery_def query_succeeds_def)
      qed (use fl opened parsed in \<open>auto simp: runQuery_def query_exit_def query_succeeds_def\<close>)
    qed (use fl opened in \<open>auto simp: runQuery_def query_exit_def query_succeeds_def\<close>)
  qed (use fl in \<open>auto simp: runQuery_def query_exit_def query_succeeds_def\<close>)
next
  case False
  moreover have "length (qf_args fl) = 1 \<longleftrightarrow> (\<exists>sql. qf_args fl = [sql])"
    by (cases "qf_args fl") auto
  ultimately show ?thesis
    by (auto simp: runQuery_def query_exit_def query_succeeds_def)
qed

section \<open>Properties\<close>

text \<open>Arguments the dispatcher or a flag set refuses.\<close>

definition usage_error :: "string list \<Rightarrow> bool" where
  "usage_error args \<longleftrightarrow>
     args = [] \<or>
     hd args \<notin> {''load'', ''inspect'', ''query'', ''version'', ''-h'', ''--help'', ''help''} \<or>
     hd args = ''load'' \<and> parse_load_flags (tl args) = None \<or>
     hd args = ''query'' \<and> parse_query_flags (tl args) = None"

definition command_succeeds :: "'w cli_env \<Rightarrow> string list \<Rightarrow> bool" where
  "command_succeeds env args \<longleftrightarrow>
     (case args of
        [] \<Rightarrow> False
      | cmd # rest \<Rightarrow>
          cmd = ''load'' \<and> (\<exists>fl. parse_load_flags rest = Some fl \<and> load_succeeds (cli_load env) fl) \<or>
          cmd = ''inspect'' \<and> inspect_succeeds (cli_inspect env) rest \<or>
          cmd = ''query'' \<and> (\<exists>fl. parse_query_flags rest = Some fl \<and> query_succeeds (cli_query env) fl) \<or>
          cmd \<in> {''version'', ''-h'', ''--help'', ''help''})"

text \<open>The report carries a message for standard error.\<close>

fun complains :: "'w cli_report \<Rightarrow> bool" where
  "complains (LoadReport r) \<longleftrightarrow> lr_stderr r \<noteq> []"
| "complains (QueryReport r) \<longleftrightarrow> qr_stderr r \<noteq> []"
| "complains (InspectReport r) \<longleftrightarrow> ir_stderr r \<noteq> []"
| "complains (VersionReport s) \<longleftrightarrow> False"
| "complains (HelpReport s) \<longleftrightarrow> False"
| "complains (NoSubcommand s) \<longleftrightarrow> s \<noteq> []"
| "complains (UnknownSubcommand cmd s) \<longleftrightarrow> True"

text \<open>
  C21: exit codes. Whatever the arguments, the files and the outputs, \<open>dispatch\<close> reports with exit code 2 exactly for
  a usage error (no or an unknown subcommand, or flags that do not parse), with 0 exactly when the command succeeds: the
  segment was written and closed, opened, or queried and its answer taken; with 1, and a message, in all other cases.
  Only \<open>load\<close> can run for ever. A panic comes from \<open>query\<close>, or from \<open>load\<close> when the filter its flags ask for
  is too large to be allocated. The hypothesis is the documented behaviour of \<open>math.Log\<close>.
\<close>

theorem dispatch_exit_codes:
  assumes "log_defined (le_platform (cli_load env))"
  shows "case dispatch env args of
      None \<Rightarrow> hd args = ''load''
    | Some (Ok rep) \<Rightarrow>
        exit_code rep = (if usage_error args then 2 else if command_succeeds env args then 0 else 1) \<and>
        (exit_code rep = 1 \<longrightarrow> complains rep)
    | Some (Err e) \<Rightarrow> False
    | Some (Panic p) \<Rightarrow> hd args = ''query'' \<or>
        (hd args = ''load'' \<and> (\<exists>fl. parse_load_flags (tl args) = Some fl \<and>
           filter_too_large (le_platform (cli_load env)) fl))"
proof (cases args)
  case Nil
  then show ?thesis by (simp add: dispatch_def usage_error_def)
next
  case (Cons cmd rest)
  consider (load) "cmd = ''load''" | (inspect) "cmd = ''inspect''" | (query) "cmd = ''query''"
    | (other) "cmd \<notin> {''load'', ''inspect'', ''query''}"
    by blast
  then show ?thesis
  proof cases
    case load
    show ?thesis
    proof (cases "parse_load_flags rest")
      case None
      then show ?thesis using Cons load by (simp add: dispatch_def usage_error_def runLoad_def load_exit_def)
    next
      case (Some fl)
      from runLoad_ends [OF assms, of fl] Cons load Some show ?thesis
        by (auto simp: dispatch_def usage_error_def command_succeeds_def)
    qed
  next
    case inspect
    with runInspect_ends [of "cli_inspect env" rest] Cons show ?thesis
      by (auto simp: dispatch_def usage_error_def command_succeeds_def)
  next
    case query
    show ?thesis
    proof (cases "parse_query_flags rest")
      case None
      then show ?thesis using Cons query by (simp add: dispatch_def usage_error_def runQuery_def query_exit_def)
    next
      case (Some fl)
      from runQuery_ends [of "cli_query env" fl] Cons query Some show ?thesis
        by (auto simp: dispatch_def usage_error_def command_succeeds_def panics_iff)
    qed
  next
    case other
    with Cons show ?thesis by (auto simp: dispatch_def usage_error_def command_succeeds_def)
  qed
qed

definition example_cli :: "byte list cli_env" where
  "example_cli =
     \<lparr>cli_load = example_env example_csv, cli_query = example_query_env,
      cli_inspect = \<lparr>ie_platform = example_platform,
        ie_readFile = (\<lambda>path. if path = ''a.seg'' then Some [85, 67, 79, 76, 1, 0, 0, 0, 7, 0, 0, 0, 0, 0, 0, 0] else None),
        ie_stat = (\<lambda>_. None)\<rparr>\<rparr>"

theorem dispatch_exit_codes_witness:
  "(\<exists>rep. dispatch example_cli [''inspect'', ''a.seg''] = Some (Ok rep) \<and> exit_code rep = 0) \<and>
   (\<exists>rep. dispatch example_cli [''inspect'', ''b.seg''] = Some (Ok rep) \<and> exit_code rep = 1 \<and> complains rep) \<and>
   (\<exists>rep. dispatch example_cli [''remove''] = Some (Ok rep) \<and> exit_code rep = 2)"
proof -
  have log: "log_defined (le_platform (cli_load example_cli))"
    by (simp add: log_defined_def example_cli_def example_env_def example_platform_def float_eval)
  have "command_succeeds example_cli [''inspect'', ''a.seg'']" "\<not> command_succeeds example_cli [''inspect'', ''b.seg'']"
    using parse_empty_file
    by (simp_all add: command_succeeds_def inspect_succeeds_def example_cli_def OpenSegment_def)
  moreover have "dispatch example_cli (''inspect'' # rest) \<noteq> None" for rest by (simp add: dispatch_def)
  moreover have "dispatch example_cli [''remove''] \<noteq> None" by (simp add: dispatch_def)
  ultimately show ?thesis
    using dispatch_exit_codes [OF log, of "[''inspect'', ''a.seg'']"] dispatch_exit_codes [OF log, of "[''inspect'', ''b.seg'']"]
      dispatch_exit_codes [OF log, of "[''remove'']"]
    by (auto simp: usage_error_def split: option.splits outcome.splits)
qed

end
