(* ===== verification/LoadProgress.thy ===== *)
theory LoadProgress
  imports LoadFacts
begin

text \<open>
  The loop of \<open>load\<close> as a sequence of rounds: it takes one round per record and a last one for the end of the
  input, and with a source that keeps failing no number of rounds is enough.
\<close>

section \<open>Rounds\<close>

inductive rounds :: "col_spec list \<Rightarrow> nat list \<Rightarrow> load_state \<Rightarrow> nat \<Rightarrow> load_state \<Rightarrow> bool"
  for cols :: "col_spec list" and csvIdx :: "nat list"
where
  last_round: "load_step cols csvIdx st = Ok (st', False) \<Longrightarrow> rounds cols csvIdx st 1 st'"
| next_round: "load_step cols csvIdx st = Ok (st1, True) \<Longrightarrow> rounds cols csvIdx st1 n st' \<Longrightarrow>
    rounds cols csvIdx st (Suc n) st'"

inductive_cases rounds_E: "rounds cols csvIdx st n st'"

text \<open>The number of rounds and the final state are determined, and are those of the loop.\<close>

lemma rounds_loop: "rounds cols csvIdx st n st' \<Longrightarrow> load_loop cols csvIdx st = Some (Ok st')"
  by (induction rule: rounds.induct) (subst load_loop.simps, simp)+

lemma rounds_unique:
  "rounds cols csvIdx st n st' \<Longrightarrow> rounds cols csvIdx st k st'' \<Longrightarrow> n = k \<and> st' = st''"
  by (induction arbitrary: k rule: rounds.induct) (erule rounds_E; fastforce)+

lemma rounds_read:
  assumes "load_ready cols csvIdx st" "\<not> cs_fails (ls_source st)"
  shows "\<exists>st'. rounds cols csvIdx st (Suc (length (csv_records (ls_source st)))) st'"
  using assms
proof (induction "length (cs_text (ls_source st))" arbitrary: st rule: less_induct)
  case less
  obtain src x where read: "csv_Read (ls_source st) = (src, x)" by (cases "csv_Read (ls_source st)")
  note facts = csv_Read_step [OF read]
  have recs: "csv_records (ls_source st) = (if x = Err CsvEOF then [] else x # csv_records src)"
    using less.prems(2) read by (subst csv_records.simps) simp
  show ?case
  proof (cases "x = Err CsvEOF")
    case True
    with load_step_EOF read recs last_round show ?thesis by fastforce
  next
    case False
    from less.prems(1) read False obtain st1 where st1: "load_step cols csvIdx st = Ok (st1, True)"
      "load_ready cols csvIdx st1" "ls_source st1 = src"
      by (cases rule: load_step_cases) auto
    with less.hyps [of st1] facts(1,4) False less.prems(2) obtain st'
      where "rounds cols csvIdx st1 (Suc (length (csv_records src))) st'" by auto
    with st1(1) recs False show ?thesis by (auto intro: next_round)
  qed
qed

lemma length_csv_records_text: "length (csv_records r) \<le> length (cs_text r)"
proof (induction r rule: csv_records.induct)
  case (1 r)
  obtain s x where read: "csv_Read r = (s, x)" by (cases "csv_Read r")
  show ?case
  proof (cases "cs_fails r \<or> x = Err CsvEOF")
    case True
    with read show ?thesis by (subst csv_records.simps) auto
  next
    case False
    with "1.IH" [OF _ read [symmetric]] csv_Read_step(4) [OF read]
    have "length (csv_records s) \<le> length (cs_text s)" "length (cs_text s) < length (cs_text r)" by auto
    with False read show ?thesis by (subst csv_records.simps) simp
  qed
qed

section \<open>Properties\<close>

text \<open>
  C17: \<open>load\<close> makes progress. From a state before the loop, the loop reaches its end if and only if the source does;
  then it takes exactly one round per record and one for the end, at most one more than the input has bytes, and
  the result of the loop is the state after these rounds.
\<close>

theorem load_makes_progress:
  assumes "load_ready cols csvIdx st"
  shows "((\<exists>n st'. rounds cols csvIdx st n st') \<longleftrightarrow> \<not> cs_fails (ls_source st)) \<and>
    (\<forall>n st'. rounds cols csvIdx st n st' \<longrightarrow>
      n = Suc (length (csv_records (ls_source st))) \<and> n \<le> Suc (length (cs_text (ls_source st))) \<and>
      load_loop cols csvIdx st = Some (Ok st'))"
proof -
  have reads: "\<not> cs_fails (ls_source st)" if "rounds cols csvIdx st n st'" for n st'
    using rounds_loop [OF that] load_loop_fails [OF assms] by auto
  have "n = Suc (length (csv_records (ls_source st)))" if n: "rounds cols csvIdx st n st'" for n st'
    using rounds_read [OF assms reads [OF n]] rounds_unique [OF n] by blast
  with reads rounds_read [OF assms] rounds_loop length_csv_records_text [of "ls_source st"] show ?thesis
    by blast
qed

theorem load_makes_progress_witness:
  "\<exists>st'. rounds example_cols [1, 0] example_start 3 st' \<and>
     load_loop example_cols [1, 0] example_start = Some (Ok st')"
proof -
  have ready: "load_ready example_cols [1, 0] example_start" "\<not> cs_fails (ls_source example_start)"
    by (simp_all add: load_ready_def example_start_def example_cols_def wf_example_table)
  with load_makes_progress [OF ready(1)] obtain n st' where
    "rounds example_cols [1, 0] example_start n st'" "n = Suc (length (csv_records (ls_source example_start)))"
    "load_loop example_cols [1, 0] example_start = Some (Ok st')"
    by blast
  then show ?thesis unfolding records_example by (auto simp: numeral_3_eq_3)
qed

end
