(* ===== verification/Spec2Isabelle.thy ===== *)
theory Spec2Isabelle
  imports ExecSafety ParserText Datagen Export InspectFacts CommandFacts LoadProgress
begin

text \<open>
  uniqcol: a columnar storage engine with write-time deduplication and a small query language.

  \<^bold>\<open>The program.\<close> A table (\<open>src/storage/table.go\<close>) has a schema, a column-major write buffer and a Bloom
  filter over the primary key. \<open>Insert\<close> checks a row, asks the filter whether its key may be known, and
  appends the row to the buffer when it is not. \<open>Flush\<close> writes the buffer, the name of the key and the filter as one
  segment file; \<open>LoadTable\<close> starts a later session from the filter of such a file. A segment is parsed as a whole and
  its columns are decoded on first use, into a cache. A query is tokenized and parsed (\<open>src/query/parser.go\<close>) and
  executed column by column with selection vectors (\<open>src/query/exec.go\<close>). The command \<open>uniqcol\<close>
  (\<open>src/cmd/uniqcol\<close>) has \<open>load\<close>, which inserts the rows of a CSV file into a new table and flushes it, \<open>inspect\<close>,
  \<open>query\<close> and \<open>version\<close>.

  \<^bold>\<open>Conventions.\<close> A Go call that can fail returns an \<open>outcome\<close> (\<open>Prelude\<close>): \<open>Ok\<close> a value, \<open>Err\<close> an error value or
  \<open>Panic\<close>; \<open>bind_ok\<close> is the early return \<open>if err != nil\<close>. Index expressions are \<open>fetch\<close>,
  slice expressions \<open>go_slice\<close> and \<open>slice_from\<close>, fixed-width reads \<open>get_uint16\<close> and \<open>get_uint64\<close>: each panics out of
  range, as do type assertions and \<open>make\<close>, so a dropped length check is a reachable panic. The upper bound of a
  slice is its length, where Go allows its capacity; the model panics wherever Go does. Without a check of their own are
  an index that a look-up has just returned (\<open>ColumnIndex\<close>, the position of a group), constant slices of an array of that
  size (the header of \<open>ReadSegmentHeader\<close>), \<open>fs.Arg(0)\<close>, which cannot panic, and the tokenizer, which consumes the list of
  the characters that are left. A struct is a record, a method that changes it returns it updated. A string is the list of its bytes, \<open>byte\<close>, \<open>uint64\<close> and \<open>int64\<close> are words, Go's \<open>int\<close> is 64 bits. A double is its 64 bits; its
  arithmetic is correctly rounded integer arithmetic in units of \<open>2 ^ -1074\<close> (\<open>Float64\<close>). A value of Go's \<open>any\<close> is
  \<open>go_value\<close>. Error values carry the data their messages print. A writer is a function from a state and bytes to
  a state and a success flag.

  \<^bold>\<open>Theories and sources.\<close>

    \<^item> \<open>Prelude\<close>, \<open>Wire\<close>, \<open>Decimal\<close>, \<open>Float64\<close>, \<open>FloatText\<close>, \<open>FloatPrint\<close>, \<open>Csv\<close>, \<open>Tabwriter\<close>, \<open>Flags\<close>: what the code uses of
      the Go run time and standard library (slices, \<open>encoding/binary\<close>, \<open>strconv\<close>, \<open>math\<close>, \<open>encoding/csv\<close>,
      \<open>text/tabwriter\<close>, \<open>flag\<close>).
    \<^item> \<open>Types\<close>: \<open>storage/types.go\<close>. \<open>Bloom\<close>: \<open>bloom/bloom.go\<close>. \<open>Buffer\<close>: \<open>storage/buffer.go\<close>. \<open>Encoding\<close>:
      \<open>storage/encoding.go\<close>. \<open>Rle\<close>: \<open>storage/rle.go\<close>.
    \<^item> \<open>SegmentWrite\<close>, \<open>SegmentRead\<close>: the two halves of \<open>storage/segment.go\<close>. The record \<open>segment\<close> has the raw bytes, the
      blocks and the cache of decoded columns. \<open>Table\<close>: \<open>storage/table.go\<close>.
    \<^item> \<open>Lexer\<close>, \<open>Parser\<close>: \<open>query/parser.go\<close>. The parser state is the list of the tokens that are left. \<open>Exec\<close>:
      \<open>query/exec.go\<close>; every step takes and returns the segment, because reading a column fills the cache.
    \<^item> \<open>Format\<close>, \<open>Load\<close>, \<open>Render\<close>, \<open>Inspect\<close>, \<open>Commands\<close>: \<open>format.go\<close>, \<open>load.go\<close>, \<open>query.go\<close>, \<open>inspect.go\<close>, \<open>main.go\<close> and
      \<open>version.go\<close> of \<open>cmd/uniqcol\<close>. The loop of \<open>load\<close> is a partial function whose value \<open>None\<close> means that it does
      not return. \<open>Datagen\<close>: \<open>bench/datagen.go\<close>.

  \<^bold>\<open>Lemma groups.\<close>

    \<^item> Interfaces as locales, each interpreted on the model: \<open>membership_filter\<close> (\<open>Bloom\<close>), \<open>row_buffer\<close> (\<open>Buffer\<close>),
      \<open>column_codec\<close> (\<open>Encoding\<close>, \<open>Rle\<close>), \<open>rle_codec\<close> (\<open>Rle\<close>), \<open>byte_sink\<close> (\<open>SegmentWrite\<close>), \<open>memo_reader\<close>
      (\<open>SegmentFacts\<close>), \<open>dedup_table\<close> (\<open>Table\<close>, over a filter and a buffer), \<open>number_format\<close> (\<open>Export\<close>).
    \<^item> \<open>Bloom\<close>: add and contains as union and inclusion of bit positions, no false negatives, sizes, serialization.
      \<open>Buffer\<close>: the buffer as a list of rows; \<open>Append\<close> returns the buffer it leaves also with an error, and that it is
      the old one is proved. \<open>Encoding\<close>, \<open>Rle\<close>: round trips, maximal runs, when exactly the decoders panic.
    \<^item> \<open>SegmentFacts\<close>: the parser inverts the writer. \<open>SegmentSafety\<close>: what holds of arbitrary bytes (where each
      step of the parser ends, and that none reads out of range), and of arbitrary writers. \<open>Table\<close>, \<open>Sessions\<close>: the invariant of a table, uniqueness of the accepted keys within a
      session and across files.
    \<^item> \<open>ParserFacts\<close>: shape of the parsed queries and error positions. \<open>ParserText\<close>: every statement of the grammar, printed, is
      parsed to its query.
    \<^item> \<open>ExecFacts\<close>, \<open>GroupFacts\<close>, \<open>QueryFacts\<close>: \<open>Execute\<close> refines the reference semantics \<open>query_outcome\<close> over the rows a
      segment presents. \<open>ExecSafety\<close>: no panic on segments that parse, whatever their columns hold.
    \<^item> \<open>LoadFacts\<close>, \<open>LoadProgress\<close>, \<open>LoadQuery\<close>: \<open>load\<close> inserts the rows that parse, in as many rounds as there are records.
      \<open>CsvFacts\<close>, \<open>FloatRoundtrip\<close>, \<open>NumberText\<close>, \<open>Export\<close>: what is printed is read back. \<open>RenderFacts\<close>, \<open>InspectFacts\<close>,
      \<open>CommandFacts\<close>: the output and the exit codes of the commands.
    \<^item> This theory: the properties that span components, from inserts to answers, from a CSV file to answers, and from
      an exported segment back to a segment.

  \<^bold>\<open>Bounds.\<close> \<open>max_alloc\<close> is \<open>2 ^ 48\<close>, the largest allocation of the Go run time on 64-bit platforms; \<open>make\<close> of more
  panics. A table is \<open>flushable\<close> when its columns, strings and payloads fit the length fields of the format and its
  rows an allocation. The shortest decimal of a double is searched up to 1400 digits: with 1074 fractional digits
  every double is exact and the decimal point is at most at position 309, so the search always succeeds
  (\<open>shortest_reads_back\<close>). No other recursion has a fuel; loops are structural or have a measure.

  \<^bold>\<open>Parameters.\<close> \<open>platform\<close>: \<open>math.Log\<close>, \<open>math.Exp\<close>, \<open>math.Pow\<close> and conversions of doubles that do not fit an
  integer, which Go leaves to the implementation. The file system, writers, elapsed times, \<open>math/rand\<close>. A hypothesis
  that \<open>math.Log\<close> of the false-positive rate is no NaN holds for every rate in the open unit interval (\<open>log_defined\<close>).

  \<^bold>\<open>Not modelled.\<close> The wording of messages on standard error and the help texts of the subcommands: messages are values
  with the data they print. The part of a CSV rendering that a failing standard output has taken. The line and column
  numbers inside CSV errors. Allocation failures below \<open>max_alloc\<close>, and concurrency: the code is for a single
  writer and the packages start no goroutine. The tests and the documentation.
\<close>

section \<open>Command lines\<close>

text \<open>The flags of the two command lines below.\<close>

lemma query_command_line:
  "parse_query_flags [''--db'', db, ''--format'', fmt, ''SELECT *''] =
    Some \<lparr>qf_db = db, qf_limit = 100, qf_format = fmt, qf_args = [''SELECT *'']\<rparr>"
  by (simp add: parse_query_flags_def query_flag_set_def split_flag_def store_flag_def set_flag_def string_flag_def)

lemma load_command_line:
  "parse_load_flags [''--csv'', csv, ''--out'', out, ''--pk'', pk, ''--schema'', spec, ''--no-bloom''] =
    Some \<lparr>lf_csv = csv, lf_out = out, lf_pk = pk, lf_schema = spec, lf_expectedItems = 1000000,
      lf_targetFPR = default_fpr, lf_noBloom = True\<rparr>"
  by (simp add: parse_load_flags_def load_flag_set_def split_flag_def store_flag_def set_flag_def parse_bool_def
      string_flag_def)

section \<open>Properties across components\<close>

text \<open>
  C4: from inserts to answers. Rows go into a new table, the table is flushed and the file opened: a
  query that parses answers over exactly the rows that were accepted, in the order of their inserts.
\<close>

theorem queries_see_accepted_rows:
  assumes "CreateTable p sc opts = Ok t" "\<not> opt_BloomDisabled opts \<Longrightarrow> \<not> f_is_nan (math_log p (opt_BloomTargetFPR opts))"
    and "insert_all t rows = Ok (t1, results)" "flushable t1"
    and "24 * int (length rows) \<le> max_alloc" "Parse input = Ok q"
  shows "\<exists>s. OpenSegment (one_file path (fst (Flush buffer_write t1 []))) path = Ok s \<and>
    snd (Execute s q) = query_outcome sc q (accepted_rows rows results)"
proof -
  note t = CreateTable_wf [OF assms(1,2)]
  from insert_all_ex [OF t(1), of rows] assms(3) have t1: "wf_table t1" "same_shape t t1"
    "buffer_rows (tbl_buf t1) = accepted_rows rows results" "length results = length rows"
    using t(3) by auto
  have "length (accepted_rows rows results) \<le> length rows"
    using length_filter_le [of "\<lambda>(r, res). ir_Accepted res" "zip rows results"] t1(4)
    by (simp add: accepted_rows_def)
  then have "24 * int (length (buffer_rows (tbl_buf t1))) \<le> max_alloc"
    using assms(5) t1(3) by simp
  from query_flushed [OF assms(4) this] obtain s where "parseSegment (flushed t1) = Ok s"
    "\<And>input q. Parse input = Ok q \<Longrightarrow> snd (Execute s q) = query_outcome (tbl_schema t1) q (buffer_rows (tbl_buf t1))"
    by blast
  with assms(6) t1(2,3) t(2) Flush_flushed [OF assms(4), of "[]"] show ?thesis
    by (simp add: OpenSegment_def one_file_def same_shape_def)
qed

theorem queries_see_accepted_rows_witness:
  "\<exists>t1 results s q. insert_all example_table [[VInt64 1, VString ''x'']] = Ok (t1, results) \<and>
     OpenSegment (one_file ''f'' (fst (Flush buffer_write t1 []))) ''f'' = Ok s \<and>
     Parse ''SELECT name, COUNT(*) GROUP BY name'' = Ok q \<and>
     snd (Execute s q) =
       Ok \<lparr>res_Columns = [''name'', ''COUNT(*)''], res_Rows = [[VString ''x'', VUint64 1]],
           res_isAggregate = False\<rparr>"
proof -
  have f: "flushable (example_table\<lparr>tbl_buf := example_buffer,
      tbl_bloom := Some \<lparr>bf_m = 2, bf_k = 1, bf_bits = [1], bf_nAdded = 1\<rparr>, tbl_accepted := 1\<rparr>)"
    by (rule flushable_example) (auto simp: wf_filter_def)
  have "query_outcome example_schema example_group
      (accepted_rows [[VInt64 1, VString ''x'']] [\<lparr>ir_Accepted = True, ir_Reason = NoReason\<rparr>]) =
      Ok \<lparr>res_Columns = [''name'', ''COUNT(*)''], res_Rows = [[VString ''x'', VUint64 1]], res_isAggregate = False\<rparr>"
    by (simp add: query_eval example_group_def)
  with queries_see_accepted_rows [OF CreateTable_example example_table_log insert_all_example f _
      parse_example_group, of "''f''"] insert_all_example parse_example_group
  show ?thesis by (auto simp: max_alloc_def)
qed

text \<open>
  C9: load, then query. When the input ends, the output file can be created, written and closed, and the table
  fits the format, \<open>load\<close> exits with 0 and leaves a segment on which every parsed query, in any later
  process, answers exactly over the accepted rows among the parsed rows of the CSV file.
\<close>

theorem load_then_query:
  assumes "all_flags fl" "start_load env fl = Ok (cols, csvIdx, st)" "\<not> cs_fails (ls_source st)"
    and "lf_noBloom fl \<or> \<not> f_is_nan (math_log (le_platform env) (lf_targetFPR fl))"
    and "le_write env = buffer_write" "le_create env (lf_out fl) = Some []" "\<forall>w. le_close env w"
    and "\<And>st'. load_loop cols csvIdx st = Some (Ok st') \<Longrightarrow> flushable (ls_table st')"
    and "24 * int (length (csv_records (ls_source st))) \<le> max_alloc"
  shows "\<exists>res data s t' results.
    runLoad env (Some fl) = Some (Ok res) \<and> lr_code res = 0 \<and> lr_file res = Some data \<and>
    parseSegment data = Ok s \<and>
    insert_all (ls_table st) (parsed_rows cols csvIdx (ls_source st)) = Ok (t', results) \<and>
    (\<forall>input q. Parse input = Ok q \<longrightarrow> snd (Execute s q) =
       query_outcome (load_schema fl cols) q (accepted_rows (parsed_rows cols csvIdx (ls_source st)) results))"
proof -
  let ?rows = "parsed_rows cols csvIdx (ls_source st)"
  from assms(2,4,3) obtain st' results where l: "load_loop cols csvIdx st = Some (Ok st')"
    "insert_all (ls_table st) ?rows = Ok (ls_table st', results)"
    "tbl_schema (ls_table st') = load_schema fl cols"
    "buffer_rows (tbl_buf (ls_table st')) = accepted_rows ?rows results"
    by (rule load_loop_fresh)
  note fl = assms(8) [OF l(1)]
  obtain res where res: "runLoad env (Some fl) = Some (Ok res)" "lr_code res = 0" "lr_file res = Some (flushed (ls_table st'))"
    using run_load_flushed [OF assms(1,2) l(1) assms(5-7) fl] by blast
  have "length (accepted_rows ?rows results) \<le> length (csv_records (ls_source st))"
    using length_accepted_rows [of ?rows results] length_csv_records [of "ls_source st" cols csvIdx] by simp
  then have "24 * int (length (buffer_rows (tbl_buf (ls_table st')))) \<le> max_alloc"
    using assms(9) l(4) by simp
  from query_flushed [OF fl this] obtain s where "parseSegment (flushed (ls_table st')) = Ok s"
    "\<forall>input q. Parse input = Ok q \<longrightarrow>
       snd (Execute s q) = query_outcome (load_schema fl cols) q (accepted_rows ?rows results)"
    using l(3,4) by auto
  with res l(2) show ?thesis
    by blast
qed

lemma load_loop_example:
  assumes "load_loop example_cols [1, 0] example_start = Some (Ok st')"
  shows "ls_table st' = example_table\<lparr>tbl_buf := example_buffer,
      tbl_bloom := Some \<lparr>bf_m = 2, bf_k = 1, bf_bits = [1], bf_nAdded = 1\<rparr>, tbl_accepted := 1\<rparr>"
proof -
  have ready: "load_ready example_cols [1, 0] example_start" "\<not> cs_fails (ls_source example_start)"
    by (simp_all add: load_ready_def example_start_def example_cols_def wf_example_table)
  from load_loop_reads [OF this] assms obtain results where
    "insert_all (ls_table example_start) (parsed_rows example_cols [1, 0] (ls_source example_start)) =
       Ok (ls_table st', results)"
    by auto
  then have "insert_all example_table [[VInt64 1, VString ''x'']] = Ok (ls_table st', results)"
    unfolding rows_example by (simp add: example_start_def)
  then show ?thesis unfolding insert_all_example by simp
qed

theorem load_then_query_witness:
  "\<exists>res data s q. runLoad (example_env example_csv) (Some example_flags) = Some (Ok res) \<and> lr_code res = 0 \<and>
     lr_file res = Some data \<and> parseSegment data = Ok s \<and> Parse ''SELECT SUM(id)'' = Ok q \<and>
     snd (Execute s q) = query_outcome example_schema q [[VInt64 1, VString ''x'']]"
proof -
  let ?env = "example_env example_csv"
  have env: "le_write ?env = buffer_write" "le_create ?env (lf_out example_flags) = Some []" "\<forall>w. le_close ?env w"
    "lf_noBloom example_flags \<or> \<not> f_is_nan (math_log (le_platform ?env) (lf_targetFPR example_flags))"
    "all_flags example_flags" "\<not> cs_fails (ls_source example_start)"
    by (simp_all add: example_env_def example_flags_def example_log_not_nan all_flags_def example_start_def)
  have f: "flushable (ls_table st')" if "load_loop example_cols [1, 0] example_start = Some (Ok st')" for st'
    unfolding load_loop_example [OF that] by (rule flushable_example) (auto simp: wf_filter_def)
  have n: "24 * int (length (csv_records (ls_source example_start))) \<le> max_alloc"
    unfolding records_example by (simp add: max_alloc_def)
  have t: "ls_table example_start = example_table" by (simp add: example_start_def)
  from load_then_query [OF env(5) start_load_example env(6,4,1-3) f n]
  show ?thesis unfolding rows_example t insert_all_example load_schema_example
    using parse_example_sum by auto
qed

text \<open>
  C10: export and reload, as two command lines. For a segment written by \<open>Flush\<close> whose names and cells survive CSV,
  \<open>uniqcol query --db db --format csv 'SELECT *'\<close> exits with 0, and when its output is the input of \<open>uniqcol load\<close> with the
  key and the columns of the schema and \<open>--no-bloom\<close>, that exits with 0 and leaves a segment on which every
  parsed query has exactly the outcome it has on the original.
\<close>

theorem export_then_load:
  assumes "flushable t" "24 * int (length (buffer_rows (tbl_buf t))) \<le> max_alloc"
    and "exportable_schema (tbl_schema t)"
    and "\<forall>row \<in> set (buffer_rows (tbl_buf t)). list_all exportable row \<and> row \<noteq> [VString []]"
    and "qe_readFile (cli_query env) db = Some (flushed t)" "db \<noteq> []" "\<forall>text. qe_accepts (cli_query env) text"
    and "le_write (cli_load env') = buffer_write" "le_create (cli_load env') out = Some []"
    and "\<forall>w. le_close (cli_load env') w" "csv \<noteq> []" "out \<noteq> []"
  shows "\<exists>rep. dispatch env [''query'', ''--db'', db, ''--format'', ''csv'', ''SELECT *''] = Some (Ok (QueryReport rep)) \<and>
    qr_code rep = 0 \<and>
    (le_open (cli_load env') csv = Some \<lparr>cs_text = qr_stdout rep, cs_fails = False\<rparr> \<longrightarrow>
      (\<exists>res data s1 s2. dispatch env' [''load'', ''--csv'', csv, ''--out'', out, ''--pk'', schema_pk (tbl_schema t),
          ''--schema'', spec_text (specs_of (tbl_schema t)), ''--no-bloom''] = Some (Ok (LoadReport res)) \<and>
        lr_code res = 0 \<and> lr_file res = Some data \<and> parseSegment (flushed t) = Ok s1 \<and> parseSegment data = Ok s2 \<and>
        (\<forall>input q. Parse input = Ok q \<longrightarrow> snd (Execute s2 q) = snd (Execute s1 q))))"
proof -
  let ?fl = "\<lparr>lf_csv = csv, lf_out = out, lf_pk = schema_pk (tbl_schema t), lf_schema = spec_text (specs_of (tbl_schema t)),
    lf_expectedItems = 1000000, lf_targetFPR = default_fpr, lf_noBloom = True\<rparr>"
  have "schema_pk (tbl_schema t) \<noteq> []" "specs_of (tbl_schema t) \<noteq> []"
    using assms(3) by (auto simp: exportable_schema_def Validate_Ok_iff plain_name_def specs_of_def)
  then have "all_flags ?fl" using assms(11,12) spec_text_nonempty by (simp add: all_flags_def)
  with export_reload [OF assms(1-7), of ?fl "cli_load env'" 100] assms(8-10) show ?thesis
    by (auto simp: dispatch_def query_command_line load_command_line)
qed

theorem export_then_load_witness:
  "\<exists>rep res data s1 s2.
     dispatch example_cli [''query'', ''--db'', ''f'', ''--format'', ''csv'', ''SELECT *''] = Some (Ok (QueryReport rep)) \<and>
     dispatch (example_cli\<lparr>cli_load := example_env \<lparr>cs_text = qr_stdout rep, cs_fails = False\<rparr>\<rparr>)
       [''load'', ''--csv'', ''in'', ''--out'', ''out'', ''--pk'', ''id'', ''--schema'', ''id:int64,name:string'', ''--no-bloom''] =
       Some (Ok (LoadReport res)) \<and>
     lr_file res = Some data \<and> OpenSegment (qe_readFile example_query_env) ''f'' = Ok s1 \<and> parseSegment data = Ok s2 \<and>
     (\<forall>input q. Parse input = Ok q \<longrightarrow> snd (Execute s2 q) = snd (Execute s1 q))"
proof -
  let ?t = "example_table\<lparr>tbl_buf := example_buffer, tbl_bloom := None, tbl_accepted := 1\<rparr>"
  let ?query = "[''query'', ''--db'', ''f'', ''--format'', ''csv'', ''SELECT *'']"
  let ?load = "[''load'', ''--csv'', ''in'', ''--out'', ''out'', ''--pk'', ''id'', ''--schema'', ''id:int64,name:string'', ''--no-bloom'']"
  let ?env = "\<lambda>rep. example_cli\<lparr>cli_load := example_env \<lparr>cs_text = qr_stdout rep, cs_fails = False\<rparr>\<rparr>"
  have f: "flushable ?t" by (rule flushable_example) simp
  have sc: "tbl_schema ?t = example_schema" "schema_pk example_schema = ''id''"
    by (simp_all add: example_table_def example_schema_def)
  have spec: "spec_text (specs_of example_schema) = ''id:int64,name:string''"
    by (simp add: specs_of_def example_schema_def spec_item_def)
  have ex: "exportable_schema example_schema"
    using plain_examples by (simp add: exportable_schema_def example_schema_def Validate_Ok_iff column_names_def)
  have envs: "qe_readFile (cli_query example_cli) ''f'' = Some (flushed ?t)" "\<forall>text. qe_accepts (cli_query example_cli) text"
    "le_write (cli_load (?env rep)) = buffer_write" "le_create (cli_load (?env rep)) ''out'' = Some []"
    "\<forall>w. le_close (cli_load (?env rep)) w"
    "le_open (cli_load (?env rep)) ''in'' = Some \<lparr>cs_text = qr_stdout rep, cs_fails = False\<rparr>" for rep
    by (simp_all add: example_cli_def example_query_env_def example_env_def)
  have *: "\<exists>rep. dispatch example_cli ?query = Some (Ok (QueryReport rep)) \<and> qr_code rep = 0 \<and>
    (le_open (cli_load (?env rep')) ''in'' = Some \<lparr>cs_text = qr_stdout rep, cs_fails = False\<rparr> \<longrightarrow>
      (\<exists>res data s1 s2. dispatch (?env rep') ?load = Some (Ok (LoadReport res)) \<and> lr_code res = 0 \<and> lr_file res = Some data \<and>
        parseSegment (flushed ?t) = Ok s1 \<and> parseSegment data = Ok s2 \<and>
        (\<forall>input q. Parse input = Ok q \<longrightarrow> snd (Execute s2 q) = snd (Execute s1 q))))" for rep'
    using ex by (intro export_then_load [OF f _ _ _ envs(1) _ envs(2-5), of "''in''" rep', unfolded sc spec])
      (simp_all add: example_stored_rows max_alloc_def)
  obtain rep where rep: "dispatch example_cli ?query = Some (Ok (QueryReport rep))" using * by blast
  from * [of rep] obtain rep0 where again: "dispatch example_cli ?query = Some (Ok (QueryReport rep0))"
    and load: "le_open (cli_load (?env rep)) ''in'' = Some \<lparr>cs_text = qr_stdout rep0, cs_fails = False\<rparr> \<longrightarrow>
      (\<exists>res data s1 s2. dispatch (?env rep) ?load = Some (Ok (LoadReport res)) \<and> lr_code res = 0 \<and> lr_file res = Some data \<and>
        parseSegment (flushed ?t) = Ok s1 \<and> parseSegment data = Ok s2 \<and>
        (\<forall>input q. Parse input = Ok q \<longrightarrow> snd (Execute s2 q) = snd (Execute s1 q)))"
    by blast
  have "rep0 = rep" using again rep by simp
  with load envs(6) obtain res data s1 s2 where r: "dispatch (?env rep) ?load = Some (Ok (LoadReport res))"
    "lr_file res = Some data" "parseSegment (flushed ?t) = Ok s1" "parseSegment data = Ok s2"
    "\<forall>input q. Parse input = Ok q \<longrightarrow> snd (Execute s2 q) = snd (Execute s1 q)"
    by blast
  have "OpenSegment (qe_readFile example_query_env) ''f'' = Ok s1"
    unfolding OpenSegment_def example_query_env_def using r(3) by simp
  with rep r show ?thesis by blast
qed

end
